(* ===== verification/Prelude.thy ===== *)
theory Prelude
  imports Main "HOL-Library.Word"
begin

unbundle bit_operations_syntax

text \<open>
  Shared vocabulary of the development: the C integer types of the sources, byte
  strings with the little-endian host order and the big-endian network order, checked
  reads of byte memory, the decimal and hexadecimal conversions of \<open>printf\<close>, and the
  generic lemmas on them that the component theories use.
\<close>

section \<open>Integer types and error numbers\<close>

type_synonym u8 = "8 word"
type_synonym u16 = "16 word"
type_synonym u32 = "32 word"
type_synonym u64 = "64 word"
type_synonym bytes = "8 word list"

text \<open>Collections that the component proofs pass to the simplifier.\<close>

named_theorems bytes_simps
  \<open>lengths and values of byte strings\<close>
named_theorems ring_simps
  \<open>index arithmetic of the ring buffer\<close>
named_theorems trace_simps
  \<open>calls a handler makes on each of its branches\<close>

text \<open>The error numbers the sources return (negated), with their Linux values.\<close>

definition ENOMEM :: int where "ENOMEM = 12"
definition EBUSY :: int where "EBUSY = 16"
definition ENODEV :: int where "ENODEV = 19"
definition EINVAL :: int where "EINVAL = 22"
definition EMSGSIZE :: int where "EMSGSIZE = 90"
definition EOPNOTSUPP :: int where "EOPNOTSUPP = 95"
definition ENOTSUPP :: int where "ENOTSUPP = 524"

lemmas errno_defs =
  ENOMEM_def EBUSY_def ENODEV_def EINVAL_def EMSGSIZE_def EOPNOTSUPP_def ENOTSUPP_def

section \<open>Byte strings\<close>

fun le_bytes :: "nat \<Rightarrow> nat \<Rightarrow> bytes" where
  "le_bytes 0 v = []"
| "le_bytes (Suc n) v = word_of_nat v # le_bytes n (v div 256)"

fun le_val :: "bytes \<Rightarrow> nat" where
  "le_val [] = 0"
| "le_val (b # bs) = unat b + 256 * le_val bs"

definition be_bytes :: "nat \<Rightarrow> nat \<Rightarrow> bytes" where
  "be_bytes n v = rev (le_bytes n v)"

definition be_val :: "bytes \<Rightarrow> nat" where
  "be_val bs = le_val (rev bs)"

lemma length_le_bytes [simp, bytes_simps]: "length (le_bytes n v) = n"
  by (induction n arbitrary: v) auto

lemma length_be_bytes [simp, bytes_simps]: "length (be_bytes n v) = n"
  by (simp add: be_bytes_def)

lemma unat_u8_of_nat [bytes_simps]: "unat (word_of_nat v :: u8) = v mod 256"
  by (simp add: unat_of_nat)

lemma unat_u8_less: "unat (b :: u8) < 256"
  using unsigned_less [of b] by simp

lemma unat_u16_less: "unat (w :: u16) < 65536"
  using unsigned_less [of w] by simp

lemma unat_u32_less: "unat (w :: u32) < 4294967296"
  using unsigned_less [of w] by simp

lemma unat_u64_less: "unat (w :: u64) < 18446744073709551616"
  using unsigned_less [of w] by simp

lemma le_val_le_bytes [bytes_simps]: "le_val (le_bytes n v) = v mod 256 ^ n"
proof (induction n arbitrary: v)
  case 0
  show ?case by simp
next
  case (Suc n)
  have "le_val (le_bytes (Suc n) v) = v mod 256 + 256 * (v div 256 mod 256 ^ n)"
    by (simp add: Suc.IH unat_u8_of_nat)
  also have "\<dots> = v mod (256 * 256 ^ n)"
    by (simp add: mod_mult2_eq)
  finally show ?case by simp
qed

lemma be_val_be_bytes [bytes_simps]: "be_val (be_bytes n v) = v mod 256 ^ n"
  by (simp add: be_val_def be_bytes_def le_val_le_bytes)

lemma le_val_bound: "le_val bs < 256 ^ length bs"
proof (induction bs)
  case Nil
  show ?case by simp
next
  case (Cons b bs)
  have "unat b < 256" by (rule unat_u8_less)
  with Cons.IH have "unat b + 256 * le_val bs < 256 * 256 ^ length bs"
    by linarith
  then show ?case by simp
qed

lemma be_val_bound: "be_val bs < 256 ^ length bs"
  using le_val_bound [of "rev bs"] by (simp add: be_val_def)

lemma le_bytes_le_val: "le_bytes (length bs) (le_val bs) = bs"
proof (induction bs)
  case Nil
  show ?case by simp
next
  case (Cons b bs)
  have "unat (word_of_nat (unat b + 256 * le_val bs) :: u8) = unat b"
    unfolding unat_u8_of_nat using unat_u8_less [of b] by simp
  then have "word_of_nat (unat b + 256 * le_val bs) = b"
    by (simp only: word_unat_eq_iff)
  moreover have "(unat b + 256 * le_val bs) div 256 = le_val bs"
    using unat_u8_less [of b] by simp
  ultimately show ?case by (simp add: Cons.IH)
qed

lemma be_bytes_be_val: "be_bytes (length bs) (be_val bs) = bs"
  using le_bytes_le_val [of "rev bs"] by (simp add: be_bytes_def be_val_def)

lemma unat_ucast_mod: "unat (ucast (w :: 'a::len word) :: 'b::len word) = unat w mod 2 ^ LENGTH('b)"
  by (simp add: unsigned_ucast_eq take_bit_eq_mod)

lemma unat_u16_of_nat: "unat (word_of_nat v :: u16) = v mod 65536"
  by (simp add: unat_of_nat)

lemma unat_u32_of_nat: "unat (word_of_nat v :: u32) = v mod 4294967296"
  by (simp add: unat_of_nat)

text \<open>Network order of a 16-bit field, as \<open>ntohs\<close> and \<open>htons\<close> on a little-endian host.\<close>

definition bswap16 :: "u16 \<Rightarrow> u16" where
  "bswap16 w = word_of_nat (be_val (le_bytes 2 (unat w)))"

section \<open>Checked access to byte memory\<close>

text \<open>
  A read or write of \<open>n\<close> bytes at an offset of an object. \<open>None\<close> is an access outside
  the object; every model that copies memory goes through these two functions, so that
  the absence of such an access is something to prove.
\<close>

definition mem_read :: "bytes \<Rightarrow> nat \<Rightarrow> nat \<Rightarrow> bytes option" where
  "mem_read m a n = (if a + n \<le> length m then Some (take n (drop a m)) else None)"

definition mem_write :: "bytes \<Rightarrow> nat \<Rightarrow> bytes \<Rightarrow> bytes option" where
  "mem_write m a bs =
     (if a + length bs \<le> length m
      then Some (take a m @ bs @ drop (a + length bs) m) else None)"

lemma mem_read_Some_iff:
  "mem_read m a n = Some bs \<longleftrightarrow> a + n \<le> length m \<and> bs = take n (drop a m)"
  by (auto simp: mem_read_def)

lemma mem_read_length: "mem_read m a n = Some bs \<Longrightarrow> length bs = n"
  by (auto simp: mem_read_def split: if_splits)

lemma mem_write_length [bytes_simps]: "mem_write m a bs = Some m' \<Longrightarrow> length m' = length m"
  by (auto simp: mem_write_def split: if_splits)

lemma mem_read_same: "mem_write m a bs = Some m' \<Longrightarrow> mem_read m' a (length bs) = Some bs"
  by (auto simp: mem_write_def mem_read_def split: if_splits)

lemma mem_read_before:
  "mem_write m a bs = Some m' \<Longrightarrow> b + n \<le> a \<Longrightarrow> mem_read m' b n = mem_read m b n"
  by (auto simp: mem_write_def mem_read_def take_drop min_def split: if_splits)

lemma mem_read_after:
  "mem_write m a bs = Some m' \<Longrightarrow> a + length bs \<le> b \<Longrightarrow> mem_read m' b n = mem_read m b n"
  by (auto simp: mem_write_def mem_read_def split: if_splits)

lemma take_drop_append [simp]: "take n xs @ drop n xs @ ys = xs @ ys"
  by (metis append_assoc append_take_drop_id)

text \<open>Access to the middle piece of a concatenation.\<close>

lemma mem_read_mid [bytes_simps]:
  "a = length xs \<Longrightarrow> n = length ys \<Longrightarrow> mem_read (xs @ ys @ zs) a n = Some ys"
  by (simp add: mem_read_def)

lemma mem_write_mid [bytes_simps]:
  "a = length xs \<Longrightarrow> length ys' = length ys \<Longrightarrow> mem_write (xs @ ys @ zs) a ys' = Some (xs @ ys' @ zs)"
  by (simp add: mem_write_def)

definition nth_opt :: "'a list \<Rightarrow> nat \<Rightarrow> 'a option" where
  "nth_opt xs i = (if i < length xs then Some (xs ! i) else None)"

definition memmove :: "bytes \<Rightarrow> nat \<Rightarrow> nat \<Rightarrow> nat \<Rightarrow> bytes option" where
  "memmove m dst src n = Option.bind (mem_read m src n) (mem_write m dst)"

section \<open>Number conversions of printf and scanf\<close>

definition digit_char :: "nat \<Rightarrow> char" where
  "digit_char d = (if d < 10 then char_of (48 + d) else char_of (87 + d))"

function dec :: "nat \<Rightarrow> string" where
  "dec n = (if n < 10 then [digit_char n] else dec (n div 10) @ [digit_char (n mod 10)])"
  by pat_completeness auto
termination
  by (relation "measure id") auto

declare dec.simps [simp del]

definition is_digit :: "char \<Rightarrow> bool" where
  "is_digit c \<longleftrightarrow> 48 \<le> (of_char c :: nat) \<and> of_char c \<le> (57 :: nat)"

definition digit_val :: "char \<Rightarrow> nat" where
  "digit_val c = of_char c - 48"

fun dec_val :: "nat \<Rightarrow> string \<Rightarrow> nat" where
  "dec_val acc [] = acc"
| "dec_val acc (c # cs) = dec_val (10 * acc + digit_val c) cs"

lemma is_digit_digit_char [simp]: "d < 10 \<Longrightarrow> is_digit (digit_char d)"
  by (simp add: is_digit_def digit_char_def)

lemma digit_val_digit_char [simp]: "d < 10 \<Longrightarrow> digit_val (digit_char d) = d"
  by (simp add: digit_val_def digit_char_def)

lemma dec_val_append: "dec_val acc (xs @ ys) = dec_val (dec_val acc xs) ys"
  by (induction xs arbitrary: acc) auto

lemma dec_digits: "list_all is_digit (dec n)"
proof (induction n rule: dec.induct)
  case (1 n)
  then show ?case by (subst dec.simps) simp
qed

lemma dec_nonempty [simp]: "dec n \<noteq> []"
  by (subst dec.simps) simp

lemma dec_val_dec: "dec_val 0 (dec n) = n"
proof (induction n rule: dec.induct)
  case (1 n)
  then show ?case by (subst dec.simps) (simp add: dec_val_append)
qed

lemma dec_inject [simp]: "dec m = dec n \<longleftrightarrow> m = n"
  by (metis dec_val_dec)

lemma length_dec_le: "0 < k \<Longrightarrow> n < 10 ^ k \<Longrightarrow> length (dec n) \<le> k"
proof (induction n arbitrary: k rule: dec.induct)
  case (1 n)
  show ?case
  proof (cases "n < 10")
    case True
    with "1.prems" show ?thesis by (subst dec.simps) simp
  next
    case False
    with "1.prems" have "k \<noteq> 1" by auto
    with "1.prems" obtain j where k: "k = Suc j" and "0 < j"
      by (cases k) auto
    moreover from "1.prems" k have "n div 10 < 10 ^ j"
      by (simp add: less_mult_imp_div_less mult.commute)
    ultimately have "length (dec (n div 10)) \<le> j"
      using "1.IH" False by blast
    with False k show ?thesis by (subst dec.simps) simp
  qed
qed

text \<open>The conversions \<open>%02x\<close> and \<open>%04x\<close>.\<close>

definition hex02 :: "u8 \<Rightarrow> string" where
  "hex02 b = [digit_char (unat b div 16), digit_char (unat b mod 16)]"

definition hex04 :: "nat \<Rightarrow> string" where
  "hex04 v = map digit_char [v div 4096 mod 16, v div 256 mod 16, v div 16 mod 16, v mod 16]"

end
