(* ===== verification/Pval_Uapi.thy ===== *)
theory Pval_Uapi
  imports Prelude
begin

text \<open>
  The interface header \<open>include/pval.h\<close> that the kernel module, iproute2, tcpdump and
  the tools share: the IP option, the netlink attribute numbers and the packed slot that
  a \<open>readv\<close> of the character device delivers. Both packed structures are given with
  their byte layout on a little-endian host, and the layouts are shown to be invertible.
\<close>

section \<open>Constants\<close>

definition IPOPT_PVAL :: u8 where "IPOPT_PVAL = 222"

definition IFLA_PVAL_UNSPEC :: nat where "IFLA_PVAL_UNSPEC = 0"
definition IFLA_PVAL_LINK :: nat where "IFLA_PVAL_LINK = 1"
definition IFLA_PVAL_IPOPT :: nat where "IFLA_PVAL_IPOPT = 2"
definition IFLA_PVAL_TXTSTAMP :: nat where "IFLA_PVAL_TXTSTAMP = 3"
definition IFLA_PVAL_RXTSTAMP :: nat where "IFLA_PVAL_RXTSTAMP = 4"
definition IFLA_PVAL_TXCOPY :: nat where "IFLA_PVAL_TXCOPY = 5"
definition IFLA_PVAL_RXCOPY :: nat where "IFLA_PVAL_RXCOPY = 6"
definition IFLA_PVAL_TXBUSYDROP :: nat where "IFLA_PVAL_TXBUSYDROP = 7"
definition IFLA_PVAL_MAX :: nat where "IFLA_PVAL_MAX = 7"

lemmas ifla_pval_defs =
  IFLA_PVAL_UNSPEC_def IFLA_PVAL_LINK_def IFLA_PVAL_IPOPT_def IFLA_PVAL_TXTSTAMP_def
  IFLA_PVAL_RXTSTAMP_def IFLA_PVAL_TXCOPY_def IFLA_PVAL_RXCOPY_def
  IFLA_PVAL_TXBUSYDROP_def IFLA_PVAL_MAX_def

definition PVAL_PKT_LEN :: nat where "PVAL_PKT_LEN = 256"

section \<open>The Pval IP option\<close>

record ipopt_pval =
  ipp_type :: u8
  ipp_length :: u8
  ipp_reserved :: u8
  ipp_cpu :: u8
  ipp_seq :: u64

definition sizeof_ipopt_pval :: nat where "sizeof_ipopt_pval = 12"

definition ipopt_pval_bytes :: "ipopt_pval \<Rightarrow> bytes" where
  "ipopt_pval_bytes p =
     [ipp_type p, ipp_length p, ipp_reserved p, ipp_cpu p] @ le_bytes 8 (unat (ipp_seq p))"

definition ipopt_pval_of :: "bytes \<Rightarrow> ipopt_pval option" where
  "ipopt_pval_of bs =
     (if length bs = sizeof_ipopt_pval then
        Some \<lparr>ipp_type = bs ! 0, ipp_length = bs ! 1, ipp_reserved = bs ! 2,
              ipp_cpu = bs ! 3, ipp_seq = word_of_nat (le_val (drop 4 bs))\<rparr>
      else None)"

lemma length_ipopt_pval_bytes [simp, bytes_simps]:
  "length (ipopt_pval_bytes p) = sizeof_ipopt_pval"
  by (simp add: ipopt_pval_bytes_def sizeof_ipopt_pval_def)

lemma u64_of_le_bytes [bytes_simps]: "word_of_nat (le_val (le_bytes 8 (unat w))) = (w :: u64)"
  using unat_u64_less [of w] by (simp add: le_val_le_bytes)

lemma u32_of_le_bytes [bytes_simps]: "word_of_nat (le_val (le_bytes 4 (unat w))) = (w :: u32)"
  using unat_u32_less [of w] by (simp add: le_val_le_bytes)

lemma ipopt_pval_of_bytes: "ipopt_pval_of (ipopt_pval_bytes p) = Some p"
  unfolding ipopt_pval_of_def
  by (simp add: ipopt_pval_bytes_def sizeof_ipopt_pval_def u64_of_le_bytes)

section \<open>The slot of the ring buffer\<close>

record pval_slot =
  slot_len :: u32
  slot_pktlen :: u32
  slot_tstamp :: u64
  slot_pkt :: bytes

definition sizeof_pval_slot :: nat where "sizeof_pval_slot = 272"

definition slot_ok :: "pval_slot \<Rightarrow> bool" where
  "slot_ok s \<longleftrightarrow> length (slot_pkt s) = PVAL_PKT_LEN"

definition slot_bytes :: "pval_slot \<Rightarrow> bytes" where
  "slot_bytes s =
     le_bytes 4 (unat (slot_len s)) @ le_bytes 4 (unat (slot_pktlen s))
     @ le_bytes 8 (unat (slot_tstamp s)) @ slot_pkt s"

definition slot_of_bytes :: "bytes \<Rightarrow> pval_slot option" where
  "slot_of_bytes bs =
     (if length bs = sizeof_pval_slot then
        Some \<lparr>slot_len = word_of_nat (le_val (take 4 bs)),
              slot_pktlen = word_of_nat (le_val (take 4 (drop 4 bs))),
              slot_tstamp = word_of_nat (le_val (take 8 (drop 8 bs))),
              slot_pkt = drop 16 bs\<rparr>
      else None)"

lemma length_slot_bytes [bytes_simps]: "slot_ok s \<Longrightarrow> length (slot_bytes s) = sizeof_pval_slot"
  by (simp add: slot_ok_def slot_bytes_def PVAL_PKT_LEN_def sizeof_pval_slot_def)

lemma slot_of_bytes_slot_bytes: "slot_ok s \<Longrightarrow> slot_of_bytes (slot_bytes s) = Some s"
  unfolding slot_of_bytes_def
  by (simp add: length_slot_bytes)
     (simp add: slot_bytes_def u32_of_le_bytes u64_of_le_bytes)

end
