(* ===== verification/Skb.thy ===== *)
theory Skb
  imports Prelude
begin

text \<open>
  The kernel's socket buffer as far as \<open>kmod/pval_main.c\<close> looks at it. The record holds
  the fields the module reads and writes and the memory of the packet; \<open>skb_mac_hdr\<close> and
  \<open>skb_net_hdr\<close> are the offsets in that memory to which \<open>skb_mac_header(skb)\<close> and
  \<open>skb_network_header(skb)\<close> point, and \<open>skb_hwtstamp\<close> is \<open>skb_hwtstamps(skb)->hwtstamp\<close>.
  The kernel's own functions that move these offsets are not part of the module: they
  are the fields of \<open>skb_api\<close>, a parameter of the models that call them, and \<open>skb_api_ok\<close>
  is their documented behaviour.
\<close>

type_synonym netdev_id = nat

record sk_buff =
  skb_len :: u32
  skb_mac_len :: u16
  skb_buf :: bytes
  skb_data :: nat
  skb_mac_hdr :: nat
  skb_net_hdr :: nat
  skb_dev :: netdev_id
  skb_pkt_host :: bool
  skb_tx_flags :: u8
  skb_hwtstamp :: u64

record skb_api =
  api_skb_push :: "sk_buff \<Rightarrow> nat \<Rightarrow> sk_buff"
  api_skb_reset_mac_header :: "sk_buff \<Rightarrow> sk_buff"
  api_skb_set_network_header :: "sk_buff \<Rightarrow> nat \<Rightarrow> sk_buff"
  api_skb_scrub_packet :: "sk_buff \<Rightarrow> sk_buff"
  api_skb_orphan :: "sk_buff \<Rightarrow> sk_buff"

text \<open>The part of a buffer that decides which bytes go on the wire.\<close>

definition same_frame :: "sk_buff \<Rightarrow> sk_buff \<Rightarrow> bool" where
  "same_frame a b \<longleftrightarrow> skb_buf a = skb_buf b \<and> skb_data a = skb_data b \<and> skb_len a = skb_len b
     \<and> skb_mac_len a = skb_mac_len b
     \<and> skb_mac_hdr a = skb_mac_hdr b \<and> skb_net_hdr a = skb_net_hdr b"

text \<open>
  \<open>__skb_push\<close> moves the data pointer down and adds to the length without looking at the
  headroom; \<open>skb_reset_mac_header\<close> and \<open>skb_set_network_header\<close> place the headers relative
  to the data pointer; \<open>skb_scrub_packet\<close> and \<open>skb_orphan\<close> leave the frame alone.
\<close>

definition skb_api_ok :: "skb_api \<Rightarrow> bool" where
  "skb_api_ok A \<longleftrightarrow>
     (\<forall>s n. n \<le> skb_data s \<longrightarrow>
        same_frame (api_skb_push A s n)
          (s\<lparr>skb_data := skb_data s - n, skb_len := skb_len s + word_of_nat n\<rparr>)) \<and>
     (\<forall>s. same_frame (api_skb_reset_mac_header A s) (s\<lparr>skb_mac_hdr := skb_data s\<rparr>)) \<and>
     (\<forall>s n. same_frame (api_skb_set_network_header A s n) (s\<lparr>skb_net_hdr := skb_data s + n\<rparr>)) \<and>
     (\<forall>s. same_frame (api_skb_scrub_packet A s) s) \<and>
     (\<forall>s. same_frame (api_skb_orphan A s) s)"

text \<open>A buffer whose whole frame is in the linear memory, from the MAC header on.\<close>

definition skb_linear :: "sk_buff \<Rightarrow> bool" where
  "skb_linear s \<longleftrightarrow>
     skb_mac_hdr s + unat (ucast (skb_mac_len s) + skb_len s) \<le> length (skb_buf s)"

end
