(* ===== verification/Ring.thy ===== *)
theory Ring
  imports Pval_Uapi Skb
begin

text \<open>
  The ring buffer of \<open>kmod/pval_main.c\<close> (\<open>struct pval_ring\<close> and the functions
  \<open>ring_emtpy\<close> to \<open>write_to_ring\<close>): its 32-bit index arithmetic, its invariant, and the
  refinement of its operations to a bounded queue of slots. The locale \<open>bounded_fifo\<close> is
  the contract the character device and the data path rely on.
\<close>

section \<open>State and operations\<close>

record pval_ring =
  ring_cpu :: u8
  ring_head :: u32
  ring_tail :: u32
  ring_mask :: u32
  ring_slots :: "pval_slot list option"

definition PVAL_SLOT_NUM :: nat where "PVAL_SLOT_NUM = 1024"

definition ring_emtpy :: "pval_ring \<Rightarrow> bool" where
  "ring_emtpy r \<longleftrightarrow> ring_head r = ring_tail r"

definition ring_full :: "pval_ring \<Rightarrow> bool" where
  "ring_full r \<longleftrightarrow> (ring_head r + 1) AND ring_mask r = ring_tail r"

definition ring_write_next :: "pval_ring \<Rightarrow> pval_ring" where
  "ring_write_next r = r\<lparr>ring_head := (ring_head r + 1) AND ring_mask r\<rparr>"

definition ring_read_next :: "pval_ring \<Rightarrow> pval_ring" where
  "ring_read_next r = r\<lparr>ring_tail := (ring_tail r + 1) AND ring_mask r\<rparr>"

definition ring_read_avail :: "pval_ring \<Rightarrow> u32" where
  "ring_read_avail r =
     (if ring_head r > ring_tail r then ring_head r - ring_tail r
      else if ring_tail r > ring_head r then ring_mask r - ring_tail r + ring_head r + 1
      else 0)"

definition ring_write_avail :: "pval_ring \<Rightarrow> u32" where
  "ring_write_avail r =
     (if ring_tail r > ring_head r then ring_tail r - ring_head r
      else if ring_head r > ring_tail r then ring_mask r - ring_head r + ring_tail r + 1
      else 0)"

definition ring_zero :: "pval_ring \<Rightarrow> pval_ring" where
  "ring_zero r = r\<lparr>ring_head := 0, ring_tail := 0\<rparr>"

text \<open>
  \<open>&r->slots[i]\<close>: \<open>None\<close> when the array is a null pointer or the index is outside of it.
\<close>

definition ring_slot :: "pval_ring \<Rightarrow> u32 \<Rightarrow> pval_slot option" where
  "ring_slot r i =
     (case ring_slots r of None \<Rightarrow> None
      | Some ss \<Rightarrow> if unat i < length ss then Some (ss ! unat i) else None)"

definition ring_put :: "pval_slot \<Rightarrow> pval_ring \<Rightarrow> pval_ring" where
  "ring_put s r =
     ring_write_next (r\<lparr>ring_slots := map_option (\<lambda>ss. ss[unat (ring_head r) := s]) (ring_slots r)\<rparr>)"

definition skb_pktlen :: "sk_buff \<Rightarrow> u32" where
  "skb_pktlen skb = ucast (skb_mac_len skb) + skb_len skb"

definition skb_copylen :: "sk_buff \<Rightarrow> u32" where
  "skb_copylen skb = (if skb_pktlen skb > 256 then 256 else skb_pktlen skb)"

definition fill_slot :: "pval_slot \<Rightarrow> sk_buff \<Rightarrow> pval_slot option" where
  "fill_slot s skb =
     (case mem_read (skb_buf skb) (skb_mac_hdr skb) (unat (skb_copylen skb)) of
        None \<Rightarrow> None
      | Some frame \<Rightarrow>
          (case mem_write (slot_pkt s) 0 frame of
             None \<Rightarrow> None
           | Some pkt \<Rightarrow>
               Some (s\<lparr>slot_len := skb_copylen skb, slot_pktlen := skb_pktlen skb,
                       slot_tstamp := skb_hwtstamp skb, slot_pkt := pkt\<rparr>)))"

text \<open>\<open>write_to_ring\<close>; \<open>None\<close> is an access outside the slot array or the packet memory.\<close>

definition write_to_ring :: "pval_ring \<Rightarrow> sk_buff \<Rightarrow> (int \<times> pval_ring) option" where
  "write_to_ring r skb =
     (if ring_full r then Some (0, r)
      else case ring_slot r (ring_head r) of
             None \<Rightarrow> None
           | Some s \<Rightarrow>
               (case fill_slot s skb of
                  None \<Rightarrow> None
                | Some s' \<Rightarrow> Some (uint (skb_copylen skb), ring_put s' r)))"

definition pval_init_ring :: "bool \<Rightarrow> pval_slot list \<Rightarrow> u8 \<Rightarrow> int \<times> pval_ring" where
  \<comment> \<open>\<open>kmalloc_ok\<close>: whether \<open>kmalloc\<close> returned memory; \<open>mem\<close>: what is in it\<close>
  "pval_init_ring kmalloc_ok mem cpu =
     (let r = \<lparr>ring_cpu = cpu, ring_head = 0, ring_tail = 0,
               ring_mask = word_of_nat PVAL_SLOT_NUM - 1,
               ring_slots = (if kmalloc_ok then Some mem else None)\<rparr>
      in if ring_slots r = None then (- ENOMEM, r) else (0, r))"

section \<open>Invariant and abstraction\<close>

definition ring_inv :: "pval_ring \<Rightarrow> bool" where
  "ring_inv r \<longleftrightarrow> ring_mask r = 1023 \<and> ring_head r \<le> 1023 \<and> ring_tail r \<le> 1023 \<and>
     (case ring_slots r of None \<Rightarrow> False
      | Some ss \<Rightarrow> length ss = PVAL_SLOT_NUM \<and> list_all slot_ok ss)"

definition ring_count :: "pval_ring \<Rightarrow> nat" where
  "ring_count r = (unat (ring_head r) + 1024 - unat (ring_tail r)) mod 1024"

definition ring_list :: "pval_ring \<Rightarrow> pval_slot list" where
  "ring_list r =
     (case ring_slots r of None \<Rightarrow> []
      | Some ss \<Rightarrow> map (\<lambda>i. ss ! ((unat (ring_tail r) + i) mod 1024)) [0..<ring_count r])"

lemma u32_and_1023 [ring_simps]: "unat (w AND 1023 :: u32) = unat w mod 1024"
proof -
  have "w AND 1023 = take_bit 10 w"
    by (simp add: take_bit_eq_mask mask_eq_exp_minus_1)
  then have "unat (w AND 1023) = unat (take_bit 10 w)"
    by (simp only:)
  also have "\<dots> = take_bit 10 (unat w)"
    by (rule unsigned_take_bit_eq)
  finally show ?thesis
    by (simp add: take_bit_eq_mod)
qed

lemma unat_next [ring_simps]: "w \<le> (1023 :: u32) \<Longrightarrow> unat ((w + 1) AND 1023) = (unat w + 1) mod 1024"
proof -
  assume w: "w \<le> 1023"
  then have "unat w \<le> 1023" by (simp add: word_le_nat_alt)
  then have "unat (w + 1) = unat w + 1" by (simp add: unat_word_ariths)
  then show ?thesis by (simp add: u32_and_1023)
qed

lemma next_le [simp]: "(w AND 1023) \<le> (1023 :: u32)"
  by (simp add: word_and_le1)

lemma ring_invD:
  assumes "ring_inv r"
  shows "ring_mask r = 1023" and "unat (ring_head r) < 1024" and "unat (ring_tail r) < 1024"
    and "\<exists>ss. ring_slots r = Some ss \<and> length ss = 1024 \<and> list_all slot_ok ss"
  using assms by (auto simp: ring_inv_def word_le_nat_alt PVAL_SLOT_NUM_def split: option.splits)

lemma ring_count_less: "ring_count r < 1024"
  by (simp add: ring_count_def)

lemma length_ring_list: "ring_inv r \<Longrightarrow> length (ring_list r) = ring_count r"
  by (auto dest: ring_invD(4) simp: ring_list_def)

lemma ring_emtpy_iff: "ring_inv r \<Longrightarrow> ring_emtpy r \<longleftrightarrow> ring_count r = 0"
proof -
  assume "ring_inv r"
  note b = ring_invD(2,3) [OF this]
  have "unat (ring_head r) = unat (ring_tail r) \<longleftrightarrow> ring_count r = 0"
    unfolding ring_count_def using b by (auto simp: mod_if)
  then show ?thesis by (simp add: ring_emtpy_def word_unat_eq_iff)
qed

lemma ring_full_iff: "ring_inv r \<Longrightarrow> ring_full r \<longleftrightarrow> ring_count r = 1023"
proof -
  assume inv: "ring_inv r"
  note b = ring_invD(2,3) [OF inv]
  have "ring_full r \<longleftrightarrow> (unat (ring_head r) + 1) mod 1024 = unat (ring_tail r)"
    using inv unat_next [of "ring_head r"]
    by (auto simp: ring_full_def ring_inv_def word_unat_eq_iff [of "_ AND _"])
  also have "\<dots> \<longleftrightarrow> ring_count r = 1023"
    unfolding ring_count_def using b by (auto simp: mod_if split: if_splits)
  finally show ?thesis .
qed

lemma ring_count_cases:
  "ring_inv r \<Longrightarrow> ring_count r =
     (if unat (ring_tail r) \<le> unat (ring_head r) then unat (ring_head r) - unat (ring_tail r)
      else unat (ring_head r) + 1024 - unat (ring_tail r))"
proof -
  assume inv: "ring_inv r"
  note b = ring_invD(2,3) [OF inv]
  show ?thesis
  proof (cases "unat (ring_tail r) \<le> unat (ring_head r)")
    case True
    then have "unat (ring_head r) + 1024 - unat (ring_tail r)
        = (unat (ring_head r) - unat (ring_tail r)) + 1024" by simp
    with True b show ?thesis by (simp only: ring_count_def mod_add_self2) simp
  next
    case False
    with b show ?thesis by (simp add: ring_count_def)
  qed
qed

text \<open>Both counters subtract the smaller index from the larger one.\<close>

lemma unat_u32_wrap_count:
  assumes "a < b" and "b \<le> (1023 :: u32)"
  shows "unat (1023 - b + a + 1) = unat a + 1024 - unat b"
proof -
  have ab: "unat a < unat b" "unat b \<le> 1023"
    using assms by (simp_all add: word_less_nat_alt word_le_nat_alt)
  define d where "d = 1023 - b"
  define c where "c = d + a"
  have "unat d = 1023 - unat b"
    unfolding d_def using assms(2) by (simp add: unat_sub)
  with ab have "unat c = 1023 - unat b + unat a"
    unfolding c_def by (simp add: unat_word_ariths)
  with ab have "unat (c + 1) = unat a + 1024 - unat b"
    by (simp add: unat_word_ariths)
  then show ?thesis by (simp only: c_def d_def)
qed

lemma unat_u32_count:
  assumes "a \<le> 1023" and "b \<le> (1023 :: u32)"
  shows "unat (if a > b then a - b else if b > a then 1023 - b + a + 1 else 0)
    = (if unat b \<le> unat a then unat a - unat b else unat a + 1024 - unat b)"
proof (cases a b rule: linorder_cases)
  case less
  then have "\<not> a > b" and "\<not> unat b \<le> unat a" by (simp_all add: word_less_nat_alt)
  with less unat_u32_wrap_count [OF less assms(2)] show ?thesis
    by (simp only: if_True if_False simp_thms)
next
  case equal
  then show ?thesis by simp
next
  case greater
  then have "unat (a - b) = unat a - unat b" by (simp add: unat_sub)
  with greater show ?thesis by (simp add: word_less_nat_alt)
qed

lemma unat_ring_read_avail: "ring_inv r \<Longrightarrow> unat (ring_read_avail r) = ring_count r"
  using unat_u32_count [of "ring_head r" "ring_tail r"]
  by (simp only: ring_read_avail_def ring_count_cases) (simp only: ring_inv_def simp_thms)

lemma unat_ring_write_avail:
  assumes inv: "ring_inv r"
  shows "unat (ring_write_avail r) = (if ring_count r = 0 then 0 else 1024 - ring_count r)"
proof -
  have "unat (ring_write_avail r) =
      (if unat (ring_head r) \<le> unat (ring_tail r) then unat (ring_tail r) - unat (ring_head r)
       else unat (ring_tail r) + 1024 - unat (ring_head r))"
    using unat_u32_count [of "ring_tail r" "ring_head r"] inv
    by (simp only: ring_write_avail_def ring_inv_def simp_thms)
  then show ?thesis
    using ring_invD(2,3) [OF inv] unfolding ring_count_cases [OF inv] by (auto simp: add.commute)
qed

lemma ring_head_eq:
  "ring_inv r \<Longrightarrow> unat (ring_head r) = (unat (ring_tail r) + ring_count r) mod 1024"
proof -
  assume inv: "ring_inv r"
  note b = ring_invD(2,3) [OF inv]
  show ?thesis unfolding ring_count_def using b by (simp add: mod_simps)
qed

section \<open>The operations on the abstract queue\<close>

lemma ring_inv_put: "ring_inv r \<Longrightarrow> slot_ok s \<Longrightarrow> ring_inv (ring_put s r)"
  by (auto simp: ring_inv_def ring_put_def ring_write_next_def list_all_iff
      dest: set_update_subset_insert [THEN subsetD] split: option.splits)

lemma ring_inv_read_next: "ring_inv r \<Longrightarrow> ring_inv (ring_read_next r)"
  by (auto simp: ring_inv_def ring_read_next_def split: option.splits)

lemma ring_inv_zero: "ring_inv r \<Longrightarrow> ring_inv (ring_zero r)"
  by (auto simp: ring_inv_def ring_zero_def split: option.splits)

lemma ring_list_zero: "ring_list (ring_zero r) = []"
  by (simp add: ring_list_def ring_count_def ring_zero_def split: option.split)

lemma count_step_head:
  fixes h t :: nat
  assumes "(h + 1024 - t) mod 1024 < 1023" and "t < 1024"
  shows "((h + 1) mod 1024 + 1024 - t) mod 1024 = (h + 1024 - t) mod 1024 + 1"
proof -
  have "((h + 1) mod 1024 + 1024 - t) mod 1024 = ((h + 1) mod 1024 + (1024 - t)) mod 1024"
    using assms(2) by simp
  also have "\<dots> = (h + 1 + (1024 - t)) mod 1024"
    by (simp only: mod_add_left_eq)
  also have "h + 1 + (1024 - t) = (h + 1024 - t) + 1"
    using assms(2) by simp
  also have "((h + 1024 - t) + 1) mod 1024 = ((h + 1024 - t) mod 1024 + 1) mod 1024"
    by (simp only: mod_add_left_eq)
  also have "\<dots> = (h + 1024 - t) mod 1024 + 1"
    using assms(1) by simp
  finally show ?thesis .
qed

lemma count_step_tail:
  fixes h t :: nat
  assumes "(h + 1024 - t) mod 1024 \<noteq> 0" and "h < 1024" and "t < 1024"
  shows "(h + 1024 - (t + 1) mod 1024) mod 1024 = (h + 1024 - t) mod 1024 - 1"
proof (cases "t = 1023")
  case True
  with assms show ?thesis by (cases "h = 1023") simp_all
next
  case False
  define c where "c = h + 1024 - (t + 1) mod 1024"
  have "h + 1024 - t = Suc c"
    using assms(3) False by (simp add: c_def)
  moreover have "Suc c mod 1024 \<noteq> 0 \<Longrightarrow> c mod 1024 = Suc c mod 1024 - 1"
    by (auto simp: mod_Suc split: if_splits)
  ultimately show ?thesis using assms(1) unfolding c_def [symmetric] by metis
qed

lemma ring_count_put:
  "ring_inv r \<Longrightarrow> \<not> ring_full r \<Longrightarrow> ring_count (ring_put s r) = ring_count r + 1"
proof -
  assume inv: "ring_inv r" and nf: "\<not> ring_full r"
  have h: "unat (ring_head (ring_put s r)) = (unat (ring_head r) + 1) mod 1024"
    using inv unat_next [of "ring_head r"]
    by (simp add: ring_put_def ring_write_next_def ring_inv_def)
  have t: "ring_tail (ring_put s r) = ring_tail r"
    by (simp add: ring_put_def ring_write_next_def)
  have "ring_count r < 1023"
    using nf inv ring_count_less [of r] by (simp add: ring_full_iff)
  then show ?thesis
    using ring_invD(3) [OF inv] unfolding ring_count_def h t by (rule count_step_head)
qed

lemma ring_list_put:
  assumes inv: "ring_inv r" and nf: "\<not> ring_full r"
  shows "ring_list (ring_put s r) = ring_list r @ [s]"
proof -
  from ring_invD(4) [OF inv] obtain ss where ss: "ring_slots r = Some ss" "length ss = 1024"
    by auto
  let ?h = "unat (ring_head r)" and ?t = "unat (ring_tail r)" and ?n = "ring_count r"
  have n: "?n < 1023"
    using nf inv ring_count_less [of r] by (simp add: ring_full_iff)
  have h: "?h = (?t + ?n) mod 1024" by (rule ring_head_eq [OF inv])
  have other: "(?t + i) mod 1024 \<noteq> ?h" if "i < ?n" for i
    using that n ring_invD(3) [OF inv] unfolding h by (auto simp: mod_if split: if_splits)
  have "ring_list (ring_put s r) = map (\<lambda>i. ss[?h := s] ! ((?t + i) mod 1024)) [0..<?n + 1]"
    using ring_count_put [OF inv nf, of s] ss
    by (simp add: ring_list_def) (simp add: ring_put_def ring_write_next_def)
  also have "\<dots> = map (\<lambda>i. ss ! ((?t + i) mod 1024)) [0..<?n] @ [s]"
    using other [symmetric] ss ring_invD(2) [OF inv] by (auto simp: h [symmetric])
  finally show ?thesis using ss by (simp add: ring_list_def)
qed

lemma ring_slots_read_next [simp]: "ring_slots (ring_read_next r) = ring_slots r"
  by (simp add: ring_read_next_def)

lemma ring_count_read_next:
  "ring_inv r \<Longrightarrow> \<not> ring_emtpy r \<Longrightarrow> ring_count (ring_read_next r) = ring_count r - 1"
proof -
  assume inv: "ring_inv r" and ne: "\<not> ring_emtpy r"
  have t: "unat (ring_tail (ring_read_next r)) = (unat (ring_tail r) + 1) mod 1024"
    using inv unat_next [of "ring_tail r"]
    by (simp add: ring_read_next_def ring_inv_def)
  have h: "ring_head (ring_read_next r) = ring_head r"
    by (simp add: ring_read_next_def)
  have "ring_count r \<noteq> 0"
    using ne inv by (simp add: ring_emtpy_iff)
  then show ?thesis
    using ring_invD(2,3) [OF inv] unfolding ring_count_def h t by (rule count_step_tail)
qed

lemma ring_list_read_next:
  assumes inv: "ring_inv r" and ne: "\<not> ring_emtpy r"
  shows "\<exists>s. ring_slot r (ring_tail r) = Some s \<and> ring_list r = s # ring_list (ring_read_next r)"
proof -
  from ring_invD(4) [OF inv] obtain ss where ss: "ring_slots r = Some ss" "length ss = 1024"
    by auto
  let ?t = "unat (ring_tail r)"
  obtain n where n: "ring_count r = Suc n"
    using ne inv by (cases "ring_count r") (auto simp: ring_emtpy_iff)
  have t: "unat (ring_tail (ring_read_next r)) = (?t + 1) mod 1024"
    using inv unat_next [of "ring_tail r"]
    by (simp add: ring_read_next_def ring_inv_def)
  have "ring_list (ring_read_next r) = map (\<lambda>i. ss ! ((?t + Suc i) mod 1024)) [0..<n]"
    using ring_count_read_next [OF inv ne] n ss
    by (simp add: ring_list_def ring_slots_read_next t mod_simps)
  moreover have "ring_list r = ss ! ?t # map (\<lambda>i. ss ! ((?t + Suc i) mod 1024)) [0..<n]"
    using ss n ring_invD(3) [OF inv]
    by (simp add: ring_list_def upt_conv_Cons map_Suc_upt [symmetric] del: upt_Suc)
  moreover have "ring_slot r (ring_tail r) = Some (ss ! ?t)"
    using ss ring_invD(3) [OF inv] by (simp add: ring_slot_def)
  ultimately show ?thesis by simp
qed

section \<open>The contract: a bounded queue\<close>

text \<open>
  Repeated reads (take the front slot, advance) and repeated writes (drop the item when the
  queue is full), over any implementation of a queue.
\<close>

fun pops :: "('q \<Rightarrow> 'a option) \<Rightarrow> ('q \<Rightarrow> 'q) \<Rightarrow> nat \<Rightarrow> 'q \<Rightarrow> ('a list \<times> 'q) option" where
  "pops front pop 0 q = Some ([], q)"
| "pops front pop (Suc n) q =
     (case front q of None \<Rightarrow> None
      | Some x \<Rightarrow> map_option (\<lambda>(xs, q'). (x # xs, q')) (pops front pop n (pop q)))"

fun offers :: "('q \<Rightarrow> bool) \<Rightarrow> ('a \<Rightarrow> 'q \<Rightarrow> 'q) \<Rightarrow> 'a list \<Rightarrow> 'q \<Rightarrow> 'q" where
  "offers is_full push [] q = q"
| "offers is_full push (x # xs) q =
     offers is_full push xs (if is_full q then q else push x q)"

locale bounded_fifo =
  fixes invar :: "'q \<Rightarrow> bool"
    and ok :: "'a \<Rightarrow> bool"
    and items :: "'q \<Rightarrow> 'a list"
    and cap :: nat
    and is_empty :: "'q \<Rightarrow> bool"
    and is_full :: "'q \<Rightarrow> bool"
    and push :: "'a \<Rightarrow> 'q \<Rightarrow> 'q"
    and front :: "'q \<Rightarrow> 'a option"
    and pop :: "'q \<Rightarrow> 'q"
  assumes items_cap: "invar q \<Longrightarrow> length (items q) \<le> cap"
    and is_empty_iff: "invar q \<Longrightarrow> is_empty q \<longleftrightarrow> items q = []"
    and is_full_iff: "invar q \<Longrightarrow> is_full q \<longleftrightarrow> length (items q) = cap"
    and items_push: "invar q \<Longrightarrow> \<not> is_full q \<Longrightarrow> items (push x q) = items q @ [x]"
    and front_pop: "invar q \<Longrightarrow> \<not> is_empty q \<Longrightarrow>
          \<exists>x. front q = Some x \<and> items q = x # items (pop q)"
    and invar_push: "invar q \<Longrightarrow> ok x \<Longrightarrow> invar (push x q)"
    and invar_pop: "invar q \<Longrightarrow> invar (pop q)"
begin

lemma pops_items:
  "invar q \<Longrightarrow> n \<le> length (items q) \<Longrightarrow>
   \<exists>q'. pops front pop n q = Some (take n (items q), q') \<and> items q' = drop n (items q) \<and> invar q'"
proof (induction n arbitrary: q)
  case 0
  then show ?case by simp
next
  case (Suc n)
  then have "\<not> is_empty q" by (auto simp: is_empty_iff)
  with Suc.prems(1) obtain x where x: "front q = Some x" "items q = x # items (pop q)"
    using front_pop by blast
  with Suc.prems have "n \<le> length (items (pop q))" by simp
  with Suc.IH [of "pop q"] invar_pop [OF Suc.prems(1)] x show ?case by auto
qed

lemma offers_items:
  "invar q \<Longrightarrow> list_all ok xs \<Longrightarrow>
   invar (offers is_full push xs q) \<and>
   items (offers is_full push xs q) = items q @ take (cap - length (items q)) xs"
proof (induction xs arbitrary: q)
  case Nil
  then show ?case by simp
next
  case (Cons x xs)
  show ?case
  proof (cases "is_full q")
    case True
    with Cons show ?thesis by (simp add: is_full_iff)
  next
    case False
    with Cons.prems have "length (items q) < cap"
      using items_cap is_full_iff by (meson le_neq_implies_less)
    then have "cap - length (items q) = Suc (cap - Suc (length (items q)))"
      by simp
    with False Cons.IH [of "push x q"] Cons.prems show ?thesis
      by (simp add: items_push invar_push)
  qed
qed

lemma offers_then_pops:
  assumes "invar q" and "items q = []" and "list_all ok xs" and "n \<le> min cap (length xs)"
  shows "\<exists>q'. pops front pop n (offers is_full push xs q) = Some (take n xs, q') \<and> invar q'"
proof -
  have "invar (offers is_full push xs q)" and it: "items (offers is_full push xs q) = take cap xs"
    using offers_items [OF assms(1,3)] assms(2) by auto
  moreover have "n \<le> length (items (offers is_full push xs q))" using assms(4) it by simp
  ultimately obtain q' where "invar q'"
      and "pops front pop n (offers is_full push xs q) = Some (take n (take cap xs), q')"
    using pops_items [of "offers is_full push xs q" n] by auto
  with assms(4) show ?thesis by (auto simp: min_def split: if_splits)
qed

end

interpretation rq: bounded_fifo ring_inv slot_ok ring_list 1023 ring_emtpy ring_full ring_put
  "\<lambda>r. ring_slot r (ring_tail r)" ring_read_next
proof
  fix r s
  assume inv: "ring_inv r"
  show "length (ring_list r) \<le> 1023"
    using ring_count_less [of r] by (simp add: length_ring_list [OF inv])
  show "ring_emtpy r \<longleftrightarrow> ring_list r = []"
    using length_ring_list [OF inv] by (auto simp: ring_emtpy_iff [OF inv])
  show "ring_full r \<longleftrightarrow> length (ring_list r) = 1023"
    by (simp add: ring_full_iff [OF inv] length_ring_list [OF inv])
  show "ring_list (ring_put s r) = ring_list r @ [s]" if "\<not> ring_full r"
    by (rule ring_list_put [OF inv that])
  show "\<exists>s. ring_slot r (ring_tail r) = Some s \<and> ring_list r = s # ring_list (ring_read_next r)"
    if "\<not> ring_emtpy r"
    by (rule ring_list_read_next [OF inv that])
  show "ring_inv (ring_put s r)" if "slot_ok s"
    by (rule ring_inv_put [OF inv that])
  show "ring_inv (ring_read_next r)"
    by (rule ring_inv_read_next [OF inv])
qed

section \<open>write\_to\_ring\<close>

lemma skb_copylen_nat: "unat (skb_copylen skb) = min 256 (unat (skb_pktlen skb))"
  by (simp add: skb_copylen_def word_less_nat_alt min_def)

lemma fill_slot_Some:
  assumes ok: "slot_ok s" and lin: "skb_linear skb"
  obtains s' where "fill_slot s skb = Some s'" and "slot_ok s'"
    and "slot_len s' = skb_copylen skb" and "slot_pktlen s' = skb_pktlen skb"
    and "slot_tstamp s' = skb_hwtstamp skb"
    and "take (unat (skb_copylen skb)) (slot_pkt s')
           = take (unat (skb_copylen skb)) (drop (skb_mac_hdr skb) (skb_buf skb))"
proof -
  let ?n = "unat (skb_copylen skb)"
  let ?frame = "take ?n (drop (skb_mac_hdr skb) (skb_buf skb))"
  have "skb_mac_hdr skb + ?n \<le> length (skb_buf skb)"
    using lin by (simp add: skb_linear_def skb_copylen_nat skb_pktlen_def)
  then have rd: "mem_read (skb_buf skb) (skb_mac_hdr skb) ?n = Some ?frame"
    by (simp add: mem_read_def)
  then have len: "length ?frame = ?n" by (rule mem_read_length)
  have n: "?n \<le> 256" by (simp add: skb_copylen_nat)
  obtain pkt where wr: "mem_write (slot_pkt s) 0 ?frame = Some pkt"
    using ok n len by (simp add: mem_write_def slot_ok_def PVAL_PKT_LEN_def)
  have "take ?n pkt = ?frame"
    using wr len by (auto simp: mem_write_def split: if_splits)
  moreover have "length pkt = PVAL_PKT_LEN"
    using wr ok by (simp add: mem_write_length slot_ok_def)
  ultimately show thesis
    using rd wr
    by (intro that [of "s\<lparr>slot_len := skb_copylen skb, slot_pktlen := skb_pktlen skb,
          slot_tstamp := skb_hwtstamp skb, slot_pkt := pkt\<rparr>"])
       (simp_all add: fill_slot_def slot_ok_def)
qed

text \<open>What a successful write has put into its slot.\<close>

definition slot_holds :: "sk_buff \<Rightarrow> pval_slot \<Rightarrow> bool" where
  "slot_holds skb s \<longleftrightarrow> slot_ok s \<and> slot_len s = skb_copylen skb \<and> slot_pktlen s = skb_pktlen skb
     \<and> slot_tstamp s = skb_hwtstamp skb
     \<and> take (unat (slot_len s)) (slot_pkt s)
         = take (unat (slot_len s)) (drop (skb_mac_hdr skb) (skb_buf skb))"

lemma write_to_ring_full: "ring_full r \<Longrightarrow> write_to_ring r skb = Some (0, r)"
  by (simp add: write_to_ring_def)

lemma write_to_ring_space:
  assumes inv: "ring_inv r" and lin: "skb_linear skb" and nf: "\<not> ring_full r"
  shows "\<exists>s. write_to_ring r skb = Some (uint (skb_copylen skb), ring_put s r) \<and> slot_holds skb s"
proof -
  from ring_invD(4) [OF inv] obtain ss
    where ss: "ring_slots r = Some ss" "length ss = 1024" "list_all slot_ok ss" by blast
  let ?s = "ss ! unat (ring_head r)"
  have sl: "ring_slot r (ring_head r) = Some ?s" and ok: "slot_ok ?s"
    using ss ring_invD(2) [OF inv] by (auto simp: ring_slot_def list_all_length)
  obtain s' where "fill_slot ?s skb = Some s'" and "slot_holds skb s'"
    by (rule fill_slot_Some [OF ok lin]) (simp add: slot_holds_def)
  with sl nf show ?thesis by (auto simp: write_to_ring_def)
qed

text \<open>
  C1. \<open>write_to_ring\<close> refines the write of a bounded queue: on a well-formed ring and a
  packet whose frame is in linear memory it never leaves the slot array or the packet
  memory; when the 1023 usable slots are taken it returns 0 and changes nothing; otherwise
  it returns the number of bytes copied (the packet length cut at 256), keeps the ring well
  formed, and appends exactly one slot, which holds the first bytes of the frame, both
  lengths and the hardware time stamp, behind the slots already queued.
\<close>

theorem write_to_ring_refines:
  assumes "ring_inv r" and "skb_linear skb"
  shows "if length (ring_list r) = 1023 then write_to_ring r skb = Some (0, r)
         else \<exists>s r'. write_to_ring r skb = Some (int (min 256 (unat (skb_pktlen skb))), r')
                \<and> ring_inv r' \<and> ring_list r' = ring_list r @ [s] \<and> slot_holds skb s"
proof (cases "ring_full r")
  case True
  with assms(1) show ?thesis by (simp add: rq.is_full_iff write_to_ring_full)
next
  case False
  then obtain s where w: "write_to_ring r skb = Some (uint (skb_copylen skb), ring_put s r)"
      and s: "slot_holds skb s"
    using write_to_ring_space [OF assms] by blast
  have "ring_inv (ring_put s r)"
    using s rq.invar_push [OF assms(1)] by (simp add: slot_holds_def)
  moreover have "ring_list (ring_put s r) = ring_list r @ [s]"
    using assms(1) False by (rule rq.items_push)
  moreover have "uint (skb_copylen skb) = int (min 256 (unat (skb_pktlen skb)))"
    by (simp only: uint_nat skb_copylen_nat)
  moreover have "length (ring_list r) \<noteq> 1023"
    using assms(1) False by (simp add: rq.is_full_iff)
  ultimately show ?thesis using w s by auto
qed

lemma pval_init_ring_ok:
  assumes "length mem = PVAL_SLOT_NUM" and "list_all slot_ok mem"
  shows "ring_inv (snd (pval_init_ring True mem cpu))"
    and "ring_list (snd (pval_init_ring True mem cpu)) = []"
  using assms by (simp_all add: pval_init_ring_def ring_inv_def ring_list_def ring_count_def
      PVAL_SLOT_NUM_def)

text \<open>A freshly allocated ring and a four-byte frame, for the concrete instances.\<close>

definition zero_slot :: pval_slot where
  "zero_slot = \<lparr>slot_len = 0, slot_pktlen = 0, slot_tstamp = 0, slot_pkt = replicate 256 0\<rparr>"

definition example_ring :: pval_ring where
  "example_ring = snd (pval_init_ring True (replicate 1024 zero_slot) 0)"

definition example_skb :: sk_buff where
  "example_skb = \<lparr>skb_len = 4, skb_mac_len = 0, skb_buf = [1, 2, 3, 4], skb_data = 0,
     skb_mac_hdr = 0, skb_net_hdr = 0, skb_dev = 0, skb_pkt_host = False, skb_tx_flags = 0,
     skb_hwtstamp = 7\<rparr>"

lemma example_ring_inv: "ring_inv example_ring" and example_ring_list: "ring_list example_ring = []"
  unfolding example_ring_def
  by (rule pval_init_ring_ok; simp add: PVAL_SLOT_NUM_def list_all_iff slot_ok_def zero_slot_def
      PVAL_PKT_LEN_def)+

lemma example_skb_linear: "skb_linear example_skb"
  by (simp add: skb_linear_def example_skb_def)

theorem write_to_ring_refines_witness:
  "ring_inv example_ring \<and> skb_linear example_skb \<and>
   (\<exists>s r'. write_to_ring example_ring example_skb = Some (4, r') \<and> ring_inv r' \<and>
      ring_list r' = [s] \<and> slot_holds example_skb s)"
proof -
  have "unat (skb_pktlen example_skb) = 4"
    by (simp add: skb_pktlen_def example_skb_def)
  with write_to_ring_refines [OF example_ring_inv example_skb_linear]
  show ?thesis
    using example_ring_inv example_skb_linear by (simp add: example_ring_list)
qed

text \<open>
  C2. The two occupancy counters against the queue. \<open>ring_read_avail\<close> is the number of
  queued slots. \<open>ring_write_avail\<close> is not the number of free slots: on an empty ring it
  says 0 although 1023 slots are free, and on every other ring it says one more than can
  be written before \<open>ring_full\<close> holds.
\<close>

theorem ring_avail_counts:
  assumes "ring_inv r"
  shows "unat (ring_read_avail r) = length (ring_list r) \<and>
         unat (ring_write_avail r) =
           (if ring_list r = [] then 0 else (1023 - length (ring_list r)) + 1)"
proof -
  have "ring_count r < 1024" by (rule ring_count_less)
  moreover have "ring_list r = [] \<longleftrightarrow> ring_count r = 0"
    by (simp flip: length_ring_list [OF assms])
  moreover have "unat (ring_read_avail r) = ring_count r"
    by (rule unat_ring_read_avail [OF assms])
  moreover have "unat (ring_write_avail r) = (if ring_count r = 0 then 0 else 1024 - ring_count r)"
    by (rule unat_ring_write_avail [OF assms])
  ultimately show ?thesis
    unfolding length_ring_list [OF assms] by auto
qed

theorem ring_avail_counts_witness:
  "ring_inv example_ring \<and> unat (ring_read_avail example_ring) = 0 \<and>
   unat (ring_write_avail example_ring) = 0"
  using ring_avail_counts [OF example_ring_inv] example_ring_inv by (simp add: example_ring_list)

end
