(* ===== verification/Ring_Steps.thy ===== *)
theory Ring_Steps
  imports Ring "HOL-Library.Sublist"
begin

text \<open>
  The ring without a lock: \<open>write_to_ring\<close> runs in the transmit path, the receive handler
  or a worker while \<open>pval_file_read_iter\<close> runs in a process. The writers and the reader
  are interleaved at the level of their loads and stores of the shared indices, with every
  occurrence of an index in the source a load of its own, in a sequentially consistent
  memory. One writer and one reader work unless the head index passes the end of the array
  between the two loads of \<open>ring_read_avail\<close>; then stale slots are delivered. With two
  writers (nothing in the module excludes them: \<open>txtstamp_lock\<close> is initialised and never
  taken) a slot can be lost.
\<close>

section \<open>Interleaved steps\<close>

text \<open>
  A writer: between packets; in \<open>ring_full\<close> with the head index loaded; past that test; filling
  the slot at the head index it loaded for it; done with it; in \<open>ring_write_next\<close> with the head
  index loaded.
\<close>

datatype writer_pc =
    WIdle
  | WTest u32 pval_slot
  | WSlot pval_slot
  | WFill u32 pval_slot
  | WNext u32 pval_slot
  | WStore u32 pval_slot

text \<open>
  The reader, with the number of buffers of the call: outside of a call; past the test for an
  empty ring; in \<open>ring_read_avail\<close> before the load for the difference, before the second
  comparison, before the load for the sum; at the top of the loop with a number of slots to
  copy; or about to store the new tail.
\<close>

datatype reader_pc =
    RIdle
  | RCmp nat
  | RSub nat
  | RCmp2 nat
  | RAdd nat
  | RCopy nat
  | RNext nat

record ring_sys =
  sys_ring :: pval_ring
  sys_w :: "nat \<Rightarrow> writer_pc"
  sys_r :: reader_pc
  sys_sent :: "pval_slot list"
  sys_recv :: "pval_slot list"
  sys_torn :: bool

definition store_slot :: "u32 \<Rightarrow> pval_slot \<Rightarrow> pval_ring \<Rightarrow> pval_ring" where
  "store_slot h s r = r\<lparr>ring_slots := map_option (\<lambda>ss. ss[unat h := s]) (ring_slots r)\<rparr>"

text \<open>
  One access of a writer; the list is what it publishes. Filling a slot is several stores:
  \<open>w_partial\<close> leaves any well-formed intermediate content in it.
\<close>

inductive writer_step :: "writer_pc \<Rightarrow> pval_ring \<Rightarrow> writer_pc \<Rightarrow> pval_ring \<Rightarrow> pval_slot list \<Rightarrow> bool" where
  w_begin: "slot_ok s \<Longrightarrow> writer_step WIdle r (WTest (ring_head r) s) r []"
| w_full: "(h + 1) AND ring_mask r = ring_tail r \<Longrightarrow> writer_step (WTest h s) r WIdle r []"
| w_room: "(h + 1) AND ring_mask r \<noteq> ring_tail r \<Longrightarrow> writer_step (WTest h s) r (WSlot s) r []"
| w_slot: "writer_step (WSlot s) r (WFill (ring_head r) s) r []"
| w_partial: "slot_ok g \<Longrightarrow> writer_step (WFill h s) r (WFill h s) (store_slot h g r) []"
| w_fill: "writer_step (WFill h s) r (WNext h s) (store_slot h s r) []"
| w_load: "writer_step (WNext h s) r (WStore (ring_head r) s) r []"
| w_store: "writer_step (WStore h s) r WIdle (r\<lparr>ring_head := (h + 1) AND ring_mask r\<rparr>) [s]"

text \<open>
  One access of the reader; the list is what it copies to user space. The tail index is stored
  by the reader only, so its loads of it are joined to the neighbouring loads of the head.
\<close>

definition copynum :: "u32 \<Rightarrow> nat \<Rightarrow> nat" where
  "copynum avail count = (if unat avail > count then count else unat avail)"

inductive reader_step :: "reader_pc \<Rightarrow> pval_ring \<Rightarrow> reader_pc \<Rightarrow> pval_ring \<Rightarrow> pval_slot list \<Rightarrow> bool" where
  r_empty: "ring_head r = ring_tail r \<Longrightarrow> reader_step RIdle r RIdle r []"
| r_begin: "ring_head r \<noteq> ring_tail r \<Longrightarrow> reader_step RIdle r (RCmp count) r []"
| r_above: "ring_head r > ring_tail r \<Longrightarrow> reader_step (RCmp count) r (RSub count) r []"
| r_below: "\<not> ring_head r > ring_tail r \<Longrightarrow> reader_step (RCmp count) r (RCmp2 count) r []"
| r_sub: "reader_step (RSub count) r (RCopy (copynum (ring_head r - ring_tail r) count)) r []"
| r_wrapped: "ring_tail r > ring_head r \<Longrightarrow> reader_step (RCmp2 count) r (RAdd count) r []"
| r_none: "\<not> ring_tail r > ring_head r \<Longrightarrow> reader_step (RCmp2 count) r (RCopy (copynum 0 count)) r []"
| r_add: "reader_step (RAdd count) r (RCopy (copynum (ring_mask r - ring_tail r + ring_head r + 1) count)) r []"
| r_copy: "ring_slot r (ring_tail r) = Some s \<Longrightarrow> reader_step (RCopy (Suc n)) r (RNext n) r [s]"
| r_next: "reader_step (RNext n) r (RCopy n) (ring_read_next r) []"
| r_done: "reader_step (RCopy 0) r RIdle r []"

text \<open>The reader subtracts, but the head index is below the tail again since the comparison.\<close>

definition torn :: "reader_pc \<Rightarrow> pval_ring \<Rightarrow> bool" where
  "torn p r = (case p of RSub count \<Rightarrow> ring_head r < ring_tail r | _ \<Rightarrow> False)"

text \<open>
  \<open>ring_step W\<close>: one access by one of the writers \<open>W\<close> or by the reader. The ghost fields record
  the slots whose write has returned, the slots copied to user space, and whether a
  subtraction of the reader was torn.
\<close>

inductive ring_step :: "nat set \<Rightarrow> ring_sys \<Rightarrow> ring_sys \<Rightarrow> bool" for W where
  by_writer: "w \<in> W \<Longrightarrow> writer_step (sys_w y w) (sys_ring y) p r out \<Longrightarrow>
     ring_step W y (y\<lparr>sys_ring := r, sys_w := (sys_w y)(w := p), sys_sent := sys_sent y @ out\<rparr>)"
| by_reader: "reader_step (sys_r y) (sys_ring y) p r out \<Longrightarrow>
     ring_step W y (y\<lparr>sys_ring := r, sys_r := p, sys_recv := sys_recv y @ out,
                      sys_torn := sys_torn y \<or> torn (sys_r y) (sys_ring y)\<rparr>)"

definition ring_start :: "pval_ring \<Rightarrow> ring_sys" where
  "ring_start r = \<lparr>sys_ring = r, sys_w = (\<lambda>_. WIdle), sys_r = RIdle, sys_sent = [], sys_recv = [], sys_torn = False\<rparr>"

inductive ring_reach :: "nat set \<Rightarrow> pval_ring \<Rightarrow> ring_sys \<Rightarrow> bool" for W r where
  start: "ring_reach W r (ring_start r)"
| step: "ring_reach W r y \<Longrightarrow> ring_step W y z \<Longrightarrow> ring_reach W r z"

section \<open>One writer\<close>

text \<open>
  What the writer and the reader rely on between their accesses. The slots read so far
  followed by the queued ones are the slots written; a slot that was copied but whose tail
  store is still to come is counted in both. Once the reader has seen the head below the
  tail, it stays there, because the writer never passes the tail.
\<close>

definition writer_ok :: "pval_ring \<Rightarrow> writer_pc \<Rightarrow> bool" where
  "writer_ok r p \<longleftrightarrow>
     (case p of WIdle \<Rightarrow> True
      | WTest h s \<Rightarrow> h = ring_head r \<and> slot_ok s
      | WSlot s \<Rightarrow> \<not> ring_full r \<and> slot_ok s
      | WFill h s \<Rightarrow> h = ring_head r \<and> \<not> ring_full r \<and> slot_ok s
      | WNext h s \<Rightarrow> \<not> ring_full r \<and> slot_ok s \<and> ring_slot r (ring_head r) = Some s
      | WStore h s \<Rightarrow> h = ring_head r \<and> \<not> ring_full r \<and> slot_ok s \<and> ring_slot r h = Some s)"

definition reader_ok :: "pval_ring \<Rightarrow> reader_pc \<Rightarrow> pval_slot list \<Rightarrow> pval_slot list \<Rightarrow> bool" where
  "reader_ok r p sent recv \<longleftrightarrow>
     (case p of
        RNext n \<Rightarrow> (\<exists>s q. ring_list r = s # q \<and> n \<le> length q \<and> sent = recv @ q \<and> recv \<noteq> [] \<and> last recv = s)
      | RIdle \<Rightarrow> sent = recv @ ring_list r
      | RCopy n \<Rightarrow> sent = recv @ ring_list r \<and> n \<le> length (ring_list r)
      | RCmp _ \<Rightarrow> sent = recv @ ring_list r \<and> ring_list r \<noteq> []
      | RSub _ \<Rightarrow> sent = recv @ ring_list r \<and> ring_list r \<noteq> []
      | RCmp2 _ \<Rightarrow> sent = recv @ ring_list r \<and> ring_head r < ring_tail r
      | RAdd _ \<Rightarrow> sent = recv @ ring_list r \<and> ring_head r < ring_tail r)"

definition spsc_inv :: "nat \<Rightarrow> ring_sys \<Rightarrow> bool" where
  "spsc_inv w y \<longleftrightarrow> sys_torn y \<or> (ring_inv (sys_ring y) \<and> writer_ok (sys_ring y) (sys_w y w) \<and>
     reader_ok (sys_ring y) (sys_r y) (sys_sent y) (sys_recv y))"

text \<open>Storing into the slot at the head does not touch the queued slots.\<close>

lemma store_slot_head:
  assumes inv: "ring_inv r" and nf: "\<not> ring_full r" and ok: "slot_ok s"
  shows "ring_inv (store_slot (ring_head r) s r)"
    and "ring_list (store_slot (ring_head r) s r) = ring_list r"
    and "ring_slot (store_slot (ring_head r) s r) (ring_head r) = Some s"
    and "ring_full (store_slot (ring_head r) s r) \<longleftrightarrow> ring_full r"
proof -
  let ?r = "store_slot (ring_head r) s r"
  from ring_invD(4) [OF inv] obtain ss where ss: "ring_slots r = Some ss" "length ss = 1024"
    by auto
  show inv': "ring_inv ?r"
    using inv ok by (auto simp: ring_inv_def store_slot_def list_all_iff
        dest: set_update_subset_insert [THEN subsetD] split: option.splits)
  show full: "ring_full ?r \<longleftrightarrow> ring_full r"
    by (simp add: ring_full_def store_slot_def)
  have "ring_put s r = ring_write_next ?r"
    by (simp add: ring_put_def store_slot_def)
  moreover have "ring_put s ?r = ring_write_next ?r"
    using ss by (simp add: ring_put_def store_slot_def)
  ultimately have "ring_list ?r @ [s] = ring_list r @ [s]"
    using rq.items_push [OF inv nf, of s] rq.items_push [OF inv', of s] nf full by simp
  then show "ring_list ?r = ring_list r" by simp
  show "ring_slot ?r (ring_head r) = Some s"
    using ss ring_invD(2) [OF inv] by (simp add: ring_slot_def store_slot_def)
qed

lemma write_next_head:
  assumes inv: "ring_inv r" and nf: "\<not> ring_full r" and s: "ring_slot r (ring_head r) = Some s"
    and ok: "slot_ok s"
  shows "ring_inv (ring_write_next r)" and "ring_list (ring_write_next r) = ring_list r @ [s]"
proof -
  have "ring_put s r = ring_write_next r"
    using s by (cases r) (auto simp: ring_put_def ring_slot_def ring_write_next_def
        split: option.splits if_splits)
  then show "ring_inv (ring_write_next r)" and "ring_list (ring_write_next r) = ring_list r @ [s]"
    using rq.invar_push [OF inv ok] rq.items_push [OF inv nf, of s] by simp_all
qed

text \<open>Reading makes room: a ring that is not full stays so.\<close>

lemma read_next_not_full:
  assumes inv: "ring_inv r" and nf: "\<not> ring_full r" and ne: "ring_list r \<noteq> []"
  shows "\<not> ring_full (ring_read_next r)"
proof -
  have "\<not> ring_emtpy r" using ne by (simp add: rq.is_empty_iff [OF inv])
  then have "length (ring_list (ring_read_next r)) < length (ring_list r)"
    using rq.front_pop [OF inv] by auto
  then show ?thesis
    using rq.items_cap [OF inv] rq.is_full_iff [OF rq.invar_pop [OF inv]] by simp
qed

lemma ring_slot_frame [simp]:
  "ring_slot (ring_read_next r) i = ring_slot r i"
  "ring_head (ring_read_next r) = ring_head r"
  "ring_head (store_slot h s r) = ring_head r"
  "ring_tail (store_slot h s r) = ring_tail r"
  by (simp_all add: ring_slot_def ring_read_next_def store_slot_def)

lemma full_iff: "ring_full r \<longleftrightarrow> (ring_head r + 1) AND ring_mask r = ring_tail r"
  by (simp add: ring_full_def)

lemma head_stays_below:
  assumes inv: "ring_inv r" and "\<not> ring_full r" and "ring_head r < ring_tail r"
  shows "(ring_head r + 1) AND ring_mask r < ring_tail r"
proof -
  have h: "unat (ring_head r) < unat (ring_tail r)" using assms(3) by (simp add: word_less_nat_alt)
  have "ring_head r \<le> 1023" "ring_mask r = 1023" using inv by (simp_all add: ring_inv_def)
  then have n: "unat ((ring_head r + 1) AND ring_mask r) = unat (ring_head r) + 1"
    using unat_next [of "ring_head r"] h ring_invD(3) [OF inv] by simp
  moreover have "unat (ring_head r) + 1 \<noteq> unat (ring_tail r)"
    using assms(2) n by (simp add: full_iff word_unat_eq_iff)
  ultimately show ?thesis using h by (simp add: word_less_nat_alt)
qed

lemma writer_step_ok:
  assumes "writer_step p r p' r' out" and inv: "ring_inv r" and "writer_ok r p" and "reader_ok r q sent recv"
  shows "ring_inv r' \<and> writer_ok r' p' \<and> reader_ok r' q (sent @ out) recv"
  using assms(1)
proof cases
  case (w_partial g h s)
  with assms(3,4) store_slot_head [OF inv, of g] show ?thesis
    by (auto simp: writer_ok_def reader_ok_def split: reader_pc.splits)
next
  case (w_fill h s)
  with assms(3,4) store_slot_head [OF inv, of s] show ?thesis
    by (auto simp: writer_ok_def reader_ok_def split: reader_pc.splits)
next
  case (w_store h s)
  then have h: "h = ring_head r" "\<not> ring_full r" "slot_ok s" "ring_slot r (ring_head r) = Some s"
    using assms(3) by (auto simp: writer_ok_def)
  have r': "r' = ring_write_next r" using w_store h(1) by (simp add: ring_write_next_def)
  note w = write_next_head [OF inv h(2,4,3)]
  have t: "ring_tail (ring_write_next r) = ring_tail r"
    "ring_head (ring_write_next r) = (ring_head r + 1) AND ring_mask r" by (simp_all add: ring_write_next_def)
  have "reader_ok (ring_write_next r) q (sent @ [s]) recv"
    using assms(4) w(2) head_stays_below [OF inv h(2)] t by (auto simp: reader_ok_def split: reader_pc.splits)
  with w(1) w_store r' show ?thesis by (simp add: writer_ok_def)
qed (use assms(2-4) in \<open>auto simp: writer_ok_def full_iff\<close>)

lemma copynum_le: "copynum avail count \<le> unat avail"
  by (simp add: copynum_def)

lemma read_avail_cases:
  "ring_tail r < ring_head r \<Longrightarrow> ring_head r - ring_tail r = ring_read_avail r"
  "ring_head r < ring_tail r \<Longrightarrow> ring_mask r - ring_tail r + ring_head r + 1 = ring_read_avail r"
  by (auto simp: ring_read_avail_def)

lemma reader_step_ok:
  assumes "reader_step q r q' r' out" and inv: "ring_inv r" and "writer_ok r p" and "reader_ok r q sent recv"
    and "\<not> torn q r"
  shows "ring_inv r' \<and> writer_ok r' p \<and> reader_ok r' q' sent (recv @ out)"
proof -
  have ne: "ring_list r \<noteq> [] \<longleftrightarrow> ring_head r \<noteq> ring_tail r"
    using rq.is_empty_iff [OF inv] by (simp add: ring_emtpy_def)
  have n: "copynum (ring_read_avail r) count \<le> length (ring_list r)" for count
    using copynum_le [of "ring_read_avail r" count] by (simp add: unat_ring_read_avail [OF inv] length_ring_list [OF inv])
  show ?thesis
    using assms(1)
  proof cases
    case (r_sub count)
    then have "ring_tail r < ring_head r" using assms(4,5) ne by (auto simp: reader_ok_def torn_def)
    with r_sub assms(3,4) inv n read_avail_cases(1) show ?thesis by (simp add: reader_ok_def)
  next
    case (r_add count)
    with assms(3,4) inv n read_avail_cases(2) show ?thesis by (simp add: reader_ok_def)
  next
    case (r_copy s m)
    then obtain u where "ring_list r = s # u"
      using rq.front_pop [OF inv] rq.is_empty_iff [OF inv] assms(4) by (auto simp: reader_ok_def)
    with r_copy assms(3,4) inv show ?thesis by (auto simp: reader_ok_def)
  next
    case (r_next m)
    then have ln: "ring_list r \<noteq> []" using assms(4) by (auto simp: reader_ok_def)
    then have "ring_list r = hd (ring_list r) # ring_list (ring_read_next r)"
      using rq.front_pop [OF inv] ne by (auto simp: ring_emtpy_def)
    moreover have "writer_ok (ring_read_next r) p"
      using assms(3) read_next_not_full [OF inv _ ln] by (auto simp: writer_ok_def split: writer_pc.splits)
    ultimately show ?thesis using r_next assms(4) rq.invar_pop [OF inv] by (auto simp: reader_ok_def)
  qed (use assms(3,4) inv ne in \<open>auto simp: reader_ok_def copynum_def not_less\<close>)
qed

lemma spsc_step:
  assumes "ring_step {w} y z" and "spsc_inv w y"
  shows "spsc_inv w z"
  using assms(1)
proof cases
  case (by_writer v p r out)
  with assms(2) writer_step_ok [OF by_writer(3)] show ?thesis by (auto simp: spsc_inv_def)
next
  case (by_reader p r out)
  with assms(2) reader_step_ok [OF by_reader(2)] show ?thesis by (auto simp: spsc_inv_def)
qed

lemma spsc_reach:
  "ring_reach {w} r y \<Longrightarrow> ring_inv r \<Longrightarrow> ring_list r = [] \<Longrightarrow> spsc_inv w y"
proof (induction rule: ring_reach.induct)
  case start
  then show ?case by (simp add: ring_start_def spsc_inv_def writer_ok_def reader_ok_def)
next
  case (step y z)
  then show ?case using spsc_step by blast
qed


section \<open>Runs\<close>

lemma reach_write:
  assumes "ring_reach W r y" and "w \<in> W" and "writer_step (sys_w y w) (sys_ring y) p r' out"
    and "z = y\<lparr>sys_ring := r', sys_w := (sys_w y)(w := p), sys_sent := sys_sent y @ out\<rparr>"
  shows "ring_reach W r z"
  unfolding assms(4) by (rule ring_reach.step [OF assms(1) ring_step.by_writer [OF assms(2,3)]])

lemma reach_read:
  assumes "ring_reach W r y" and "reader_step (sys_r y) (sys_ring y) p r' out"
    and "z = y\<lparr>sys_ring := r', sys_r := p, sys_recv := sys_recv y @ out, sys_torn := sys_torn y \<or> torn (sys_r y) (sys_ring y)\<rparr>"
  shows "ring_reach W r z"
  unfolding assms(3) by (rule ring_reach.step [OF assms(1) ring_step.by_reader [OF assms(2)]])

text \<open>A writer up to its stores, the stores, and the publication.\<close>

lemma run_begin:
  assumes "ring_reach W r y" and "w \<in> W" and "sys_w y w = WIdle" and "\<not> ring_full (sys_ring y)" and "slot_ok s"
  shows "ring_reach W r (y\<lparr>sys_w := (sys_w y)(w := WFill (ring_head (sys_ring y)) s)\<rparr>)"
proof -
  let ?h = "ring_head (sys_ring y)"
  have "writer_step (sys_w y w) (sys_ring y) (WTest ?h s) (sys_ring y) []"
    unfolding assms(3) by (rule w_begin [OF assms(5)])
  from reach_write [OF assms(1,2) this refl]
  have 1: "ring_reach W r (y\<lparr>sys_w := (sys_w y)(w := WTest ?h s)\<rparr>)" by simp
  have "writer_step (WTest ?h s) (sys_ring y) (WSlot s) (sys_ring y) []"
    using assms(4) by (intro w_room) (simp add: full_iff)
  from reach_write [OF 1 assms(2), of "WSlot s" "sys_ring y" "[]"] this
  have 2: "ring_reach W r (y\<lparr>sys_w := (sys_w y)(w := WSlot s)\<rparr>)" by simp
  from reach_write [OF 2 assms(2), of "WFill ?h s" "sys_ring y" "[]"] w_slot [of s "sys_ring y"]
  show ?thesis by simp
qed

lemma run_fill:
  assumes "ring_reach W r y" and "w \<in> W" and "sys_w y w = WFill h s"
  shows "ring_reach W r (y\<lparr>sys_ring := store_slot h s (sys_ring y), sys_w := (sys_w y)(w := WNext h s)\<rparr>)"
  using reach_write [OF assms(1,2), of "WNext h s" "store_slot h s (sys_ring y)" "[]"] w_fill [of h s "sys_ring y"] assms(3)
  by simp

lemma run_publish:
  assumes "ring_reach W r y" and "w \<in> W" and "sys_w y w = WNext h s"
  shows "ring_reach W r (y\<lparr>sys_ring := ring_write_next (sys_ring y), sys_w := (sys_w y)(w := WIdle),
    sys_sent := sys_sent y @ [s]\<rparr>)"
proof -
  let ?h = "ring_head (sys_ring y)"
  from reach_write [OF assms(1,2), of "WStore ?h s" "sys_ring y" "[]"] w_load [of h s "sys_ring y"] assms(3)
  have 1: "ring_reach W r (y\<lparr>sys_w := (sys_w y)(w := WStore ?h s)\<rparr>)" by simp
  have "writer_step (WStore ?h s) (sys_ring y) WIdle (ring_write_next (sys_ring y)) [s]"
    using w_store [of ?h s "sys_ring y"] by (simp add: ring_write_next_def)
  with reach_write [OF 1 assms(2), of WIdle "ring_write_next (sys_ring y)" "[s]"] show ?thesis by simp
qed

lemma run_write:
  assumes "ring_reach W r y" and "w \<in> W" and "sys_w y w = WIdle" and "\<not> ring_full (sys_ring y)" and "slot_ok s"
  shows "ring_reach W r (y\<lparr>sys_ring := ring_put s (sys_ring y), sys_sent := sys_sent y @ [s]\<rparr>)"
proof -
  let ?h = "ring_head (sys_ring y)"
  have "ring_put s (sys_ring y) = ring_write_next (store_slot ?h s (sys_ring y))"
    by (simp add: ring_put_def store_slot_def)
  moreover have "(sys_w y)(w := WIdle) = sys_w y" using assms(3) by auto
  ultimately show ?thesis
    using run_publish [OF run_fill [OF run_begin [OF assms] assms(2)] assms(2)] by simp
qed

text \<open>
  C3. With a single writer the ring needs no lock, but for one case. From an empty ring, under
  every interleaving of the loads and stores of the indices by one writer and one reader in a
  sequentially consistent memory, and as long as the head index has not passed the end of
  the array between the comparison and the subtraction of \<open>ring_read_avail\<close>: what has been
  copied to user space is a prefix of what was written; the slot the reader is about to copy
  always exists; and whenever the reader is outside its call, nothing is lost or duplicated:
  the slots written are those read followed by those queued.
\<close>

theorem spsc_ring_fifo:
  assumes "ring_inv r" and "ring_list r = []" and "ring_reach {w} r y" and "\<not> sys_torn y"
  shows "prefix (sys_recv y) (sys_sent y) \<and>
         (\<forall>n. sys_r y = RCopy (Suc n) \<longrightarrow> ring_slot (sys_ring y) (ring_tail (sys_ring y)) \<noteq> None) \<and>
         (sys_r y = RIdle \<longrightarrow> sys_sent y = sys_recv y @ ring_list (sys_ring y))"
proof -
  have inv: "ring_inv (sys_ring y)" "reader_ok (sys_ring y) (sys_r y) (sys_sent y) (sys_recv y)"
    using spsc_reach [OF assms(3,1,2)] assms(4) by (simp_all add: spsc_inv_def)
  have "ring_slot (sys_ring y) (ring_tail (sys_ring y)) \<noteq> None" if "ring_list (sys_ring y) \<noteq> []"
    using rq.front_pop [OF inv(1)] that by (auto simp: rq.is_empty_iff [OF inv(1)])
  with inv(2) show ?thesis
    by (cases "ring_list (sys_ring y)") (auto simp: reader_ok_def split: reader_pc.splits)
qed

lemma one_packet_run:
  assumes "ring_inv r" and "ring_list r = []" and "slot_ok s"
  shows "\<exists>y. ring_reach {0} r y \<and> \<not> sys_torn y \<and> sys_r y = RIdle \<and> sys_sent y = [s]"
proof -
  have "\<not> ring_full r" using assms(2) by (simp add: rq.is_full_iff [OF assms(1)])
  with run_write [OF ring_reach.start, of 0 "{0}" r s] assms(3) show ?thesis
    by (intro exI [of _ "(ring_start r)\<lparr>sys_ring := ring_put s r, sys_sent := [s]\<rparr>"]) (simp add: ring_start_def)
qed

theorem spsc_ring_fifo_witness:
  "ring_inv example_ring \<and> ring_list example_ring = [] \<and>
   (\<exists>y. ring_reach {0} example_ring y \<and> \<not> sys_torn y \<and> sys_r y = RIdle \<and> sys_sent y = [zero_slot] \<and>
        [zero_slot] = sys_recv y @ ring_list (sys_ring y))"
proof -
  have "slot_ok zero_slot" by (simp add: slot_ok_def zero_slot_def PVAL_PKT_LEN_def)
  then obtain y where y: "ring_reach {0} example_ring y" "\<not> sys_torn y" "sys_r y = RIdle" "sys_sent y = [zero_slot]"
    using one_packet_run [OF example_ring_inv example_ring_list] by blast
  with spsc_ring_fifo [OF example_ring_inv example_ring_list y(1,2)] show ?thesis
    using example_ring_inv example_ring_list by auto
qed

section \<open>Two writers\<close>

lemma two_writes_same_slot:
  assumes inv: "ring_inv r" and nil: "ring_list r = []" and ok: "slot_ok a" "slot_ok b"
  shows "\<exists>stale. ring_slot r ((ring_head r + 1) AND ring_mask r) = Some stale \<and>
     ring_list (ring_write_next (ring_write_next
       (store_slot (ring_head r) b (store_slot (ring_head r) a r)))) = [b, stale]"
proof -
  let ?h = "ring_head r"
  let ?ra = "store_slot ?h a r"
  let ?rb = "store_slot ?h b ?ra"
  let ?r1 = "ring_write_next ?rb"
  have nf: "\<not> ring_full r" using nil by (simp add: rq.is_full_iff [OF inv])
  note a = store_slot_head [OF inv nf ok(1)]
  have nfa: "\<not> ring_full ?ra" using a(4) nf by simp
  note b = store_slot_head [OF a(1) nfa ok(2), simplified]
  have nfb: "\<not> ring_full ?rb" using b(4) nfa by simp
  have s1: "ring_slot ?rb (ring_head ?rb) = Some b" using b(3) by simp
  have r1: "ring_inv ?r1" "ring_list ?r1 = [b]"
    using write_next_head [OF b(1) nfb s1 ok(2)] b(2) a(2) nil by simp_all
  have h1: "ring_head ?r1 = (?h + 1) AND ring_mask r"
    by (simp add: ring_write_next_def store_slot_def)
  have nf1: "\<not> ring_full ?r1" using r1 by (simp add: rq.is_full_iff)
  from ring_invD(4) [OF inv] obtain ss where ss: "ring_slots r = Some ss" "length ss = 1024"
    "list_all slot_ok ss" by blast
  let ?stale = "ss ! ((unat ?h + 1) mod 1024)"
  have h: "unat (ring_head ?r1) = (unat ?h + 1) mod 1024" "(unat ?h + 1) mod 1024 \<noteq> unat ?h"
    using inv unat_next [of ?h] ring_invD(2) [OF inv] unfolding h1
    by (auto simp: ring_inv_def mod_Suc split: if_splits)
  have s2: "ring_slot ?r1 (ring_head ?r1) = Some ?stale"
    using ss h by (simp add: ring_slot_def ring_write_next_def store_slot_def)
  moreover have "ring_slot r ((?h + 1) AND ring_mask r) = Some ?stale"
    using ss h h1 by (simp add: ring_slot_def)
  moreover have "slot_ok ?stale" using ss by (simp add: list_all_length)
  ultimately show ?thesis
    using write_next_head [OF r1(1) nf1] r1(2) by auto
qed

text \<open>
  C4. Two writers are not safe. From every empty ring there is an interleaving of two
  calls of \<open>write_to_ring\<close> with slots \<open>a\<close> and \<open>b\<close> that both report success, after which
  the queue holds \<open>b\<close> and the old content of the following slot, and \<open>a\<close> is gone.
\<close>

theorem two_writers_lose_a_slot:
  assumes "ring_inv r" and "ring_list r = []" and "slot_ok a" and "slot_ok b"
  shows "\<exists>y stale. ring_reach {0, 1} r y \<and> (\<forall>w. sys_w y w = WIdle) \<and> sys_r y = RIdle \<and>
           sys_sent y = [a, b] \<and> sys_recv y = [] \<and>
           ring_slot r ((ring_head r + 1) AND ring_mask r) = Some stale \<and>
           ring_list (sys_ring y) = [b, stale]"
proof -
  let ?h = "ring_head r" and ?W = "{0, 1} :: nat set"
  have nf: "\<not> ring_full r" using assms(2) by (simp add: rq.is_full_iff [OF assms(1)])
  let ?s0 = "ring_start r"
  let ?s1 = "?s0\<lparr>sys_w := (sys_w ?s0)(0 := WFill ?h a)\<rparr>"
  let ?s2 = "?s1\<lparr>sys_w := (sys_w ?s1)(1 := WFill ?h b)\<rparr>"
  let ?s3 = "?s2\<lparr>sys_ring := store_slot ?h a (sys_ring ?s2), sys_w := (sys_w ?s2)(0 := WNext ?h a)\<rparr>"
  let ?s4 = "?s3\<lparr>sys_ring := store_slot ?h b (sys_ring ?s3), sys_w := (sys_w ?s3)(1 := WNext ?h b)\<rparr>"
  let ?s5 = "?s4\<lparr>sys_ring := ring_write_next (sys_ring ?s4), sys_w := (sys_w ?s4)(0 := WIdle),
                 sys_sent := sys_sent ?s4 @ [a]\<rparr>"
  let ?s6 = "?s5\<lparr>sys_ring := ring_write_next (sys_ring ?s5), sys_w := (sys_w ?s5)(1 := WIdle),
                 sys_sent := sys_sent ?s5 @ [b]\<rparr>"
  have 1: "ring_reach ?W r ?s1"
    using run_begin [OF ring_reach.start, of 0 ?W r a] nf assms(3) by (simp add: ring_start_def)
  have 2: "ring_reach ?W r ?s2"
    using run_begin [OF 1, of 1 b] nf assms(4) by (simp add: ring_start_def)
  have 3: "ring_reach ?W r ?s3" by (rule run_fill [OF 2]) simp_all
  have 4: "ring_reach ?W r ?s4" by (rule run_fill [OF 3]) simp_all
  have 5: "ring_reach ?W r ?s5" by (rule run_publish [OF 4]) simp_all
  have 6: "ring_reach ?W r ?s6" by (rule run_publish [OF 5]) simp_all
  moreover obtain stale where "ring_slot r ((?h + 1) AND ring_mask r) = Some stale"
    and "ring_list (sys_ring ?s6) = [b, stale]"
    using two_writes_same_slot [OF assms] by (auto simp: ring_start_def)
  ultimately show ?thesis
    by (intro exI [of _ ?s6] exI [of _ stale]) (simp add: ring_start_def)
qed

theorem two_writers_lose_a_slot_witness:
  "\<exists>y. ring_reach {0, 1} example_ring y \<and>
       sys_sent y = [zero_slot\<lparr>slot_len := 1\<rparr>, zero_slot\<lparr>slot_len := 2\<rparr>] \<and> sys_recv y = [] \<and>
       zero_slot\<lparr>slot_len := 1\<rparr> \<notin> set (ring_list (sys_ring y))"
proof -
  have ok: "slot_ok (zero_slot\<lparr>slot_len := 1\<rparr>)" "slot_ok (zero_slot\<lparr>slot_len := 2\<rparr>)"
    by (simp_all add: slot_ok_def zero_slot_def PVAL_PKT_LEN_def)
  have "ring_slot example_ring ((ring_head example_ring + 1) AND ring_mask example_ring) = Some zero_slot"
    by (simp add: example_ring_def pval_init_ring_def ring_slot_def PVAL_SLOT_NUM_def u32_and_1023)
  with two_writers_lose_a_slot [OF example_ring_inv example_ring_list ok] show ?thesis
    by (auto simp: zero_slot_def)
qed


section \<open>One writer and a torn subtraction\<close>

lemma u_next_index: "t < 1024 \<Longrightarrow> (word_of_nat t + 1) AND 1023 = (word_of_nat ((t + 1) mod 1024) :: u32)"
  using unat_next [of "word_of_nat t"] by (simp add: word_unat_eq_iff word_le_nat_alt unat_u32_of_nat)

lemma run_read_loop:
  assumes "ring_reach W r y" and "sys_r y = RCopy n" and "ring_slots (sys_ring y) = Some ss" and "length ss = 1024"
    and "ring_mask (sys_ring y) = 1023" and "ring_tail (sys_ring y) = word_of_nat t" and "t < 1024"
  shows "ring_reach W r (y\<lparr>sys_ring := (sys_ring y)\<lparr>ring_tail := word_of_nat ((t + n) mod 1024)\<rparr>, sys_r := RIdle,
    sys_recv := sys_recv y @ map (\<lambda>i. ss ! ((t + i) mod 1024)) [0..<n]\<rparr>)"
  using assms
proof (induction n arbitrary: y t)
  case 0
  have e: "(sys_ring y)\<lparr>ring_tail := word_of_nat t\<rparr> = sys_ring y" unfolding "0.prems"(6) [symmetric] by simp
  have "ring_reach W r (y\<lparr>sys_r := RIdle\<rparr>)"
    using reach_read [OF "0.prems"(1), of RIdle "sys_ring y" "[]"] r_done [of "sys_ring y"] "0.prems"(2)
    by (simp add: torn_def)
  then show ?case using "0.prems"(7) by (simp add: e)
next
  case (Suc n)
  let ?r = "sys_ring y" and ?s = "ss ! t"
  let ?r' = "?r\<lparr>ring_tail := word_of_nat ((t + 1) mod 1024)\<rparr>"
  have u: "unat (word_of_nat t :: u32) = t" using Suc.prems(7) by (simp add: unat_u32_of_nat)
  have t1: "(word_of_nat t + 1) AND 1023 = (word_of_nat ((t + 1) mod 1024) :: u32)"
    using u_next_index [OF Suc.prems(7)] by simp
  have "reader_step (RCopy (Suc n)) ?r (RNext n) ?r [?s]"
    using Suc.prems u by (intro r_copy) (simp add: ring_slot_def)
  then have 1: "ring_reach W r (y\<lparr>sys_r := RNext n, sys_recv := sys_recv y @ [?s]\<rparr>)"
    using reach_read [OF Suc.prems(1), of "RNext n" ?r "[?s]"] Suc.prems(2) by (simp add: torn_def)
  have "reader_step (RNext n) ?r (RCopy n) ?r' []"
    using r_next [of n ?r] Suc.prems(5,6) t1 by (simp add: ring_read_next_def)
  then have 2: "ring_reach W r (y\<lparr>sys_ring := ?r', sys_r := RCopy n, sys_recv := sys_recv y @ [?s]\<rparr>)"
    using reach_read [OF 1, of "RCopy n" ?r' "[]"] by (simp add: torn_def)
  have m: "((t + 1) mod 1024 + i) mod 1024 = (t + Suc i) mod 1024" for i by (simp add: mod_add_left_eq)
  have l: "[0..<Suc n] = 0 # map Suc [0..<n]" by (simp add: upt_conv_Cons map_Suc_upt del: upt_Suc)
  have "map (\<lambda>i. ss ! ((t + i) mod 1024)) [0..<Suc n] = ?s # map (\<lambda>i. ss ! (((t + 1) mod 1024 + i) mod 1024)) [0..<n]"
    unfolding l m using Suc.prems(7) by (simp add: comp_def)
  with Suc.IH [OF 2, of "(t + 1) mod 1024"] Suc.prems m show ?case by (simp del: upt_Suc)
qed


lemma two_puts_at_the_end:
  assumes "ring_inv r" and "ring_head r = 1022" and "ring_slots r = Some ss"
  shows "ring_put a r = r\<lparr>ring_slots := Some (ss[1022 := a]), ring_head := 1023\<rparr>"
    and "ring_put b (ring_put a r) = r\<lparr>ring_slots := Some (ss[1022 := a, 1023 := b]), ring_head := 0\<rparr>"
proof -
  have "ring_mask r = 1023" using assms(1) by (rule ring_invD)
  then show "ring_put a r = r\<lparr>ring_slots := Some (ss[1022 := a]), ring_head := 1023\<rparr>"
    and "ring_put b (ring_put a r) = r\<lparr>ring_slots := Some (ss[1022 := a, 1023 := b]), ring_head := 0\<rparr>"
    using assms(2,3) by (simp_all add: ring_put_def ring_write_next_def)
qed

lemma slots_around_the_end:
  assumes "length ss = 1024" and "2 \<le> count" and "count \<le> 1024"
  shows "map (\<lambda>i. ss[1022 := a, 1023 := b] ! ((1022 + i) mod 1024)) [0..<count] = [a, b] @ take (count - 2) ss"
proof (rule nth_equalityI)
  let ?ss = "ss[1022 := a, 1023 := b]"
  fix i assume "i < length (map (\<lambda>i. ?ss ! ((1022 + i) mod 1024)) [0..<count])"
  then have i: "i < count" by simp
  have v: "map (\<lambda>i. ?ss ! ((1022 + i) mod 1024)) [0..<count] ! i = ?ss ! ((1022 + i) mod 1024)" using i by simp
  consider "i = 0" | "i = 1" | "2 \<le> i" by linarith
  then show "map (\<lambda>i. ?ss ! ((1022 + i) mod 1024)) [0..<count] ! i = ([a, b] @ take (count - 2) ss) ! i"
  proof cases
    case 3
    then have "(1022 + i) mod 1024 = i - 2" using i assms(3) by (simp add: mod_if)
    moreover have "i - 2 \<noteq> 1022" "i - 2 \<noteq> 1023" using i assms(3) 3 by linarith+
    moreover have "([a, b] @ take (count - 2) ss) ! i = ss ! (i - 2)" using 3 i assms by (simp add: nth_append numeral_2_eq_2)
    ultimately show ?thesis unfolding v by simp
  qed (unfold v, use assms(1) in simp_all)
qed (use assms in simp)

text \<open>
  C12. One writer and one reader are not always safe either. On an empty ring with both
  indices at 1022 let a packet \<open>a\<close> be written, a call of \<open>pval_file_read_iter\<close> with \<open>count\<close>
  buffers, at least three, run up to the comparison in \<open>ring_read_avail\<close>, a packet \<open>b\<close> be
  written, which brings the head index back to 0, and the call go on, with the head index
  loaded again for the subtraction. The difference wraps around, the call fills all \<open>count\<close>
  buffers, with \<open>a\<close>, \<open>b\<close> and the old contents of the first slots of the array, and the tail
  index passes the head, so that the ring seems to hold \<open>1026 - count\<close> further packets.
\<close>

theorem torn_read_delivers_stale_slots:
  assumes "ring_inv r" and "ring_head r = 1022" and "ring_tail r = 1022" and "ring_slots r = Some ss"
    and "slot_ok a" and "slot_ok b" and "3 \<le> count" and "count \<le> 1024"
  shows "\<exists>y. ring_reach {0} r y \<and> (\<forall>w. sys_w y w = WIdle) \<and> sys_r y = RIdle \<and> sys_sent y = [a, b] \<and>
    sys_recv y = [a, b] @ take (count - 2) ss \<and> length (ring_list (sys_ring y)) = 1026 - count"
proof -
  let ?ra = "ring_put a r" and ?rb = "ring_put b (ring_put a r)"
  note rings = two_puts_at_the_end [OF assms(1,2,4)]
  have ss: "length ss = 1024" "ring_mask r = 1023" using ring_invD [OF assms(1)] assms(4) by auto
  have "\<not> ring_full r" "\<not> ring_full ?ra" using assms(2,3) ss(2) by (simp_all add: full_iff rings(1))
  with run_write [OF ring_reach.start, of 0 "{0}" r a] assms(5)
  have 1: "ring_reach {0} r ((ring_start r)\<lparr>sys_ring := ?ra, sys_sent := [a]\<rparr>)" by (simp add: ring_start_def)
  have "reader_step RIdle ?ra (RCmp count) ?ra []" using assms(3) by (intro r_begin) (simp add: rings(1))
  with reach_read [OF 1, of "RCmp count" ?ra "[]"]
  have 2: "ring_reach {0} r ((ring_start r)\<lparr>sys_ring := ?ra, sys_r := RCmp count, sys_sent := [a]\<rparr>)"
    by (simp add: ring_start_def torn_def)
  have "reader_step (RCmp count) ?ra (RSub count) ?ra []" using assms(3) by (intro r_above) (simp add: rings(1))
  with reach_read [OF 2, of "RSub count" ?ra "[]"]
  have 3: "ring_reach {0} r ((ring_start r)\<lparr>sys_ring := ?ra, sys_r := RSub count, sys_sent := [a]\<rparr>)"
    by (simp add: ring_start_def torn_def)
  from run_write [OF 3, of 0 b] \<open>\<not> ring_full ?ra\<close> assms(6)
  have 4: "ring_reach {0} r ((ring_start r)\<lparr>sys_ring := ?rb, sys_r := RSub count, sys_sent := [a, b]\<rparr>)"
    by (simp add: ring_start_def)
  have "copynum (ring_head ?rb - ring_tail ?rb) count = count"
    using assms(3,8) by (simp add: rings(2) copynum_def)
  then have "reader_step (RSub count) ?rb (RCopy count) ?rb []" using r_sub [of count ?rb] by simp
  with reach_read [OF 4, of "RCopy count" ?rb "[]"]
  have 5: "ring_reach {0} r ((ring_start r)\<lparr>sys_ring := ?rb, sys_r := RCopy count, sys_sent := [a, b], sys_torn := True\<rparr>)"
    using assms(3) by (simp add: ring_start_def torn_def rings(2))
  let ?y = "(ring_start r)\<lparr>sys_ring := ?rb\<lparr>ring_tail := word_of_nat ((1022 + count) mod 1024)\<rparr>,
    sys_sent := [a, b], sys_recv := [a, b] @ take (count - 2) ss, sys_torn := True\<rparr>"
  have y: "ring_reach {0} r ?y"
    using run_read_loop [OF 5, of count "ss[1022 := a, 1023 := b]" 1022] slots_around_the_end [OF ss(1) _ assms(8), of a b] assms(3,7) ss
    by (simp add: ring_start_def rings(2))
  have "length (ring_list (sys_ring ?y)) = 1026 - count"
    using assms(7,8) by (simp add: ring_list_def ring_count_def rings(2) unat_u32_of_nat) (simp add: mod_if)
  with y show ?thesis by (intro exI [of _ ?y]) (simp add: ring_start_def)
qed


theorem torn_read_delivers_stale_slots_witness:
  "\<exists>y. ring_reach {0} (example_ring\<lparr>ring_head := 1022, ring_tail := 1022\<rparr>) y \<and>
     sys_sent y = [zero_slot\<lparr>slot_len := 1\<rparr>, zero_slot\<lparr>slot_len := 2\<rparr>] \<and>
     sys_recv y = [zero_slot\<lparr>slot_len := 1\<rparr>, zero_slot\<lparr>slot_len := 2\<rparr>, zero_slot] \<and>
     length (ring_list (sys_ring y)) = 1023"
proof -
  let ?r = "example_ring\<lparr>ring_head := 1022, ring_tail := 1022\<rparr>"
  have inv: "ring_inv ?r"
    using example_ring_inv by (auto simp: ring_inv_def split: option.splits)
  have ss: "ring_slots ?r = Some (replicate 1024 zero_slot)"
    by (simp add: example_ring_def pval_init_ring_def Let_def)
  have ok: "slot_ok (zero_slot\<lparr>slot_len := 1\<rparr>)" "slot_ok (zero_slot\<lparr>slot_len := 2\<rparr>)"
    by (simp_all add: slot_ok_def zero_slot_def PVAL_PKT_LEN_def)
  from torn_read_delivers_stale_slots [OF inv _ _ ss ok, of 3] obtain y where
    "ring_reach {0} ?r y" "sys_sent y = [zero_slot\<lparr>slot_len := 1\<rparr>, zero_slot\<lparr>slot_len := 2\<rparr>]"
    "sys_recv y = [zero_slot\<lparr>slot_len := 1\<rparr>, zero_slot\<lparr>slot_len := 2\<rparr>, zero_slot]"
    "length (ring_list (sys_ring y)) = 1023" by auto
  then show ?thesis by blast
qed

end
