(* ===== verification/C_Numbers.thy ===== *)
theory C_Numbers
  imports Prelude
begin

text \<open>
  The number scanners \<open>strtol\<close> and \<open>strtoul\<close> of the C library, for a machine with 64-bit
  \<open>long\<close>, and \<open>%x\<close> of \<open>printf\<close>. Whether \<open>errno\<close> is \<open>ERANGE\<close> is passed along, since most
  callers do not reset it.
\<close>

section \<open>strtol and strtoul\<close>

definition c_isspace :: "char \<Rightarrow> bool" where
  "c_isspace c \<longleftrightarrow> (let n = of_char c :: nat in n = 32 \<or> (9 \<le> n \<and> n \<le> 13))"

definition digit_of :: "char \<Rightarrow> nat" where
  "digit_of c = (let n = of_char c :: nat in
     if 48 \<le> n \<and> n \<le> 57 then n - 48
     else if 97 \<le> n \<and> n \<le> 122 then n - 87
     else if 65 \<le> n \<and> n \<le> 90 then n - 55 else 36)"

fun base_val :: "nat \<Rightarrow> nat \<Rightarrow> string \<Rightarrow> nat" where
  "base_val b acc [] = acc"
| "base_val b acc (c # cs) = base_val b (b * acc + digit_of c) cs"

text \<open>The base in effect and the input behind a prefix that belongs to it.\<close>

definition num_prefix :: "nat \<Rightarrow> string \<Rightarrow> nat \<times> string" where
  "num_prefix base s =
     (if base = 0 \<or> base = 16 then
        (case s of
           z # x # d # r \<Rightarrow>
             if z = CHR ''0'' \<and> (x = CHR ''x'' \<or> x = CHR ''X'') \<and> digit_of d < 16 then (16, d # r)
             else if base = 16 then (16, s) else if z = CHR ''0'' then (8, s) else (10, s)
         | z # r \<Rightarrow> if base = 16 then (16, s) else if z = CHR ''0'' then (8, s) else (10, s)
         | [] \<Rightarrow> (10, s))
      else (base, s))"

text \<open>Sign, magnitude and rest of the input; \<open>None\<close> if there is no number.\<close>

definition scan_number :: "nat \<Rightarrow> string \<Rightarrow> (bool \<times> nat \<times> string) option" where
  "scan_number base s =
     (let t = dropWhile c_isspace s;
          (neg, u) = (case t of
              c # cs \<Rightarrow> if c = CHR ''-'' then (True, cs) else if c = CHR ''+'' then (False, cs) else (False, t)
            | [] \<Rightarrow> (False, t));
          (b, v) = num_prefix base u;
          ds = takeWhile (\<lambda>c. digit_of c < b) v
      in if ds = [] then None else Some (neg, base_val b 0 ds, drop (length ds) v))"

definition ULONG_MAX :: nat where "ULONG_MAX = 2 ^ 64 - 1"
definition LONG_MAX :: int where "LONG_MAX = 2 ^ 63 - 1"
definition LONG_MIN :: int where "LONG_MIN = - (2 ^ 63)"

text \<open>Result, rest of the input (the whole input if there is no number), and \<open>errno = ERANGE\<close>.\<close>

definition strtoul :: "bool \<Rightarrow> string \<Rightarrow> nat \<Rightarrow> nat \<times> string \<times> bool" where
  "strtoul errno s base =
     (case scan_number base s of
        None \<Rightarrow> (0, s, errno)
      | Some (neg, v, r) \<Rightarrow>
          if v > ULONG_MAX then (ULONG_MAX, r, True)
          else (if neg then (2 ^ 64 - v) mod 2 ^ 64 else v, r, errno))"

definition strtol :: "bool \<Rightarrow> string \<Rightarrow> nat \<Rightarrow> int \<times> string \<times> bool" where
  "strtol errno s base =
     (case scan_number base s of
        None \<Rightarrow> (0, s, errno)
      | Some (neg, v, r) \<Rightarrow>
          let w = (if neg then - int v else int v) in
          if w > LONG_MAX then (LONG_MAX, r, True)
          else if w < LONG_MIN then (LONG_MIN, r, True) else (w, r, errno))"

section \<open>Printing\<close>

text \<open>\<open>%x\<close>.\<close>

function hexs :: "nat \<Rightarrow> string" where
  "hexs n = (if n < 16 then [digit_char n] else hexs (n div 16) @ [digit_char (n mod 16)])"
  by pat_completeness auto
termination
  by (relation "measure id") auto

declare hexs.simps [simp del]

end
