(* ===== verification/Pval_Dev.thy ===== *)
theory Pval_Dev
  imports Ring
begin

text \<open>
  The device structures of \<open>kmod/pval_main.c\<close>: a character device with its ring
  (\<open>struct pval_mdev\<close>), the interface with its switches and its character devices
  (\<open>struct pval_dev\<close>), and the worker that waits for a transmit time stamp.
\<close>

definition IFNAMSIZ :: nat where "IFNAMSIZ = 16"
definition PVAL_NAME_MAX :: nat where "PVAL_NAME_MAX = IFNAMSIZ + 16"
definition PVAL_MAX_CPUS :: nat where "PVAL_MAX_CPUS = 16"

record pval_mdev =
  md_name :: string
  md_cpu :: int
  md_opened :: bool
  md_ring :: pval_ring
  md_txtstamp_start :: u64
  md_cloned_skb :: "sk_buff option"

record hwtstamp_config =
  hc_flags :: int
  hc_tx_type :: int
  hc_rx_filter :: int

record pval_dev =
  pd_name :: string
  pd_dev :: netdev_id
  pd_link :: "netdev_id option"
  pd_seq :: u64
  pd_ipopt :: bool
  pd_txtstamp :: bool
  pd_rxtstamp :: bool
  pd_txcopy :: bool
  pd_rxcopy :: bool
  pd_txbusydrop :: bool
  pd_original_config :: hwtstamp_config
  pd_num_cpus :: nat
  pd_txmdevs :: "pval_mdev list"
  pd_rxmdevs :: "pval_mdev list"

text \<open>
  \<open>pdev_tx_pmdev\<close> and \<open>pdev_rx_pmdev\<close>: the entry of the running CPU in an array of
  \<open>PVAL_MAX_CPUS\<close> entries, \<open>None\<close> when the CPU number is outside of it.
\<close>

definition pdev_tx_pmdev :: "pval_dev \<Rightarrow> nat \<Rightarrow> pval_mdev option" where
  "pdev_tx_pmdev pdev cpu = nth_opt (pd_txmdevs pdev) cpu"

definition pdev_rx_pmdev :: "pval_dev \<Rightarrow> nat \<Rightarrow> pval_mdev option" where
  "pdev_rx_pmdev pdev cpu = nth_opt (pd_rxmdevs pdev) cpu"

definition set_tx_ring :: "nat \<Rightarrow> pval_ring \<Rightarrow> pval_dev \<Rightarrow> pval_dev" where
  "set_tx_ring cpu r pdev =
     pdev\<lparr>pd_txmdevs := (pd_txmdevs pdev)[cpu := (pd_txmdevs pdev ! cpu)\<lparr>md_ring := r\<rparr>]\<rparr>"

definition set_rx_ring :: "nat \<Rightarrow> pval_ring \<Rightarrow> pval_dev \<Rightarrow> pval_dev" where
  "set_rx_ring cpu r pdev =
     pdev\<lparr>pd_rxmdevs := (pd_rxmdevs pdev)[cpu := (pd_rxmdevs pdev ! cpu)\<lparr>md_ring := r\<rparr>]\<rparr>"

record pval_worker =
  wk_skb :: sk_buff
  wk_ring :: nat  \<comment> \<open>the CPU whose transmit ring \<open>worker->ring\<close> points to\<close>
  wk_start :: u64

text \<open>
  A device in use: sixteen character devices per direction, and a well-formed ring in each
  of those that were initialised.
\<close>

definition pdev_inv :: "pval_dev \<Rightarrow> bool" where
  "pdev_inv pdev \<longleftrightarrow> pd_num_cpus pdev \<le> PVAL_MAX_CPUS \<and>
     length (pd_txmdevs pdev) = PVAL_MAX_CPUS \<and> length (pd_rxmdevs pdev) = PVAL_MAX_CPUS \<and>
     (\<forall>c < pd_num_cpus pdev. ring_inv (md_ring (pd_txmdevs pdev ! c)) \<and>
        ring_inv (md_ring (pd_rxmdevs pdev ! c)))"

lemma pdev_invD:
  assumes "pdev_inv pdev" and "c < pd_num_cpus pdev"
  shows "c < length (pd_txmdevs pdev)" and "c < length (pd_rxmdevs pdev)"
    and "ring_inv (md_ring (pd_txmdevs pdev ! c))" and "ring_inv (md_ring (pd_rxmdevs pdev ! c))"
    and "pdev_tx_pmdev pdev c = Some (pd_txmdevs pdev ! c)"
    and "pdev_rx_pmdev pdev c = Some (pd_rxmdevs pdev ! c)"
  using assms by (auto simp: pdev_inv_def pdev_tx_pmdev_def pdev_rx_pmdev_def nth_opt_def)

lemma set_tx_ring_simps [simp]:
  "pd_num_cpus (set_tx_ring c r pdev) = pd_num_cpus pdev"
  "pd_rxmdevs (set_tx_ring c r pdev) = pd_rxmdevs pdev"
  "length (pd_txmdevs (set_tx_ring c r pdev)) = length (pd_txmdevs pdev)"
  "pd_seq (set_tx_ring c r pdev) = pd_seq pdev"
  "i < length (pd_txmdevs pdev) \<Longrightarrow> pd_txmdevs (set_tx_ring c r pdev) ! i =
     (if i = c then (pd_txmdevs pdev ! c)\<lparr>md_ring := r\<rparr> else pd_txmdevs pdev ! i)"
  by (simp_all add: set_tx_ring_def)

lemma set_rx_ring_simps [simp]:
  "pd_num_cpus (set_rx_ring c r pdev) = pd_num_cpus pdev"
  "pd_txmdevs (set_rx_ring c r pdev) = pd_txmdevs pdev"
  "length (pd_rxmdevs (set_rx_ring c r pdev)) = length (pd_rxmdevs pdev)"
  "i < length (pd_rxmdevs pdev) \<Longrightarrow> pd_rxmdevs (set_rx_ring c r pdev) ! i =
     (if i = c then (pd_rxmdevs pdev ! c)\<lparr>md_ring := r\<rparr> else pd_rxmdevs pdev ! i)"
  by (simp_all add: set_rx_ring_def)

lemma pdev_inv_set_tx_ring:
  "pdev_inv pdev \<Longrightarrow> ring_inv r \<Longrightarrow> pdev_inv (set_tx_ring c r pdev)"
  by (auto simp: pdev_inv_def)

lemma pdev_inv_set_rx_ring:
  "pdev_inv pdev \<Longrightarrow> ring_inv r \<Longrightarrow> pdev_inv (set_rx_ring c r pdev)"
  by (auto simp: pdev_inv_def)

end
