(* ===== verification/Iproute_Utils.thy ===== *)
theory Iproute_Utils
  imports C_Numbers Pval_Dev
begin

text \<open>
  The helpers of \<open>iproute2-4.18.0/lib/utils.c\<close> that do not deal with addresses: numbers,
  interface names, abbreviations, hexadecimal strings, splitting a line into arguments, and
  the error exits. An argument that may be a null pointer is an option; \<open>errno\<close> says whether
  \<open>errno\<close> is \<open>ERANGE\<close> on entry.
\<close>

section \<open>Numbers\<close>

definition get_hex :: "char \<Rightarrow> int" where
  "get_hex c = (let n = of_char c :: int in
     if 65 \<le> n \<and> n \<le> 70 then n - 65 + 10
     else if 97 \<le> n \<and> n \<le> 102 then n - 97 + 10
     else if 48 \<le> n \<and> n \<le> 57 then n - 48 else - 1)"

text \<open>
  The body that the functions for signed and for unsigned numbers share: no argument,
  an empty one, no digits, trailing characters, overflow, and a value out of range are
  errors (\<open>None\<close>, for a result of \<open>-1\<close>).
\<close>

definition get_signed_range :: "int \<Rightarrow> int \<Rightarrow> bool \<Rightarrow> string option \<Rightarrow> nat \<Rightarrow> int option" where
  "get_signed_range lo hi errno arg base =
     (case arg of
        None \<Rightarrow> None
      | Some s \<Rightarrow>
          if s = [] then None
          else let (res, r, e) = strtol errno s base in
            if r = s \<or> r \<noteq> [] then None
            else if (res = LONG_MAX \<or> res = LONG_MIN) \<and> e then None
            else if res < lo \<or> res > hi then None
            else Some res)"

definition get_unsigned_range :: "nat \<Rightarrow> bool \<Rightarrow> string option \<Rightarrow> nat \<Rightarrow> nat option" where
  "get_unsigned_range hi errno arg base =
     (case arg of
        None \<Rightarrow> None
      | Some s \<Rightarrow>
          if s = [] then None
          else let (res, r, e) = strtoul errno s base in
            if r = s \<or> r \<noteq> [] then None
            else if res = ULONG_MAX \<and> e then None
            else if res > hi then None
            else Some res)"

definition get_integer :: "bool \<Rightarrow> string option \<Rightarrow> nat \<Rightarrow> int option" where
  "get_integer errno arg base = get_signed_range (- (2 ^ 31)) (2 ^ 31 - 1) errno arg base"

definition get_unsigned :: "bool \<Rightarrow> string option \<Rightarrow> nat \<Rightarrow> nat option" where
  "get_unsigned errno arg base = get_unsigned_range (2 ^ 32 - 1) errno arg base"

definition get_u64 :: "bool \<Rightarrow> string option \<Rightarrow> nat \<Rightarrow> u64 option" where
  "get_u64 errno arg base = map_option word_of_nat (get_unsigned_range (2 ^ 64 - 1) errno arg base)"

definition get_u32 :: "bool \<Rightarrow> string option \<Rightarrow> nat \<Rightarrow> u32 option" where
  "get_u32 errno arg base = map_option word_of_nat (get_unsigned_range (2 ^ 32 - 1) errno arg base)"

definition get_u16 :: "bool \<Rightarrow> string option \<Rightarrow> nat \<Rightarrow> u16 option" where
  "get_u16 errno arg base = map_option word_of_nat (get_unsigned_range (2 ^ 16 - 1) errno arg base)"

definition get_u8 :: "bool \<Rightarrow> string option \<Rightarrow> nat \<Rightarrow> u8 option" where
  "get_u8 errno arg base = map_option word_of_nat (get_unsigned_range (2 ^ 8 - 1) errno arg base)"

text \<open>Only \<open>get_s32\<close> resets \<open>errno\<close> first.\<close>

definition get_s32 :: "bool \<Rightarrow> string option \<Rightarrow> nat \<Rightarrow> int option" where
  "get_s32 errno arg base = get_signed_range (- (2 ^ 31)) (2 ^ 31 - 1) False arg base"

definition get_s16 :: "bool \<Rightarrow> string option \<Rightarrow> nat \<Rightarrow> int option" where
  "get_s16 errno arg base = get_signed_range (- 0x8000) 0x7FFF errno arg base"

definition get_s8 :: "bool \<Rightarrow> string option \<Rightarrow> nat \<Rightarrow> int option" where
  "get_s8 errno arg base = get_signed_range (- 0x80) 0x7F errno arg base"

text \<open>The results of these three are in network order: given as the bytes in memory.\<close>

definition get_be64 :: "bool \<Rightarrow> string option \<Rightarrow> nat \<Rightarrow> bytes option" where
  "get_be64 errno arg base = map_option (\<lambda>v. be_bytes 8 (unat v)) (get_u64 errno arg base)"

definition get_be32 :: "bool \<Rightarrow> string option \<Rightarrow> nat \<Rightarrow> bytes option" where
  "get_be32 errno arg base = map_option (\<lambda>v. be_bytes 4 (unat v)) (get_u32 errno arg base)"

definition get_be16 :: "bool \<Rightarrow> string option \<Rightarrow> nat \<Rightarrow> bytes option" where
  "get_be16 errno arg base = map_option (\<lambda>v. be_bytes 2 (unat v)) (get_u16 errno arg base)"

section \<open>Names and words\<close>

definition check_ifname :: "string \<Rightarrow> int" where
  "check_ifname name =
     (if name = [] then - 1
      else if length name \<ge> IFNAMSIZ then - 1
      else if list_ex (\<lambda>c. c = CHR ''/'' \<or> c_isspace c) name then - 1
      else 0)"

text \<open>\<open>strncpy\<close> into a buffer of \<open>IFNAMSIZ\<close> bytes pads with zeros.\<close>

definition get_ifname :: "string \<Rightarrow> int \<times> bytes option" where
  "get_ifname name =
     (let ret = check_ifname name in
      (ret, if ret = 0 then Some (take IFNAMSIZ (map of_char name @ replicate IFNAMSIZ 0)) else None))"

text \<open>\<open>matches\<close> returns zero exactly for a match; the sign of \<open>memcmp\<close> is not used.\<close>

definition matches :: "string \<Rightarrow> string \<Rightarrow> bool" where
  "matches cmd pat \<longleftrightarrow> length cmd \<le> length pat \<and> take (length cmd) pat = cmd"

section \<open>Hexadecimal strings\<close>

text \<open>\<open>hexstring_n2a\<close> into a buffer of \<open>blen\<close> bytes: stops while there is room for the
  terminating zero.\<close>

fun hexstring_n2a :: "bytes \<Rightarrow> nat \<Rightarrow> string" where
  "hexstring_n2a [] blen = []"
| "hexstring_n2a (b # bs) blen = (if blen < 3 then [] else hex02 b @ hexstring_n2a bs (blen - 2))"

text \<open>The result of \<open>strtoul\<close> is cut to an \<open>unsigned int\<close>; \<open>errno\<close> is reset for each byte.\<close>

fun a2n_loop :: "string \<Rightarrow> nat \<Rightarrow> bytes option" where
  "a2n_loop (x # y # r) (Suc blen) =
     (let (tmp, endp, e) = strtoul False [x, y] 16 in
      if e \<or> tmp mod 2 ^ 32 > 0xFF \<or> endp \<noteq> [] then None
      else map_option ((#) (word_of_nat (tmp mod 2 ^ 32))) (a2n_loop r blen))"
| "a2n_loop _ _ = Some []"

definition hexstring_a2n :: "string \<Rightarrow> nat \<Rightarrow> bytes option" where
  "hexstring_a2n str blen = (if odd (length str) then None else a2n_loop str blen)"

text \<open>\<open>hex2mem\<close>; the terminating zero of a string that is too short is no digit.\<close>

fun hex2mem :: "string \<Rightarrow> nat \<Rightarrow> bytes option" where
  "hex2mem buf 0 = Some []"
| "hex2mem (x # y # r) (Suc n) =
     (if get_hex x < 0 then None
      else if get_hex y < 0 then None
      else map_option ((#) (push_bit 4 (word_of_int (get_hex x)) OR word_of_int (get_hex y))) (hex2mem r n))"
| "hex2mem _ (Suc n) = None"

section \<open>Splitting a line\<close>

definition is_ws :: "char \<Rightarrow> bool" where
  "is_ws c \<longleftrightarrow> c \<in> {CHR '' '', CHR 0x09, CHR 0x0D, CHR 0x0A}"

datatype 'a exits = Ret 'a | Exit int string

text \<open>The loop of \<open>makeargs\<close>: the arguments found from \<open>cp\<close> on, with \<open>argc\<close> so far.\<close>

function makeargs_loop :: "nat \<Rightarrow> nat \<Rightarrow> string \<Rightarrow> string list exits" where
  "makeargs_loop maxargs argc cp =
     (case dropWhile is_ws cp of
        [] \<Rightarrow> Ret []
      | c # r \<Rightarrow>
          if int argc \<ge> int maxargs - 1 then Exit 1 ''Too many arguments to command''
          else if c = CHR 0x27 \<or> c = CHR 0x22 then
            if c \<notin> set r then Exit 1 ''Unterminated quoted string''
            else map_exits ((#) (takeWhile (\<lambda>x. x \<noteq> c) r))
                   (makeargs_loop maxargs (Suc argc) (drop (Suc (length (takeWhile (\<lambda>x. x \<noteq> c) r))) r))
          else
            let w = takeWhile (\<lambda>x. \<not> is_ws x) (c # r) in
            if drop (length w) (c # r) = [] then Ret [w]
            else map_exits ((#) w) (makeargs_loop maxargs (Suc argc) (drop (Suc (length w)) (c # r))))"
  by pat_completeness auto
termination
proof (relation "measure (\<lambda>(maxargs, argc, cp). length cp)", goal_cases)
  case (2 maxargs argc cp c r)
  then have "length (c # r) \<le> length cp" by (metis length_dropWhile_le)
  then show ?case by simp
next
  case (3 maxargs argc cp c r w)
  then have "length (c # r) \<le> length cp" by (metis length_dropWhile_le)
  then show ?case by simp
qed simp

declare makeargs_loop.simps [simp del]

definition makeargs :: "string \<Rightarrow> nat \<Rightarrow> string list exits" where
  "makeargs line maxargs = makeargs_loop maxargs 0 line"

section \<open>Other helpers\<close>

text \<open>\<open>get_guid\<close>: eight groups of two hexadecimal digits.\<close>

fun guid_loop :: "nat \<Rightarrow> nat \<Rightarrow> string \<Rightarrow> u64 \<Rightarrow> u64 option" where
  "guid_loop 0 i arg guid = Some guid"
| "guid_loop (Suc k) i arg guid =
     (let (tmp, endp, e) = strtoul False (drop (3 * i) arg) 16 in
      if endp \<noteq> drop (3 * i + 2) arg then None
      else if tmp > 255 then None
      else guid_loop k (Suc i) arg (guid OR push_bit (56 - 8 * i) (word_of_nat tmp)))"

definition get_guid :: "string \<Rightarrow> u64 option" where
  "get_guid arg =
     (if length arg \<noteq> 23 then None
      else if list_ex (\<lambda>i. arg ! (2 + 3 * i) \<noteq> CHR '':'') [0..<7] then None
      else guid_loop 8 0 arg 0)"

text \<open>\<open>strlcpy\<close> and \<open>strlcat\<close>: the string left in a buffer of \<open>sz\<close> bytes and the
  length it tried to create; with size zero the buffer is not touched.\<close>

definition strlcpy :: "string \<Rightarrow> string \<Rightarrow> nat \<Rightarrow> string \<times> nat" where
  "strlcpy dst src sz = (if sz = 0 then dst else take (min (length src) (sz - 1)) src, length src)"

definition strlcat :: "string \<Rightarrow> string \<Rightarrow> nat \<Rightarrow> string \<times> nat" where
  "strlcat dst src sz =
     (if length dst \<ge> sz then (dst, length dst + length src)
      else let (tail, n) = strlcpy [] src (sz - length dst) in (dst @ tail, length dst + n))"

text \<open>\<open>print_escape_buf\<close>: what is printed. A zero byte is not printable, so the terminator that
  \<open>strchr\<close> would find does not matter.\<close>

definition print_escape_buf :: "bytes \<Rightarrow> string \<Rightarrow> string" where
  "print_escape_buf buf escape = concat (map (\<lambda>b.
     if 32 \<le> b \<and> b \<le> 126 \<and> b \<noteq> 92 \<and> char_of (unat b) \<notin> set escape then [char_of (unat b)]
     else char_of (92 :: nat) # map digit_char [unat b div 64, unat b div 8 mod 8, unat b mod 8]) buf)"

section \<open>Leaving the program\<close>

definition quote :: "string \<Rightarrow> string" where
  "quote s = CHR 0x22 # s @ [CHR 0x22]"

definition incomplete_command :: "'a exits" where
  "incomplete_command = Exit (- 1) (''Command line is not complete. Try option '' @ quote ''help'')"

definition missarg :: "string \<Rightarrow> 'a exits" where
  "missarg key = Exit (- 1) (''Error: argument '' @ quote key @ '' is required'')"

definition invarg :: "string \<Rightarrow> string \<Rightarrow> 'a exits" where
  "invarg msg arg = Exit (- 1) (''Error: argument '' @ quote arg @ '' is wrong: '' @ msg)"

definition duparg :: "string \<Rightarrow> string \<Rightarrow> 'a exits" where
  "duparg key arg = Exit (- 1)
     (''Error: duplicate '' @ quote key @ '': '' @ quote arg @ '' is the second value.'')"

definition duparg2 :: "string \<Rightarrow> string \<Rightarrow> 'a exits" where
  "duparg2 key arg = Exit (- 1)
     (''Error: either '' @ quote key @ '' is duplicate, or '' @ quote arg @ '' is a garbage.'')"

end
