(* ===== verification/Iproute_Addr.thy ===== *)
theory Iproute_Addr
  imports Iproute_Utils "HOL-Library.Monad_Syntax"
begin

text \<open>
  Addresses and prefixes of \<open>iproute2-4.18.0/lib\<close>: the address parts of \<open>utils.c\<close>, and the
  parsers and printers of link-layer, DECnet, MPLS and IPX addresses. Only \<open>inet_pton\<close> and
  \<open>inet_ntop\<close> for IPv6 belong to the C library and are arguments (\<open>pton6\<close>, \<open>ntop6\<close>).
\<close>

section \<open>IPv4 and 64-bit addresses\<close>

text \<open>The loop of \<open>get_addr_ipv4\<close> at byte \<open>i\<close>: the bytes stored, or \<open>None\<close> for \<open>-1\<close>.
  \<open>errno\<close> is not looked at.\<close>

function ipv4_loop :: "nat \<Rightarrow> string \<Rightarrow> bytes option" where
  "ipv4_loop i cp =
     (if i \<ge> 4 then Some []
      else let (n, endp, e) = strtoul False cp 0 in
        if n > 255 then None
        else if endp = cp then None
        else case endp of
               [] \<Rightarrow> Some [word_of_nat n]
             | c # rest \<Rightarrow>
                 if i = 3 \<or> c \<noteq> CHR ''.'' then None
                 else map_option ((#) (word_of_nat n)) (ipv4_loop (Suc i) rest))"
  by pat_completeness auto
termination
  by (relation "measure (\<lambda>(i, cp). 4 - i)") auto

declare ipv4_loop.simps [simp del]

definition get_addr_ipv4 :: "string \<Rightarrow> bytes option" where
  "get_addr_ipv4 cp = ipv4_loop 0 cp"

function addr64_loop :: "nat \<Rightarrow> string \<Rightarrow> bytes option" where
  "addr64_loop i cp =
     (if i \<ge> 4 then Some []
      else let (n, endp, e) = strtoul False cp 16 in
        if n > 0xFFFF then None
        else if endp = cp then None
        else case endp of
               [] \<Rightarrow> Some (be_bytes 2 n)
             | c # rest \<Rightarrow>
                 if i = 3 \<or> c \<noteq> CHR '':'' then None
                 else map_option (\<lambda>bs. be_bytes 2 n @ bs) (addr64_loop (Suc i) rest))"
  by pat_completeness auto
termination
  by (relation "measure (\<lambda>(i, cp). 4 - i)") auto

declare addr64_loop.simps [simp del]

text \<open>The union the groups are stored in is not initialised: with fewer than four groups the
  rest of the result is \<open>old\<close>, whatever was there.\<close>

definition get_addr64 :: "bytes \<Rightarrow> string \<Rightarrow> bytes option" where
  "get_addr64 old cp = map_option (\<lambda>bs. bs @ drop (length bs) old) (addr64_loop 0 cp)"

text \<open>\<open>addr64_n2a\<close> on the eight bytes in memory. \<open>written\<close> counts what \<open>snprintf\<close> would have
  written; once it exceeds \<open>len\<close> the room \<open>len - written\<close> wraps around and the next call
  stores outside the buffer (\<open>None\<close>).\<close>

fun n2a64_loop :: "nat list \<Rightarrow> nat \<Rightarrow> nat \<Rightarrow> string \<Rightarrow> (string \<times> nat) option" where
  "n2a64_loop [] len written out = Some (out, written)"
| "n2a64_loop (v # vs) len written out =
     (let s = hexs v @ (if vs = [] then [] else '':'') in
      if written > len then None
      else n2a64_loop vs len (written + length s) (out @ take (len - written - 1) s))"

definition addr64_n2a :: "bytes \<Rightarrow> nat \<Rightarrow> (string \<times> nat) option" where
  "addr64_n2a addr len =
     n2a64_loop (map (\<lambda>i. be_val (take 2 (drop (2 * i) addr))) [0, 1, 2, 3]) len 0 []"

section \<open>Prefixes\<close>

datatype family =
  AF_UNSPEC | AF_INET | AF_IPX | AF_BRIDGE | AF_INET6 | AF_DECnet | AF_PACKET | AF_MPLS

definition PREFIXLEN_SPECIFIED :: u16 where "PREFIXLEN_SPECIFIED = 1"
definition ADDRTYPE_INET :: u16 where "ADDRTYPE_INET = 2"
definition ADDRTYPE_UNSPEC :: u16 where "ADDRTYPE_UNSPEC = 4"
definition ADDRTYPE_MULTI :: u16 where "ADDRTYPE_MULTI = 8"
definition ADDRTYPE_INET_UNSPEC :: u16 where "ADDRTYPE_INET_UNSPEC = ADDRTYPE_INET OR ADDRTYPE_UNSPEC"
definition ADDRTYPE_INET_MULTI :: u16 where "ADDRTYPE_INET_MULTI = ADDRTYPE_INET OR ADDRTYPE_MULTI"

text \<open>\<open>data\<close> is the array of 64 words, as its 256 bytes in memory.\<close>

record inet_prefix =
  px_flags :: u16
  px_bytelen :: nat
  px_bitlen :: int
  px_family :: family
  px_data :: bytes

definition zero_prefix :: inet_prefix where
  "zero_prefix = \<lparr>px_flags = 0, px_bytelen = 0, px_bitlen = 0, px_family = AF_UNSPEC,
     px_data = replicate 256 0\<rparr>"

definition put_data :: "bytes \<Rightarrow> inet_prefix \<Rightarrow> inet_prefix" where
  "put_data bs a = a\<lparr>px_data := bs @ drop (length bs) (px_data a)\<rparr>"

definition is_addrtype_inet :: "inet_prefix \<Rightarrow> bool" where
  "is_addrtype_inet p \<longleftrightarrow> px_flags p AND ADDRTYPE_INET \<noteq> 0"

definition is_addrtype_inet_unspec :: "inet_prefix \<Rightarrow> bool" where
  "is_addrtype_inet_unspec p \<longleftrightarrow> px_flags p AND ADDRTYPE_INET_UNSPEC = ADDRTYPE_INET_UNSPEC"

definition is_addrtype_inet_multi :: "inet_prefix \<Rightarrow> bool" where
  "is_addrtype_inet_multi p \<longleftrightarrow> px_flags p AND ADDRTYPE_INET_MULTI = ADDRTYPE_INET_MULTI"

definition is_addrtype_inet_not_unspec :: "inet_prefix \<Rightarrow> bool" where
  "is_addrtype_inet_not_unspec p \<longleftrightarrow> px_flags p AND ADDRTYPE_INET_UNSPEC = ADDRTYPE_INET"

definition is_addrtype_inet_not_multi :: "inet_prefix \<Rightarrow> bool" where
  "is_addrtype_inet_not_multi p \<longleftrightarrow> px_flags p AND ADDRTYPE_INET_MULTI = ADDRTYPE_INET"

fun af_bit_len :: "family \<Rightarrow> nat" where
  "af_bit_len AF_INET6 = 128"
| "af_bit_len AF_INET = 32"
| "af_bit_len AF_DECnet = 16"
| "af_bit_len AF_IPX = 80"
| "af_bit_len AF_MPLS = 20"
| "af_bit_len _ = 0"

definition af_byte_len :: "family \<Rightarrow> nat" where
  "af_byte_len af = af_bit_len af div 8"

definition IN_MULTICAST :: "nat \<Rightarrow> bool" where
  "IN_MULTICAST a \<longleftrightarrow> a div 2 ^ 28 = 0xE"

definition set_address_type :: "inet_prefix \<Rightarrow> inet_prefix" where
  "set_address_type a =
     (let add = (\<lambda>f. a\<lparr>px_flags := px_flags a OR f\<rparr>) in
      case px_family a of
        AF_INET \<Rightarrow>
          if take 4 (px_data a) = replicate 4 0 then add ADDRTYPE_INET_UNSPEC
          else if IN_MULTICAST (be_val (take 4 (px_data a))) then add ADDRTYPE_INET_MULTI
          else add ADDRTYPE_INET
      | AF_INET6 \<Rightarrow>
          if take 16 (px_data a) = replicate 16 0 then add ADDRTYPE_INET_UNSPEC
          else if take 1 (px_data a) = [0xFF] then add ADDRTYPE_INET_MULTI
          else add ADDRTYPE_INET
      | _ \<Rightarrow> a)"

section \<open>DECnet\<close>

text \<open>Number of digits and value, which wraps around at 16 bits.\<close>

fun dnet_num :: "string \<Rightarrow> nat \<Rightarrow> u16 \<Rightarrow> nat \<times> u16" where
  "dnet_num [] rv dst = (rv, dst)"
| "dnet_num (c # cs) rv dst =
     (if is_digit c then dnet_num cs (Suc rv) (dst * 10 + word_of_nat (digit_val c)) else (rv, dst))"

definition dn_htons :: "u16 \<Rightarrow> u16" where
  "dn_htons w = (let bs = le_bytes 2 (unat w) in ucast (bs ! 0) OR push_bit 8 (ucast (bs ! 1)))"

text \<open>The two bytes of \<open>a_addr\<close>; what follows the digits of the node is not looked at.\<close>

definition dnet_pton1 :: "string \<Rightarrow> bytes option" where
  "dnet_pton1 src =
     (let (pos, area) = dnet_num src 0 0 in
      if pos = 0 \<or> area > 63 \<or> take 1 (drop pos src) \<noteq> ''.'' then None
      else let (pos2, node) = dnet_num (drop (pos + 1) src) 0 0 in
        if pos2 = 0 \<or> node > 1023 then None
        else Some (le_bytes 2 (unat (dn_htons (push_bit 10 area OR node)))))"

definition dnet_pton :: "family \<Rightarrow> string \<Rightarrow> int \<times> bytes option" where
  "dnet_pton af src =
     (if af = AF_DECnet then case dnet_pton1 src of None \<Rightarrow> (0, None) | Some a \<Rightarrow> (1, Some a)
      else (- 1, None))"

text \<open>\<open>do_digit\<close>: whether the buffer is full, what it holds, what is left of the number, and
  whether a digit has been printed.\<close>

definition do_digit :: "string \<Rightarrow> u16 \<Rightarrow> u16 \<Rightarrow> nat \<Rightarrow> bool \<Rightarrow> bool \<times> string \<times> u16 \<times> bool" where
  "do_digit str addr scale len started =
     (let tmp = addr div scale in
      if length str = len then (True, str, addr, started)
      else if tmp > 0 \<or> started \<or> scale = 1
      then (False, str @ [char_of (unat tmp + 48)], addr - tmp * scale, True)
      else (False, str, addr, started))"

fun do_digits :: "u16 list \<Rightarrow> string \<Rightarrow> u16 \<Rightarrow> nat \<Rightarrow> bool \<Rightarrow> bool \<times> string" where
  "do_digits [] str addr len started = (False, str)"
| "do_digits (scale # ss) str addr len started =
     (let (full, str', addr', started') = do_digit str addr scale len started in
      if full then (True, str') else do_digits ss str' addr' len started')"

text \<open>\<open>dnet_ntop1\<close>: the characters stored and whether a terminating zero follows.\<close>

definition dnet_ntop1 :: "nat \<Rightarrow> bytes \<Rightarrow> nat \<Rightarrow> (string \<times> bool) option" where
  "dnet_ntop1 a_len a_addr len =
     (let addr0 = dn_htons (word_of_nat (le_val a_addr)); area = drop_bit 10 addr0; addr = addr0 AND 0x3FF in
      if a_len \<noteq> 2 then None
      else if len = 0 then Some ([], False)
      else let (full1, s1) = do_digits [10, 1] [] area len False in
        if full1 then Some (s1, False)
        else if length s1 = len then Some (s1, False)
        else let (full2, s2) = do_digits [1000, 100, 10, 1] (s1 @ ''.'') addr len False in
          if full2 then Some (s2, False)
          else Some (s2, length s2 \<noteq> len))"

definition dnet_ntop :: "family \<Rightarrow> nat \<Rightarrow> bytes \<Rightarrow> nat \<Rightarrow> (string \<times> bool) option" where
  "dnet_ntop af a_len a_addr len = (if af = AF_DECnet then dnet_ntop1 a_len a_addr len else None)"

section \<open>MPLS\<close>

definition MPLS_LS_LABEL_SHIFT :: nat where "MPLS_LS_LABEL_SHIFT = 12"
definition MPLS_LS_S_SHIFT :: nat where "MPLS_LS_S_SHIFT = 8"

fun mpls_pton1 :: "string \<Rightarrow> nat \<Rightarrow> bytes option" where
  "mpls_pton1 name 0 = None"
| "mpls_pton1 name (Suc k) =
     (let (label, endp, e) = strtoul False name 0 in
      if label \<ge> 2 ^ 20 then None
      else if endp = name then None
      else case endp of
             [] \<Rightarrow> Some (be_bytes 4 (label * 2 ^ MPLS_LS_LABEL_SHIFT + 2 ^ MPLS_LS_S_SHIFT))
           | c # rest \<Rightarrow>
               if c \<noteq> CHR ''/'' then None
               else map_option (\<lambda>bs. be_bytes 4 (label * 2 ^ MPLS_LS_LABEL_SHIFT) @ bs)
                      (mpls_pton1 rest k))"

definition mpls_pton :: "family \<Rightarrow> string \<Rightarrow> nat \<Rightarrow> int \<times> bytes option" where
  "mpls_pton af src alen =
     (if af = AF_MPLS then
        case mpls_pton1 src (alen div 4) of None \<Rightarrow> (0, None) | Some a \<Rightarrow> (1, Some a)
      else (- 1, None))"

definition mpls_s_bit :: "bytes \<Rightarrow> bool" where
  "mpls_s_bit w \<longleftrightarrow> odd (be_val w div 2 ^ MPLS_LS_S_SHIFT)"

text \<open>\<open>mpls_ntop1\<close> over the memory at \<open>addr\<close>: it only stops at the bottom of the stack or when
  the buffer is full; \<open>None\<close> is a read behind the memory, \<open>Some None\<close> the result \<open>NULL\<close>.\<close>

function mpls_ntop1 :: "bytes \<Rightarrow> nat \<Rightarrow> string \<Rightarrow> string option option" where
  "mpls_ntop1 addr destlen out =
     (if length addr < 4 then None
      else let entry = take 4 addr;
               s = dec (be_val entry div 2 ^ MPLS_LS_LABEL_SHIFT)
        in if length s \<ge> destlen then Some None
           else if mpls_s_bit entry then Some (Some (out @ s))
           else mpls_ntop1 (drop 4 addr) (destlen - length s - 1) (out @ s @ ''/''))"
  by pat_completeness auto
termination
  by (relation "measure (\<lambda>(addr, destlen, out). length addr)") auto

declare mpls_ntop1.simps [simp del]

definition mpls_ntop :: "family \<Rightarrow> bytes \<Rightarrow> nat \<Rightarrow> string option option" where
  "mpls_ntop af addr buflen = (if af = AF_MPLS then mpls_ntop1 addr buflen [] else Some None)"

section \<open>IPX\<close>

fun ipx_getnet :: "nat \<Rightarrow> string \<Rightarrow> u32 \<Rightarrow> u32 option" where
  "ipx_getnet i [] net = Some net"
| "ipx_getnet 0 (c # cs) net = None"
| "ipx_getnet (Suc i) (c # cs) net =
     (if get_hex c = - 1 then if c = CHR ''.'' then Some net else None
      else ipx_getnet i cs (push_bit 4 net OR word_of_int (get_hex c)))"

fun ipx_getnode :: "nat \<Rightarrow> string \<Rightarrow> bytes option" where
  "ipx_getnode 0 str = Some []"
| "ipx_getnode (Suc i) (x # y # r) =
     (if get_hex x = - 1 then None
      else if get_hex y = - 1 then None
      else map_option ((#) (push_bit 4 (word_of_int (get_hex x)) OR word_of_int (get_hex y)))
             (ipx_getnode i (case r of c # r' \<Rightarrow> if c = CHR '':'' then r' else r | [] \<Rightarrow> r)))"
| "ipx_getnode (Suc i) _ = None"

text \<open>The ten bytes of \<open>struct ipx_addr\<close>: network and node.\<close>

definition ipx_pton1 :: "string \<Rightarrow> bytes option" where
  "ipx_pton1 src =
     (let sep = dropWhile (\<lambda>c. c \<noteq> CHR ''.'') src in do {
        net \<leftarrow> ipx_getnet 8 src 0;
        if sep = [] then Some (be_bytes 4 (unat net) @ replicate 6 0)
        else do {
          node \<leftarrow> ipx_getnode 6 (tl sep);
          Some (be_bytes 4 (unat net) @ node)
        }
      })"

definition ipx_pton :: "family \<Rightarrow> string \<Rightarrow> int \<times> bytes option" where
  "ipx_pton af src =
     (if af = AF_IPX then case ipx_pton1 src of None \<Rightarrow> (0, None) | Some a \<Rightarrow> (1, Some a)
      else (- 1, None))"

definition ipx_digit :: "nat \<Rightarrow> nat \<Rightarrow> char" where
  "ipx_digit addr scale =
     (let tmp = addr div 2 ^ (scale * 4) mod 16 in
      if tmp > 9 then char_of (tmp + 65 - 10) else char_of (tmp + 48))"

text \<open>\<open>ipx_ntop1\<close> stores these characters one by one until the buffer is full; the second
  component says whether there was room for the terminating zero.\<close>

definition ipx_ntop1 :: "bytes \<Rightarrow> nat \<Rightarrow> string \<times> bool" where
  "ipx_ntop1 addr len =
     (let out = map (ipx_digit (be_val (take 4 addr))) [7, 6, 5, 4, 3, 2, 1, 0] @ ''.'' @
                concat (map (\<lambda>b. [ipx_digit (unat b) 1, ipx_digit (unat b) 0]) (take 6 (drop 4 addr)))
      in (take len out, length out < len))"

definition ipx_ntop :: "family \<Rightarrow> bytes \<Rightarrow> nat \<Rightarrow> (string \<times> bool) option" where
  "ipx_ntop af addr len = (if af = AF_IPX then Some (ipx_ntop1 addr len) else None)"

section \<open>Addresses of any family\<close>

definition mpls_bytelen :: "bytes \<Rightarrow> nat" where
  "mpls_bytelen data =
     (case List.find (\<lambda>i. mpls_s_bit (take 4 (drop (4 * i) data))) [0..<64] of
        None \<Rightarrow> 4 | Some i \<Rightarrow> (i + 1) * 4)"

text \<open>
  \<open>__get_addr_1\<close>. The parser \<open>ll\<close> of link-layer addresses, with the size of the memory it
  fills and its result of a length and the bytes stored, is an argument because it calls
  \<open>get_addr_1\<close> itself, for an IPv4 address.
\<close>

definition get_addr_1_with ::
    "(nat \<Rightarrow> string \<Rightarrow> (int \<times> bytes) option) \<Rightarrow> (string \<Rightarrow> bytes option) \<Rightarrow> string \<Rightarrow> family \<Rightarrow>
     inet_prefix option" where
  "get_addr_1_with ll pton6 name fam =
     (if name = ''default'' then
        if fam = AF_DECnet \<or> fam = AF_MPLS then None
        else Some (zero_prefix\<lparr>px_family := fam, px_bytelen := af_byte_len fam, px_bitlen := - 2,
                               px_flags := PREFIXLEN_SPECIFIED\<rparr>)
      else if name = ''all'' \<or> name = ''any'' then
        if fam = AF_DECnet \<or> fam = AF_MPLS then None
        else Some (zero_prefix\<lparr>px_family := fam, px_bytelen := 0, px_bitlen := - 2\<rparr>)
      else if fam = AF_PACKET then do {
        (len, bs) \<leftarrow> ll 256 name;
        Some (put_data bs (zero_prefix\<lparr>px_family := AF_PACKET, px_bytelen := nat len,
                                       px_bitlen := len * 8\<rparr>))
      }
      else if CHR '':'' \<in> set name then
        if fam \<noteq> AF_UNSPEC \<and> fam \<noteq> AF_INET6 then None
        else do {
          bs \<leftarrow> pton6 name;
          Some (put_data bs (zero_prefix\<lparr>px_family := AF_INET6, px_bytelen := 16, px_bitlen := - 1\<rparr>))
        }
      else if fam = AF_DECnet then do {
        bs \<leftarrow> snd (dnet_pton AF_DECnet name);
        Some (put_data bs (zero_prefix\<lparr>px_family := AF_DECnet, px_bytelen := 2, px_bitlen := - 1\<rparr>))
      }
      else if fam = AF_MPLS then do {
        bs \<leftarrow> snd (mpls_pton AF_MPLS name 256);
        let a = put_data bs (zero_prefix\<lparr>px_family := AF_MPLS, px_bitlen := 20\<rparr>);
        Some (a\<lparr>px_bytelen := mpls_bytelen (px_data a)\<rparr>)
      }
      else if fam \<noteq> AF_UNSPEC \<and> fam \<noteq> AF_INET then None
      else do {
        bs \<leftarrow> get_addr_ipv4 name;
        Some (put_data bs (zero_prefix\<lparr>px_family := AF_INET, px_bytelen := 4, px_bitlen := - 1\<rparr>))
      })"

text \<open>\<open>sscanf\<close> with \<open>%x\<close> into an \<open>int\<close>: the number is cut to 32 bits, what follows it is not
  looked at, and a prefix \<open>0x\<close> without digits does not match.\<close>

definition scan_hex :: "string \<Rightarrow> int option" where
  "scan_hex s =
     (let t = dropWhile c_isspace s;
          u = (if take 1 t \<in> {''-'', ''+''} then drop 1 t else t)
      in if take 2 u \<in> {''0x'', ''0X''} \<and> list_all (\<lambda>c. 16 \<le> digit_of c) (take 1 (drop 2 u)) then None
         else if scan_number 16 s = None then None
         else Some (sint (word_of_nat (fst (strtoul False s 16)) :: 32 word)))"

text \<open>The loop of \<open>ll_addr_a2n\<close>, with the number of bytes still to fill: the final value of
  \<open>i\<close>, counted from here, plus one, and the bytes stored. When all bytes are filled and the
  text goes on, the loop ends by its bound and the result is one more than was stored.\<close>

fun ll_loop :: "nat \<Rightarrow> string \<Rightarrow> (int \<times> bytes) option" where
  "ll_loop 0 arg = Some (1, [])"
| "ll_loop (Suc k) arg =
     (let w = takeWhile (\<lambda>c. c \<noteq> CHR '':'') arg in
      case scan_hex w of
        None \<Rightarrow> None
      | Some temp \<Rightarrow>
          if temp < 0 \<or> temp > 255 then None
          else if CHR '':'' \<notin> set arg then Some (1, [word_of_int temp])
          else map_option (\<lambda>(n, bs). (n + 1, word_of_int temp # bs))
                 (ll_loop k (drop (Suc (length w)) arg)))"

definition ll_addr_a2n :: "(string \<Rightarrow> bytes option) \<Rightarrow> nat \<Rightarrow> string \<Rightarrow> (int \<times> bytes) option" where
  "ll_addr_a2n pton6 len arg =
     (if CHR ''.'' \<in> set arg then
        case map_option set_address_type (get_addr_1_with (\<lambda>_ _. None) pton6 arg AF_INET) of
          None \<Rightarrow> None
        | Some pfx \<Rightarrow> if len < 4 then None else Some (4, take 4 (px_data pfx))
      else ll_loop len arg)"

definition get_addr_1 :: "(string \<Rightarrow> bytes option) \<Rightarrow> string \<Rightarrow> family \<Rightarrow> inet_prefix option" where
  "get_addr_1 pton6 name fam =
     map_option set_address_type (get_addr_1_with (ll_addr_a2n pton6) pton6 name fam)"

datatype arphrd = ARPHRD_TUNNEL | ARPHRD_SIT | ARPHRD_IPGRE | ARPHRD_TUNNEL6 | ARPHRD_IP6GRE | ARPHRD_OTHER

fun n2a_tail :: "bytes \<Rightarrow> nat \<Rightarrow> nat \<Rightarrow> string" where
  "n2a_tail [] l blen = []"
| "n2a_tail (b # bs) l blen =
     (if l < blen then take (blen - l - 1) ('':'' @ hex02 b) @ n2a_tail bs (l + 3) blen else [])"

definition inet_ntop4 :: "bytes \<Rightarrow> string" where
  "inet_ntop4 a = dec (unat (a ! 0)) @ ''.'' @ dec (unat (a ! 1)) @ ''.'' @ dec (unat (a ! 2)) @ ''.'' @
     dec (unat (a ! 3))"

text \<open>The text in the buffer; \<open>None\<close> is the null pointer of \<open>inet_ntop\<close> for a buffer that is too
  small, or a read of the first byte of an empty address.\<close>

definition ll_addr_n2a ::
    "(bytes \<Rightarrow> nat \<Rightarrow> string option) \<Rightarrow> bytes \<Rightarrow> arphrd \<Rightarrow> nat \<Rightarrow> string option" where
  "ll_addr_n2a ntop6 addr type blen =
     (if length addr = 4 \<and> type \<in> {ARPHRD_TUNNEL, ARPHRD_SIT, ARPHRD_IPGRE} then
        if length (inet_ntop4 addr) < blen then Some (inet_ntop4 addr) else None
      else if length addr = 16 \<and> type \<in> {ARPHRD_TUNNEL6, ARPHRD_IP6GRE} then ntop6 addr blen
      else case addr of
             [] \<Rightarrow> None
           | b # bs \<Rightarrow> Some (take (blen - 1) (hex02 b) @ n2a_tail bs 2 blen))"

end
