(* ===== verification/Iproute_Prefix.thy ===== *)
theory Iproute_Prefix
  imports Iproute_Addr
begin

text \<open>
  Prefixes, masks and families of \<open>iproute2-4.18.0/lib/utils.c\<close>: \<open>mask2bits\<close>, \<open>get_netmask\<close>,
  \<open>get_prefix_1\<close>, addresses in attributes, and the comparison of addresses.
\<close>

section \<open>Masks\<close>

lemma shl_least_decreases:
  assumes "m \<noteq> (0 :: u32)"
  shows "(LEAST n. push_bit n (push_bit 1 m) = 0) < (LEAST n. push_bit n m = 0)"
proof -
  let ?k = "LEAST n. push_bit n m = 0"
  have "push_bit 32 m = 0" by (rule bit_word_eqI) (simp add: bit_push_bit_iff)
  then have k: "push_bit ?k m = 0" by (rule LeastI)
  with assms have "?k \<noteq> 0" by (metis push_bit_0_id id_apply)
  then obtain j where j: "?k = Suc j" by (cases ?k) auto
  with k have "push_bit j (push_bit 1 m) = 0" by simp
  then have "(LEAST n. push_bit n (push_bit 1 m) = 0) \<le> j" by (rule Least_le)
  with j show ?thesis by simp
qed

function shl_count :: "u32 \<Rightarrow> nat \<Rightarrow> nat" where
  "shl_count m bits = (if m = 0 then bits else shl_count (push_bit 1 m) (Suc bits))"
  by pat_completeness auto
termination
  by (relation "measure (\<lambda>(m, bits). LEAST n. push_bit n m = 0)") (use shl_least_decreases in auto)

declare shl_count.simps [simp del]

text \<open>The argument is the word as its four bytes in memory, which are in network order.\<close>

definition mask2bits :: "bytes \<Rightarrow> int" where
  "mask2bits netmask =
     (let m = word_of_nat (be_val netmask) :: u32; host = NOT m in
      if host AND (host + 1) \<noteq> 0 then - 1 else int (shl_count m 0))"

text \<open>\<open>errno\<close> on entry only matters to \<open>get_unsigned\<close>.\<close>

definition get_netmask :: "(string \<Rightarrow> bytes option) \<Rightarrow> bool \<Rightarrow> string \<Rightarrow> nat \<Rightarrow> nat option" where
  "get_netmask pton6 errno arg base =
     (case get_unsigned errno (Some arg) base of
        Some v \<Rightarrow> Some v
      | None \<Rightarrow>
          (case get_addr_1 pton6 arg AF_INET of
             None \<Rightarrow> None
           | Some a \<Rightarrow>
               if px_family a = AF_INET then
                 let b = mask2bits (take 4 (px_data a)) in if b \<ge> 0 then Some (nat b) else None
               else None))"

definition get_prefix_1 ::
    "(string \<Rightarrow> bytes option) \<Rightarrow> bool \<Rightarrow> string \<Rightarrow> family \<Rightarrow> inet_prefix option" where
  "get_prefix_1 pton6 errno arg fam =
     (let slash = CHR ''/'' \<in> set arg;
          name = takeWhile (\<lambda>c. c \<noteq> CHR ''/'') arg
      in case get_addr_1 pton6 name fam of
           None \<Rightarrow> None
         | Some dst \<Rightarrow>
             if slash then
               if px_bitlen dst = - 2 then None
               else case get_netmask pton6 errno (drop (Suc (length name)) arg) 0 of
                      None \<Rightarrow> None
                    | Some plen \<Rightarrow>
                        if plen > af_bit_len (px_family dst) then None
                        else Some (dst\<lparr>px_flags := px_flags dst OR PREFIXLEN_SPECIFIED,
                                       px_bitlen := int plen\<rparr>)
             else Some (dst\<lparr>px_bitlen := (if px_bitlen dst = - 2 then 0
                                          else int (af_bit_len (px_family dst)))\<rparr>))"

section \<open>Families\<close>

definition read_family :: "string \<Rightarrow> family" where
  "read_family name =
     (if name = ''inet'' then AF_INET
      else if name = ''inet6'' then AF_INET6
      else if name = ''dnet'' then AF_DECnet
      else if name = ''link'' then AF_PACKET
      else if name = ''ipx'' then AF_IPX
      else if name = ''mpls'' then AF_MPLS
      else if name = ''bridge'' then AF_BRIDGE
      else AF_UNSPEC)"

fun family_name :: "family \<Rightarrow> string" where
  "family_name AF_INET = ''inet''"
| "family_name AF_INET6 = ''inet6''"
| "family_name AF_DECnet = ''dnet''"
| "family_name AF_PACKET = ''link''"
| "family_name AF_IPX = ''ipx''"
| "family_name AF_MPLS = ''mpls''"
| "family_name AF_BRIDGE = ''bridge''"
| "family_name AF_UNSPEC = ''???''"

definition family_name_verbose :: "family \<Rightarrow> string" where
  "family_name_verbose fam = (if fam = AF_UNSPEC then ''any valid'' else family_name fam)"

section \<open>Parsers that leave the program\<close>

definition get_addr :: "(string \<Rightarrow> bytes option) \<Rightarrow> string \<Rightarrow> family \<Rightarrow> inet_prefix exits" where
  "get_addr pton6 arg fam =
     (case get_addr_1 pton6 arg fam of
        Some a \<Rightarrow> Ret a
      | None \<Rightarrow> Exit 1 (''Error: '' @ family_name_verbose fam @ '' address is expected rather than '' @
                       quote arg @ ''.''))"

definition get_prefix :: "(string \<Rightarrow> bytes option) \<Rightarrow> bool \<Rightarrow> string \<Rightarrow> family \<Rightarrow> inet_prefix exits" where
  "get_prefix pton6 errno arg fam =
     (if fam = AF_PACKET then
        Exit 1 (''Error: '' @ quote arg @ '' may be inet prefix, but it is not allowed in this context.'')
      else case get_prefix_1 pton6 errno arg fam of
             Some a \<Rightarrow> Ret a
           | None \<Rightarrow> Exit 1 (''Error: '' @ family_name_verbose fam @ '' prefix is expected rather than '' @
                            quote arg @ ''.''))"

definition get_addr32 :: "(string \<Rightarrow> bytes option) \<Rightarrow> string \<Rightarrow> bytes exits" where
  "get_addr32 pton6 name =
     (case get_addr_1 pton6 name AF_INET of
        Some a \<Rightarrow> Ret (take 4 (px_data a))
      | None \<Rightarrow> Exit 1 (''Error: an IP address is expected rather than '' @ quote name))"

section \<open>Addresses in attributes\<close>

definition get_addr_rta :: "inet_prefix \<Rightarrow> bytes \<Rightarrow> family \<Rightarrow> int \<times> inet_prefix" where
  "get_addr_rta dst data fam =
     (let set_to = (\<lambda>f. put_data data (dst\<lparr>px_family := f, px_bytelen := length data\<rparr>));
          r = (if length data = 4 then Some (set_to AF_INET)
               else if length data = 16 then Some (set_to AF_INET6)
               else if length data = 2 then Some (set_to AF_DECnet)
               else if length data = 10 then Some (set_to AF_IPX) else None)
      in case r of
           None \<Rightarrow> (- 1, dst)
         | Some d \<Rightarrow>
             if fam \<noteq> AF_UNSPEC \<and> fam \<noteq> px_family d then (- 2, d)
             else (0, set_address_type (d\<lparr>px_bitlen := - 1, px_flags := 0\<rparr>)))"

text \<open>\<open>None\<close> is a read behind the 256 bytes of an address.\<close>

definition inet_addr_match :: "inet_prefix \<Rightarrow> inet_prefix \<Rightarrow> nat \<Rightarrow> int option" where
  "inet_addr_match a b bits =
     (let words = bits div 32; k = bits mod 32 in do {
        m1 \<leftarrow> mem_read (px_data a) 0 (4 * words);
        m2 \<leftarrow> mem_read (px_data b) 0 (4 * words);
        if m1 \<noteq> m2 then Some (- 1)
        else if k = 0 then Some 0
        else do {
          w1 \<leftarrow> mem_read (px_data a) (4 * words) 4;
          w2 \<leftarrow> mem_read (px_data b) (4 * words) 4;
          let msk = (push_bit (32 - k) 0xFFFFFFFF :: u32);
          Some (if (word_of_nat (be_val w1) XOR word_of_nat (be_val w2)) AND msk \<noteq> 0 then 1 else 0)
        }
      })"

text \<open>\<open>dst\<close> is what the local variable of \<open>inet_addr_match_rta\<close> holds before.\<close>

definition inet_addr_match_rta :: "inet_prefix \<Rightarrow> inet_prefix \<Rightarrow> bytes option \<Rightarrow> int option" where
  "inet_addr_match_rta dst m rta =
     (case rta of
        None \<Rightarrow> Some 0
      | Some data \<Rightarrow>
          if px_family m = AF_UNSPEC \<or> px_bitlen m \<le> 0 then Some 0
          else let (rc, d) = get_addr_rta dst data (px_family m) in
            if rc \<noteq> 0 then Some (- 1) else inet_addr_match d m (nat (px_bitlen m)))"

end
