(* ===== verification/C_Numbers_Correct.thy ===== *)
theory C_Numbers_Correct
  imports C_Numbers
begin

text \<open>
  The scanners of \<open>C_Numbers\<close> read back what \<open>%u\<close> and \<open>%x\<close> print. The locale holds what
  the two conversions have in common; it is interpreted for both.
\<close>

lemma digit_of_digit_char [simp]: "d < 16 \<Longrightarrow> digit_of (digit_char d) = d"
  by (simp add: digit_of_def digit_char_def)

lemma digit_char_0: "digit_char 0 = CHR ''0''"
  by code_simp

lemma digit_char_zero [simp]: "d < 16 \<Longrightarrow> digit_char d = CHR ''0'' \<longleftrightarrow> d = 0"
proof
  assume "d < 16" "digit_char d = CHR ''0''"
  then show "d = 0" using digit_of_digit_char [of d] by (simp add: digit_of_def)
qed (simp add: digit_char_0)

lemma base_val_append: "base_val b acc (xs @ ys) = base_val b (base_val b acc xs) ys"
  by (induction xs arbitrary: acc) auto

text \<open>Not a character of a number in any base.\<close>

definition stops :: "string \<Rightarrow> bool" where
  "stops r \<longleftrightarrow> (case r of [] \<Rightarrow> True | c # _ \<Rightarrow> digit_of c = 36)"

lemma stops_simps [simp]:
  "stops []" "stops (CHR ''.'' # r)" "stops (CHR ''/'' # r)" "stops (CHR '':'' # r)"
  by (simp_all add: stops_def digit_of_def)

lemma not_space_sign:
  assumes "digit_of c < 36"
  shows "\<not> c_isspace c" "c \<noteq> CHR ''-''" "c \<noteq> CHR ''+''"
  using assms by (auto simp: digit_of_def c_isspace_def Let_def split: if_splits)

locale positional =
  fixes b :: nat and pr :: "nat \<Rightarrow> string"
  assumes base: "2 \<le> b" "b \<le> 16"
    and pr: "pr n = (if n < b then [digit_char n] else pr (n div b) @ [digit_char (n mod b)])"
begin

lemma pr_induct [case_names step]:
  assumes "\<And>n. (b \<le> n \<Longrightarrow> P (n div b)) \<Longrightarrow> P n"
  shows "P n"
proof (induction n rule: less_induct)
  case (less n)
  show ?case
  proof (rule assms)
    assume "b \<le> n"
    then have "n div b < n" using base by (intro div_less_dividend) auto
    then show "P (n div b)" by (rule less)
  qed
qed

lemma nonempty [simp]: "pr n \<noteq> []"
  by (subst pr) simp

lemma digit_lt: "d < b \<Longrightarrow> digit_of (digit_char d) < b"
  using base by simp

lemma all_digits: "\<forall>c \<in> set (pr n). digit_of c < b"
proof (induction n rule: pr_induct)
  case (step n)
  then show ?case using base by (subst pr) (auto intro: digit_lt)
qed

lemma val: "base_val b 0 (pr n) = n"
proof (induction n rule: pr_induct)
  case (step n)
  have "n mod b < 16" using base mod_less_divisor [of b n] by linarith
  then show ?case using base step by (subst pr) (simp add: base_val_append)
qed

lemma head: "0 < n \<Longrightarrow> hd (pr n) \<noteq> CHR ''0''"
proof (induction n rule: pr_induct)
  case (step n)
  then show ?case using base by (subst pr) (auto simp: div_greater_zero_iff)
qed

lemma zero: "pr 0 = ''0''"
  using base by (subst pr) (simp add: digit_char_0)

lemma take_digits:
  assumes "stops r"
  shows "takeWhile (\<lambda>c. digit_of c < b) (pr n @ r) = pr n"
  using assms base all_digits [of n] by (cases r) (auto simp: stops_def takeWhile_append2)

lemma scan:
  assumes r: "stops r" and p: "num_prefix base (pr n @ r) = (b', pr n @ r)"
    and t: "takeWhile (\<lambda>c. digit_of c < b') (pr n @ r) = pr n" and v: "base_val b' 0 (pr n) = n"
  shows "scan_number base (pr n @ r) = Some (False, n, r)"
proof -
  obtain c cs where c: "pr n = c # cs" by (cases "pr n") auto
  then have "digit_of c < 36" using all_digits [of n] base by auto
  note this [THEN not_space_sign(1)] this [THEN not_space_sign(2)] this [THEN not_space_sign(3)]
  then show ?thesis using p t v c by (simp add: scan_number_def Let_def)
qed

end

interpretation decimal: positional 10 dec
  by unfold_locales (simp_all add: dec.simps)

interpretation hexadecimal: positional 16 hexs
  by unfold_locales (simp_all add: hexs.simps)

lemma num_prefix_zero:
  assumes "stops r"
  shows "num_prefix 0 (CHR ''0'' # r) = (8, CHR ''0'' # r)" "num_prefix 16 (CHR ''0'' # r) = (16, CHR ''0'' # r)"
  using assms by (auto simp: num_prefix_def stops_def digit_of_def split: list.splits)

lemma num_prefix_nonzero:
  assumes "c \<noteq> CHR ''0''"
  shows "num_prefix 0 (c # r) = (10, c # r)" "num_prefix 16 (c # r) = (16, c # r)"
  using assms by (auto simp: num_prefix_def split: list.splits)

lemma scan_number_dec:
  assumes "stops r"
  shows "scan_number 0 (dec n @ r) = Some (False, n, r)"
proof (cases "n = 0")
  case True
  with assms show ?thesis
    using decimal.scan [of r 0 0 8] num_prefix_zero(1) [OF assms]
    by (cases r) (auto simp: decimal.zero stops_def digit_of_def)
next
  case False
  then obtain c cs where c: "dec n = c # cs" "c \<noteq> CHR ''0''"
    using decimal.head [of n] by (cases "dec n") auto
  then have "num_prefix 0 (dec n @ r) = (10, dec n @ r)"
    using num_prefix_nonzero(1) [of c "cs @ r"] by simp
  then show ?thesis
    using decimal.scan [OF assms] decimal.take_digits [OF assms] decimal.val by blast
qed

lemma scan_number_hexs:
  assumes "stops r"
  shows "scan_number 16 (hexs n @ r) = Some (False, n, r)"
proof -
  obtain c cs where c: "hexs n = c # cs" by (cases "hexs n") auto
  have "num_prefix 16 (hexs n @ r) = (16, hexs n @ r)"
  proof (cases "n = 0")
    case True
    then show ?thesis using num_prefix_zero(2) [OF assms] by (simp add: hexadecimal.zero)
  next
    case False
    then show ?thesis using hexadecimal.head [of n] c num_prefix_nonzero(2) [of c] by simp
  qed
  then show ?thesis
    using hexadecimal.scan [OF assms] hexadecimal.take_digits [OF assms] hexadecimal.val by blast
qed

lemma strtoul_dec: "stops r \<Longrightarrow> n < 2 ^ 64 \<Longrightarrow> strtoul e (dec n @ r) 0 = (n, r, e)"
  by (simp add: strtoul_def scan_number_dec ULONG_MAX_def)

lemma strtoul_hexs: "stops r \<Longrightarrow> n < 2 ^ 64 \<Longrightarrow> strtoul e (hexs n @ r) 16 = (n, r, e)"
  by (simp add: strtoul_def scan_number_hexs ULONG_MAX_def)

lemma strtoul_dec_nil: "n < 2 ^ 64 \<Longrightarrow> strtoul e (dec n) 0 = (n, [], e)"
  using strtoul_dec [of "[]"] by simp

lemma strtoul_hexs_nil: "n < 2 ^ 64 \<Longrightarrow> strtoul e (hexs n) 16 = (n, [], e)"
  using strtoul_hexs [of "[]"] by simp

text \<open>What the scan returns is at most the largest value.\<close>

lemma strtoul_bound: "fst (strtoul e s base) < 2 ^ 64"
  by (auto simp: strtoul_def ULONG_MAX_def split: option.splits)

end
