(* ===== verification/Iproute_Correct.thy ===== *)
theory Iproute_Correct
  imports Iproute_Prefix C_Numbers_Correct
begin

text \<open>
  What the parsers of \<open>Iproute_Utils\<close>, \<open>Iproute_Addr\<close> and \<open>Iproute_Prefix\<close> make of the
  texts that the printers produce.
\<close>

section \<open>Numbers\<close>

lemma get_unsigned_range_dec:
  assumes "n < 2 ^ 64"
  shows "get_unsigned_range hi e (Some (dec n)) 0 =
     (if n > hi \<or> (n = ULONG_MAX \<and> e) then None else Some n)"
  using assms by (auto simp: get_unsigned_range_def strtoul_dec_nil dest: sym)

lemma get_unsigned_range_le: "get_unsigned_range hi e arg base = Some n \<Longrightarrow> n \<le> hi"
  by (auto simp: get_unsigned_range_def split: option.splits prod.splits if_splits)

text \<open>
  C31. Numbers on the command line. A printed number is read back by the parsers of 8, 16 and
  32 bits exactly if it fits, whatever \<open>errno\<close> was before; the 64-bit parser reads every
  number back too, but refuses the largest one when \<open>errno\<close> was left at \<open>ERANGE\<close> by an
  earlier call, because it is not reset; and with a sign, minus one is read as that largest
  number instead of being refused.
\<close>

theorem get_numbers_read_back:
  assumes "n < 2 ^ 64"
  shows "get_u8 e (Some (dec n)) 0 = (if n < 2 ^ 8 then Some (word_of_nat n) else None) \<and>
    get_u16 e (Some (dec n)) 0 = (if n < 2 ^ 16 then Some (word_of_nat n) else None) \<and>
    get_u32 e (Some (dec n)) 0 = (if n < 2 ^ 32 then Some (word_of_nat n) else None) \<and>
    get_unsigned e (Some (dec n)) 0 = (if n < 2 ^ 32 then Some n else None) \<and>
    get_u64 e (Some (dec n)) 0 = (if n = 2 ^ 64 - 1 \<and> e then None else Some (word_of_nat n)) \<and>
    get_u64 False (Some ''-1'') 0 = Some (- 1)"
proof -
  have "scan_number 0 ''-1'' = Some (True, 1, [])" by code_simp
  then have "get_u64 False (Some ''-1'') 0 = Some (- 1)"
    by (simp add: get_u64_def get_unsigned_range_def strtoul_def ULONG_MAX_def)
  with assms show ?thesis
    by (simp add: get_u8_def get_u16_def get_u32_def get_u64_def get_unsigned_def
        get_unsigned_range_dec ULONG_MAX_def not_le [symmetric] Suc_le_eq)
qed

theorem get_numbers_read_back_witness:
  "get_u8 True (Some (dec 255)) 0 = Some 255 \<and> get_u16 True (Some (dec 65536)) 0 = None"
  using get_numbers_read_back [of 255 True] get_numbers_read_back [of 65536 True] by simp

section \<open>Prefixes\<close>

lemma ipv4_loop_dec:
  assumes "i < 4" "stops r"
  shows "ipv4_loop i (dec (unat (b :: u8)) @ r) =
     (case r of [] \<Rightarrow> Some [b]
      | c # r' \<Rightarrow> if i = 3 \<or> c \<noteq> CHR ''.'' then None else map_option ((#) b) (ipv4_loop (Suc i) r'))"
proof -
  have u: "unat b < 256" using unsigned_less [of b] by simp
  then have "unat b < 2 ^ 64" by simp
  with assms u show ?thesis
    by (subst ipv4_loop.simps) (simp add: strtoul_dec split: list.splits)
qed

lemma get_addr_ipv4_ntop: "get_addr_ipv4 (inet_ntop4 [a, b, c, d]) = Some [a, b, c, d]"
  using ipv4_loop_dec [of 3 "[]" d]
  by (simp add: get_addr_ipv4_def inet_ntop4_def ipv4_loop_dec numeral_3_eq_3)

definition dotted :: "char \<Rightarrow> bool" where
  "dotted c \<longleftrightarrow> is_digit c \<or> c = CHR ''.''"

lemma ntop4_dotted: "list_all dotted (inet_ntop4 [a, b, c, d])"
proof -
  have "list_all dotted (dec n)" for n
    using dec_digits [of n] by (rule list.pred_mono_strong) (simp add: dotted_def)
  then show ?thesis by (simp add: inet_ntop4_def dotted_def)
qed

lemma dotted_not:
  "list_all dotted s \<Longrightarrow> CHR '':'' \<notin> set s \<and> CHR ''/'' \<notin> set s \<and> s \<noteq> ''default'' \<and> s \<noteq> ''all'' \<and> s \<noteq> ''any''"
  by (auto simp: list_all_iff dotted_def is_digit_def)

lemmas ntop4_chars = dotted_not [OF ntop4_dotted]

definition inet_flags :: "bytes \<Rightarrow> u16" where
  "inet_flags a = (if a = replicate 4 0 then ADDRTYPE_INET_UNSPEC
     else if IN_MULTICAST (be_val a) then ADDRTYPE_INET_MULTI else ADDRTYPE_INET)"

lemma get_addr_1_ntop4:
  assumes "fam = AF_UNSPEC \<or> fam = AF_INET"
  shows "get_addr_1 pton6 (inet_ntop4 [a, b, c, d]) fam =
     Some \<lparr>px_flags = inet_flags [a, b, c, d], px_bytelen = 4, px_bitlen = - 1, px_family = AF_INET,
           px_data = [a, b, c, d] @ replicate 252 0\<rparr>"
proof -
  have "get_addr_1_with (ll_addr_a2n pton6) pton6 (inet_ntop4 [a, b, c, d]) fam =
     Some (put_data [a, b, c, d] (zero_prefix\<lparr>px_family := AF_INET, px_bytelen := 4, px_bitlen := - 1\<rparr>))"
    using assms ntop4_chars [of a b c d]
    by (auto simp: get_addr_1_with_def get_addr_ipv4_ntop)
  then show ?thesis
    by (simp add: get_addr_1_def set_address_type_def put_data_def zero_prefix_def inet_flags_def)
qed

lemma get_netmask_dec:
  "n < 2 ^ 32 \<Longrightarrow> get_netmask pton6 e (dec n) 0 = Some n"
  by (simp add: get_netmask_def get_unsigned_def get_unsigned_range_dec ULONG_MAX_def)

definition netmask :: "nat \<Rightarrow> bytes" where
  "netmask k = be_bytes 4 (2 ^ 32 - 2 ^ (32 - k))"

lemma exp_zero_iff: "(2 :: u32) ^ j = 0 \<longleftrightarrow> 32 \<le> j"
  by (simp add: exp_eq_zero_iff)

lemma shl_count_exp: "j \<le> 32 \<Longrightarrow> shl_count (- (2 ^ j)) b = b + (32 - j)"
proof (induction "32 - j" arbitrary: j b)
  case 0
  then have "j = 32" by simp
  then show ?case by (subst shl_count.simps) (simp add: exp_zero_iff)
next
  case (Suc n)
  have "push_bit 1 (- (2 ^ j)) = - (2 ^ Suc j :: u32)"
    by (simp add: push_bit_eq_mult)
  then have "shl_count (- (2 ^ j)) b = shl_count (- (2 ^ Suc j)) (Suc b)"
    using Suc.hyps(2) exp_zero_iff [of j] by (subst shl_count.simps) (auto simp del: power_Suc)
  also have "\<dots> = Suc b + (32 - Suc j)"
    using Suc.hyps by (intro Suc.hyps(1)) simp_all
  finally show ?case using Suc.hyps(2) by simp
qed

lemma netmask_word:
  assumes "k \<le> 32"
  shows "word_of_nat (be_val (netmask k)) = (- (2 ^ (32 - k)) :: u32)"
proof -
  have le: "(2 :: nat) ^ (32 - k) \<le> 2 ^ 32" by (rule power_increasing) simp_all
  have "word_of_nat (be_val (netmask k)) = (word_of_nat (2 ^ 32 - 2 ^ (32 - k)) :: u32)"
    by (simp add: netmask_def be_val_be_bytes less_imp_diff_less)
  also have "\<dots> = word_of_nat (2 ^ 32) - word_of_nat (2 ^ (32 - k))"
    using le by (rule of_nat_diff)
  finally show ?thesis by (simp add: exp_zero_iff)
qed

lemma host_bits: "(2 ^ j - 1 :: u32) AND 2 ^ j = 0"
  by (rule bit_word_eqI) (auto simp: bit_and_iff bit_exp_iff bit_mask_iff simp flip: mask_eq_exp_minus_1)

lemma mask2bits_netmask: "k \<le> 32 \<Longrightarrow> mask2bits (netmask k) = int k"
  using host_bits [of "32 - k"] shl_count_exp [of "32 - k" 0]
  by (simp add: mask2bits_def netmask_word not_eq_complement algebra_simps)

lemma unsigned_refuses_dots:
  "get_unsigned e (Some (inet_ntop4 [a, b, c, d])) 0 = None"
proof -
  have "unat a < 256" using unsigned_less [of a] by simp
  then have u: "unat a < 2 ^ 64" by simp
  show ?thesis
    using strtoul_dec [OF _ u, of "CHR ''.'' # _" e]
    by (simp add: get_unsigned_def get_unsigned_range_def inet_ntop4_def)
qed

lemma get_netmask_ntop:
  assumes "k \<le> 32" "netmask k = [a, b, c, d]"
  shows "get_netmask pton6 e (inet_ntop4 [a, b, c, d]) 0 = Some k"
  using assms mask2bits_netmask [of k]
  by (simp add: get_netmask_def unsigned_refuses_dots get_addr_1_ntop4)

lemma prefix_split:
  assumes "CHR ''/'' \<notin> set s"
  shows "takeWhile (\<lambda>c. c \<noteq> CHR ''/'') (s @ CHR ''/'' # r) = s"
  using assms by (subst takeWhile_append2) auto

text \<open>
  C32. IPv4 prefixes. A dotted address with a length of at most 32 bits behind a slash, written
  as a number or as a dotted mask, is read as exactly that address and length, marked as
  specified; a longer length is refused; without a slash the length is 32.
\<close>

theorem prefix_read_back:
  assumes "fam = AF_UNSPEC \<or> fam = AF_INET" "length a = 4" "n < 2 ^ 32" "k \<le> 32"
  shows "(let p = \<lparr>px_flags = inet_flags a OR PREFIXLEN_SPECIFIED, px_bytelen = 4, px_bitlen = int n,
                   px_family = AF_INET, px_data = a @ replicate 252 0\<rparr> in
     get_prefix_1 pton6 e (inet_ntop4 a @ ''/'' @ dec n) fam = (if n \<le> 32 then Some p else None) \<and>
     get_prefix_1 pton6 e (inet_ntop4 a @ ''/'' @ inet_ntop4 (netmask k)) fam = Some (p\<lparr>px_bitlen := int k\<rparr>) \<and>
     get_prefix_1 pton6 e (inet_ntop4 a) fam = Some (p\<lparr>px_flags := inet_flags a, px_bitlen := 32\<rparr>))"
proof -
  obtain x y z w where a: "a = [x, y, z, w]"
    using assms(2) by (auto simp: numeral_eq_Suc length_Suc_conv)
  have "length (netmask k) = 4" by (simp add: netmask_def)
  then obtain p q r s where m: "netmask k = [p, q, r, s]"
    by (auto simp: numeral_eq_Suc length_Suc_conv)
  note [simp] = prefix_split get_netmask_dec [OF assms(3)] get_netmask_ntop [OF assms(4) m]
    get_addr_1_ntop4 [OF assms(1)] ntop4_chars
  have t: "takeWhile (\<lambda>c. c \<noteq> CHR ''/'') (inet_ntop4 a) = inet_ntop4 a"
    using ntop4_chars [of x y z w] by (intro takeWhile_eq_all_conv [THEN iffD2]) (auto simp: a)
  show ?thesis using assms(4) by (simp add: get_prefix_1_def t [unfolded a] a m Let_def del: takeWhile_eq_all_conv)
qed

theorem prefix_read_back_witness:
  "get_prefix_1 (\<lambda>_. None) True (inet_ntop4 [10, 0, 0, 1] @ ''/'' @ dec 24) AF_INET =
     Some \<lparr>px_flags = ADDRTYPE_INET OR PREFIXLEN_SPECIFIED, px_bytelen = 4, px_bitlen = 24,
           px_family = AF_INET, px_data = [10, 0, 0, 1] @ replicate 252 0\<rparr>"
proof -
  have "replicate 4 0 = [0, 0, 0, 0 :: u8]" by (simp add: numeral_eq_Suc)
  then have "inet_flags [10, 0, 0, 1] = ADDRTYPE_INET"
    by (simp add: inet_flags_def IN_MULTICAST_def be_val_def)
  then show ?thesis
    using prefix_read_back [of AF_INET "[10, 0, 0, 1]" 24 8 "\<lambda>_. None" True] by (simp add: Let_def)
qed

end
