(* ===== verification/Addr_Families.thy ===== *)
theory Addr_Families
  imports Iproute_Correct
begin

text \<open>
  DECnet, MPLS, 64-bit and IPX addresses: what the parsers make of the printed texts.
\<close>

section \<open>DECnet\<close>

lemma le_bytes_2: "le_bytes 2 v = [word_of_nat v, word_of_nat (v div 256)]"
  by (simp add: numeral_2_eq_2 del: One_nat_def)

lemma dn_htons_id [simp]: "dn_htons w = w"
proof -
  have "unat w div 256 = unat (drop_bit 8 w)"
    by (simp only: unat_drop_bit_eq) (simp add: drop_bit_eq_div)
  then have "dn_htons w = ucast (ucast w :: u8) OR push_bit 8 (ucast (ucast (drop_bit 8 w) :: u8))"
    by (simp add: dn_htons_def le_bytes_2 Let_def)
  also have "\<dots> = w"
    by (rule bit_word_eqI) (auto simp: bit_simps)
  finally show ?thesis .
qed

lemma dnet_num_digits:
  "list_all is_digit ds \<Longrightarrow> r = [] \<or> \<not> is_digit (hd r) \<Longrightarrow>
   dnet_num (ds @ r) rv (word_of_nat acc) = (rv + length ds, word_of_nat (dec_val acc ds))"
proof (induction ds arbitrary: rv acc)
  case Nil
  then show ?case by (cases r) auto
next
  case (Cons c cs)
  have "word_of_nat acc * 10 + word_of_nat (digit_val c) = (word_of_nat (10 * acc + digit_val c) :: u16)"
    by simp
  with Cons show ?case by (simp del: of_nat_add of_nat_mult)
qed

lemma dnet_num_dec:
  "r = [] \<or> \<not> is_digit (hd r) \<Longrightarrow> dnet_num (dec n @ r) 0 0 = (length (dec n), word_of_nat n)"
  using dnet_num_digits [OF dec_digits, of r n 0 0] by (simp add: dec_val_dec)

lemma digit_step:
  assumes "0 < unat scale" "length str < len"
  shows "do_digit str addr scale len st =
     (if 0 < unat addr div unat scale \<or> st \<or> scale = 1
      then (False, str @ [char_of (unat addr div unat scale + 48)], word_of_nat (unat addr mod unat scale), True)
      else (False, str, addr, st))"
proof -
  have "addr - addr div scale * scale = addr mod scale"
    by (metis minus_div_mult_eq_mod)
  then show ?thesis using assms
    by (simp add: do_digit_def word_greater_zero_iff unat_div_distrib unat_mod_distrib word_less_nat_alt
        flip: unat_mod_distrib)
qed

lemma digit_char_small: "d < 10 \<Longrightarrow> char_of (d + 48) = digit_char d"
  by (simp add: digit_char_def add.commute)

lemma dec_less_10: "n < 10 \<Longrightarrow> dec n = [digit_char n]"
  by (simp add: dec.simps)

lemma dec_ge_10: "10 \<le> n \<Longrightarrow> dec n = dec (n div 10) @ [digit_char (n mod 10)]"
  by (subst dec.simps) simp

declare do_digits.simps [simp del]

lemma digit_mid:
  "(n :: nat) mod 100 div 10 = n div 10 mod 10" "n mod 1000 div 100 = n div 100 mod 10"
proof -
  show "n mod 100 div 10 = n div 10 mod 10" using mod_mult2_eq [of n 10 10] by simp
  show "n mod 1000 div 100 = n div 100 mod 10" using mod_mult2_eq [of n 100 10] by simp
qed

lemma do_digits_area:
  assumes "unat a < 100" "length s + 2 \<le> len"
  shows "do_digits [10, 1] s a len False = (False, s @ dec (unat a))"
  using assms
  by (cases "unat a < 10") (simp_all add: do_digits.simps digit_step dec_less_10 dec_ge_10 digit_char_small unat_of_nat)

lemma do_digits_node:
  assumes "unat a < 10000" "length s + 4 \<le> len"
  shows "do_digits [1000, 100, 10, 1] s a len False = (False, s @ dec (unat a))"
proof -
  consider "unat a < 10" | "10 \<le> unat a" "unat a < 100" | "100 \<le> unat a" "unat a < 1000" | "1000 \<le> unat a"
    by linarith
  then show ?thesis using assms
    by cases (simp_all add: do_digits.simps digit_step dec_less_10 dec_ge_10 digit_char_small unat_of_nat
        div_mult2_eq [symmetric] mod_mod_cancel digit_mid div_greater_zero_iff)
qed

definition dnet_text :: "u16 \<Rightarrow> string" where
  "dnet_text a = dec (unat (drop_bit 10 a)) @ ''.'' @ dec (unat (a AND 0x3FF))"

lemma node_take: "(a :: u16) AND 0x3FF = take_bit 10 a"
  by (simp add: take_bit_eq_mask mask_eq_exp_minus_1)

lemma area_node_bounds: "unat (drop_bit 10 (a :: u16)) < 64" "unat (a AND 0x3FF) < 1024"
proof -
  have "unat a < 65536" using unsigned_less [of a] by simp
  then show "unat (drop_bit 10 a) < 64"
    by (simp only: unat_drop_bit_eq) (simp add: drop_bit_eq_div)
  show "unat (a AND 0x3FF) < 1024" by (simp only: node_take unsigned_take_bit_eq) (simp add: take_bit_eq_mod)
qed

lemma dnet_ntop1_text:
  assumes "8 \<le> len"
  shows "dnet_ntop1 2 (le_bytes 2 (unat a)) len = Some (dnet_text a, True)"
proof -
  have l: "length (dec (unat (drop_bit 10 a))) \<le> 2" "length (dec (unat (a AND 0x3FF))) \<le> 4"
    using area_node_bounds [of a] by (auto intro!: length_dec_le)
  have w: "word_of_nat (le_val (le_bytes 2 (unat a))) = a"
  proof -
    have "unat a < 256 ^ 2" using unsigned_less [of a] by simp
    then show ?thesis by (simp only: le_val_le_bytes mod_less) simp
  qed
  show ?thesis
    using assms l area_node_bounds [of a]
    by (simp add: dnet_ntop1_def w do_digits_area do_digits_node dnet_text_def Let_def)
qed

lemma dnet_pton1_text: "dnet_pton1 (dnet_text a) = Some (le_bytes 2 (unat a))"
proof -
  have j: "push_bit 10 (drop_bit 10 a) OR (a AND 0x3FF) = a"
    by (simp only: node_take) (rule bit_word_eqI, auto simp: bit_simps)
  define ar nd where "ar = dec (unat (drop_bit 10 a))" and "nd = dec (unat (a AND 0x3FF))"
  have t: "dnet_text a = ar @ CHR ''.'' # nd" by (simp add: dnet_text_def ar_def nd_def)
  have 1: "dnet_num (ar @ CHR ''.'' # nd) 0 0 = (length ar, drop_bit 10 a)"
    using dnet_num_dec [of "CHR ''.'' # nd" "unat (drop_bit 10 a)"] by (simp add: ar_def is_digit_def)
  have 2: "dnet_num nd 0 0 = (length nd, a AND 0x3FF)"
    using dnet_num_dec [of "[]" "unat (a AND 0x3FF)"] by (simp add: nd_def)
  have 3: "\<not> drop_bit 10 a > 63" "\<not> a AND 0x3FF > 1023" "ar \<noteq> []" "nd \<noteq> []"
    using area_node_bounds [of a] by (simp_all add: word_less_nat_alt ar_def nd_def)
  show ?thesis
    unfolding dnet_pton1_def t 1 using 3 by (simp add: 2 j)
qed

section \<open>MPLS\<close>

fun mpls_enc :: "nat list \<Rightarrow> bytes" where
  "mpls_enc [] = []"
| "mpls_enc [l] = be_bytes 4 (l * 2 ^ 12 + 2 ^ 8)"
| "mpls_enc (l # ls) = be_bytes 4 (l * 2 ^ 12) @ mpls_enc ls"

fun mpls_text :: "nat list \<Rightarrow> string" where
  "mpls_text [] = []"
| "mpls_text [l] = dec l"
| "mpls_text (l # ls) = dec l @ ''/'' @ mpls_text ls"

lemma mpls_pton1_text:
  "ls \<noteq> [] \<Longrightarrow> length ls \<le> n \<Longrightarrow> \<forall>l \<in> set ls. l < 2 ^ 20 \<Longrightarrow> mpls_pton1 (mpls_text ls) n = Some (mpls_enc ls)"
proof (induction ls arbitrary: n rule: mpls_enc.induct)
  case (2 l)
  then obtain k where "n = Suc k" by (cases n) auto
  with 2 show ?case
    by (auto simp: strtoul_dec_nil MPLS_LS_LABEL_SHIFT_def MPLS_LS_S_SHIFT_def dest: sym)
next
  case (3 l m ls)
  then obtain k where k: "n = Suc k" by (cases n) auto
  have "strtoul False (dec l @ CHR ''/'' # mpls_text (m # ls)) 0 = (l, CHR ''/'' # mpls_text (m # ls), False)"
    using 3 by (intro strtoul_dec) simp_all
  with 3 k show ?case by (simp add: MPLS_LS_LABEL_SHIFT_def)
qed simp

lemma mpls_entry:
  assumes "l < 2 ^ 20" "f = 0 \<or> f = (256 :: nat)"
  shows "be_val (be_bytes 4 (l * 4096 + f)) div 2 ^ MPLS_LS_LABEL_SHIFT = l"
    and "mpls_s_bit (be_bytes 4 (l * 4096 + f)) \<longleftrightarrow> f = 256"
proof -
  have v: "be_val (be_bytes 4 (l * 4096 + f)) = l * 4096 + f"
    using assms by (auto simp: be_val_be_bytes)
  then show "be_val (be_bytes 4 (l * 4096 + f)) div 2 ^ MPLS_LS_LABEL_SHIFT = l"
    using assms by (auto simp: MPLS_LS_LABEL_SHIFT_def)
  have "(l * 4096 + f) div 256 = l * 16 + f div 256" by simp
  then show "mpls_s_bit (be_bytes 4 (l * 4096 + f)) \<longleftrightarrow> f = 256"
    using assms by (auto simp: mpls_s_bit_def v MPLS_LS_S_SHIFT_def)
qed

lemma mpls_ntop1_text:
  "ls \<noteq> [] \<Longrightarrow> \<forall>l \<in> set ls. l < 2 ^ 20 \<Longrightarrow> length (mpls_text ls) < len \<Longrightarrow>
   mpls_ntop1 (mpls_enc ls @ rest) len out = Some (Some (out @ mpls_text ls))"
proof (induction ls arbitrary: len out rule: mpls_enc.induct)
  case (2 l)
  then show ?case using mpls_entry [of l 256] by (subst mpls_ntop1.simps) (simp add: Let_def)
next
  case (3 l m ls)
  have "mpls_ntop1 (mpls_enc (l # m # ls) @ rest) len out =
      mpls_ntop1 (mpls_enc (m # ls) @ rest) (len - length (dec l) - 1) (out @ dec l @ ''/'')"
    using 3 mpls_entry [of l 0] by (subst mpls_ntop1.simps) (simp add: Let_def)
  with 3 show ?case by simp
qed simp

section \<open>64-bit addresses\<close>

lemma addr64_loop_hexs:
  assumes "i < 4" "stops r" "v < 2 ^ 16"
  shows "addr64_loop i (hexs v @ r) =
     (case r of [] \<Rightarrow> Some (be_bytes 2 v)
      | c # r' \<Rightarrow> if i = 3 \<or> c \<noteq> CHR '':'' then None
                 else map_option (\<lambda>bs. be_bytes 2 v @ bs) (addr64_loop (Suc i) r'))"
proof -
  have "v < 2 ^ 64" using assms by simp
  with assms show ?thesis
    by (subst addr64_loop.simps) (auto simp: strtoul_hexs split: list.splits)
qed

definition addr64_text :: "nat \<Rightarrow> nat \<Rightarrow> nat \<Rightarrow> nat \<Rightarrow> string" where
  "addr64_text a b c d = hexs a @ '':'' @ hexs b @ '':'' @ hexs c @ '':'' @ hexs d"

lemma get_addr64_text:
  assumes "a < 2 ^ 16" "b < 2 ^ 16" "c < 2 ^ 16" "d < 2 ^ 16" "length old = 8"
  shows "get_addr64 old (addr64_text a b c d) = Some (be_bytes 2 a @ be_bytes 2 b @ be_bytes 2 c @ be_bytes 2 d)"
  using assms addr64_loop_hexs [of 3 "[]" d]
  by (simp add: get_addr64_def addr64_text_def addr64_loop_hexs numeral_3_eq_3)

lemma addr64_n2a_text:
  assumes "a < 2 ^ 16" "b < 2 ^ 16" "c < 2 ^ 16" "d < 2 ^ 16" "length (addr64_text a b c d) < len"
  shows "addr64_n2a (be_bytes 2 a @ be_bytes 2 b @ be_bytes 2 c @ be_bytes 2 d) len =
     Some (addr64_text a b c d, length (addr64_text a b c d))"
  using assms by (simp add: addr64_n2a_def be_val_be_bytes addr64_text_def Let_def)

section \<open>IPX\<close>

lemma ipx_digit_hex: "get_hex (ipx_digit v k) \<noteq> - 1 \<and> ipx_digit v k \<noteq> CHR ''.''"
proof -
  have "list_all (\<lambda>d. let c = (if d > 9 then char_of (d + 65 - 10) else char_of (d + 48)) :: char in
      get_hex c \<noteq> - 1 \<and> c \<noteq> CHR ''.'') [0..<16]" by code_simp
  then show ?thesis by (simp add: list_all_iff ipx_digit_def Let_def)
qed

lemma ipx_getnet_full:
  "length ds = n \<Longrightarrow> list_all (\<lambda>c. get_hex c \<noteq> - 1) ds \<Longrightarrow> r \<noteq> [] \<Longrightarrow> ipx_getnet n (ds @ r) net = None"
proof (induction ds arbitrary: n net)
  case Nil
  then show ?case by (cases r) auto
qed auto

lemma get_hex_digit_char: "d < 16 \<Longrightarrow> get_hex (digit_char d) = int d"
proof -
  have "list_all (\<lambda>d. get_hex (digit_char d) = int d) [0..<16]" by code_simp
  then show "d < 16 \<Longrightarrow> ?thesis" by (simp add: list_all_iff)
qed

lemma nibbles: "push_bit 4 (word_of_nat (unat b div 16)) OR word_of_nat (unat b mod 16) = (b :: u8)"
proof -
  have "unat b div 16 = unat (drop_bit 4 b)" by (simp only: unat_drop_bit_eq) (simp add: drop_bit_eq_div)
  moreover have "unat b mod 16 = unat (take_bit 4 b)" by (simp only: unsigned_take_bit_eq) (simp add: take_bit_eq_mod)
  ultimately have "push_bit 4 (word_of_nat (unat b div 16)) OR word_of_nat (unat b mod 16)
      = push_bit 4 (drop_bit 4 b) OR take_bit 4 b" by simp
  also have "\<dots> = b" by (rule bit_word_eqI) (auto simp: bit_simps)
  finally show ?thesis .
qed

lemma unat_nibbles: "unat (b :: u8) div 16 < 16" "unat b mod 16 < 16"
proof -
  have "unat b < 256" using unsigned_less [of b] by simp
  then show "unat b div 16 < 16" by simp
qed simp

lemma digit_char_no_colon: "d < 16 \<Longrightarrow> digit_char d \<noteq> CHR '':''"
  using digit_of_digit_char [of d] by (auto simp: digit_of_def)

lemma ipx_getnode_hex:
  "length bs = n \<Longrightarrow> ipx_getnode n (concat (map hex02 bs)) = Some bs"
proof (induction bs arbitrary: n)
  case (Cons b bs)
  have "(case concat (map hex02 bs) of c # r' \<Rightarrow> if c = CHR '':'' then r' else concat (map hex02 bs)
      | [] \<Rightarrow> concat (map hex02 bs)) = concat (map hex02 bs)"
    using digit_char_no_colon unat_nibbles by (cases bs) (simp_all add: hex02_def)
  moreover have "hex02 b = [digit_char (unat b div 16), digit_char (unat b mod 16)]"
    by (simp add: hex02_def)
  ultimately show ?case using Cons nibbles [of b] unat_nibbles [of b]
    by (auto simp: get_hex_digit_char)
qed simp

lemma hex2mem_hex: "hex2mem (concat (map hex02 bs)) (length bs) = Some bs"
  using nibbles unat_nibbles by (induction bs) (simp_all add: hex02_def get_hex_digit_char)

lemma hexstring_n2a_all: "2 * length bs < blen \<Longrightarrow> hexstring_n2a bs blen = concat (map hex02 bs)"
  by (induction bs arbitrary: blen) auto

text \<open>The printer writes the network with all eight digits, but the parser, after eight digits, only
  accepts the end of the text. The same node behind a dot, with no network in front, is accepted.\<close>

lemma ipx_text_refused:
  assumes "length net = 4" "length node = 6" "22 < len"
  shows "(\<exists>t. ipx_ntop AF_IPX (net @ node) len = Some (t, True) \<and> ipx_pton AF_IPX t = (0, None)) \<and>
     ipx_pton AF_IPX (''.'' @ concat (map hex02 node)) = (1, Some (replicate 4 0 @ node))"
proof -
  define ds where "ds = map (ipx_digit (be_val net)) [7, 6, 5, 4, 3, 2, 1, 0]"
  define r where "r = ''.'' @ concat (map (\<lambda>b. [ipx_digit (unat b) 1, ipx_digit (unat b) 0]) node)"
  have l: "length (concat (map (\<lambda>b. [ipx_digit (unat b) 1, ipx_digit (unat b) 0]) xs)) = 2 * length xs"
    for xs :: bytes by (induction xs) auto
  have "length (ds @ r) = 21" using l [of node] assms(2) by (simp add: ds_def r_def del: One_nat_def)
  then have p: "ipx_ntop AF_IPX (net @ node) len = Some (ds @ r, True)"
    using assms by (simp add: ipx_ntop_def ipx_ntop1_def ds_def r_def Let_def)
  have "list_all (\<lambda>c. get_hex c \<noteq> - 1) ds" by (simp add: ds_def ipx_digit_hex)
  then have "ipx_getnet 8 (ds @ r) 0 = None"
    by (intro ipx_getnet_full) (simp_all add: ds_def r_def)
  then have n: "ipx_pton AF_IPX (ds @ r) = (0, None)"
    by (simp add: ipx_pton_def ipx_pton1_def)
  have "ipx_getnet 8 (''.'' @ concat (map hex02 node)) 0 = Some 0"
    by (simp add: numeral_eq_Suc get_hex_def)
  then have "ipx_pton AF_IPX (''.'' @ concat (map hex02 node)) = (1, Some (be_bytes 4 0 @ node))"
    using ipx_getnode_hex [OF assms(2)] by (simp add: ipx_pton_def ipx_pton1_def)
  moreover have "be_bytes 4 0 = replicate 4 0" by code_simp
  ultimately show ?thesis using p n by auto
qed

section \<open>All families\<close>

text \<open>
  C33. Address texts. A DECnet address, an MPLS label stack of at most 64 labels and a 64-bit
  address are each printed, given a large enough buffer, as a text that the parser of the
  family reads back as the same address. An IPX address is not: the printer writes the network
  with all eight digits, but the parser, after eight digits, only accepts the end of the text, so
  every printed address is refused; the node behind a dot, with no network in front, is
  accepted as that node on network zero.
\<close>

theorem address_texts_read_back:
  assumes "8 \<le> len" "ls \<noteq> []" "length ls \<le> 64" "\<forall>l \<in> set ls. l < 2 ^ 20" "length (mpls_text ls) < len"
    and "a < 2 ^ 16" "b < 2 ^ 16" "c < 2 ^ 16" "d < 2 ^ 16" "length (addr64_text a b c d) < len" "length old = 8"
    and "length net = 4" "length node = 6" "22 < len"
  shows "(\<exists>t. dnet_ntop AF_DECnet 2 (le_bytes 2 (unat (x :: u16))) len = Some (t, True) \<and>
       dnet_pton AF_DECnet t = (1, Some (le_bytes 2 (unat x)))) \<and>
     (\<exists>t. mpls_ntop AF_MPLS (mpls_enc ls @ rest) len = Some (Some t) \<and>
       mpls_pton AF_MPLS t 256 = (1, Some (mpls_enc ls))) \<and>
     (let w = be_bytes 2 a @ be_bytes 2 b @ be_bytes 2 c @ be_bytes 2 d in
      \<exists>t. addr64_n2a w len = Some (t, length t) \<and> get_addr64 old t = Some w) \<and>
     (\<exists>t. ipx_ntop AF_IPX (net @ node) len = Some (t, True) \<and> ipx_pton AF_IPX t = (0, None)) \<and>
     ipx_pton AF_IPX (''.'' @ concat (map hex02 node)) = (1, Some (replicate 4 0 @ node))"
  using assms ipx_text_refused [OF assms(12-14)]
  by (simp add: dnet_ntop_def dnet_pton_def dnet_ntop1_text dnet_pton1_text mpls_ntop_def mpls_pton_def
      mpls_ntop1_text mpls_pton1_text addr64_n2a_text get_addr64_text Let_def)

theorem address_texts_read_back_witness:
  "(\<exists>t. dnet_ntop AF_DECnet 2 (le_bytes 2 (unat (1025 :: u16))) 32 = Some (t, True) \<and>
      dnet_pton AF_DECnet t = (1, Some (le_bytes 2 (unat (1025 :: u16))))) \<and>
   (\<exists>t. ipx_ntop AF_IPX (replicate 4 1 @ replicate 6 2) 32 = Some (t, True) \<and> ipx_pton AF_IPX t = (0, None))"
proof -
  have "length (mpls_text [16]) < 32" "length (addr64_text 1 2 3 4) < 32" by code_simp+
  then show ?thesis
    using address_texts_read_back [of 32 "[16]" 1 2 3 4 "replicate 8 0" "replicate 4 1" "replicate 6 2" 1025 "[]"] by simp
qed

end
