(* ===== verification/Libnetlink.thy ===== *)
theory Libnetlink
  imports Prelude "HOL-Library.Monad_Syntax"
begin

text \<open>
  Netlink attributes in \<open>iproute2-4.18.0/lib/libnetlink.c\<close>: the functions that append
  attributes to a message under construction and those that take a received stream of
  attributes apart. The locale \<open>attr_reader\<close> is the contract the link types rely on.
\<close>

section \<open>Messages\<close>

text \<open>
  A message under construction: \<open>nlmsg_len\<close> and the memory of the request from its header
  on. \<open>None\<close> as a result is a store outside that memory.
\<close>

record nlmsg =
  nm_len :: nat
  nm_buf :: bytes

definition NLMSG_ALIGN :: "nat \<Rightarrow> nat" where "NLMSG_ALIGN n = (n + 3) div 4 * 4"
definition RTA_ALIGN :: "nat \<Rightarrow> nat" where "RTA_ALIGN n = (n + 3) div 4 * 4"
definition RTA_LENGTH :: "nat \<Rightarrow> nat" where "RTA_LENGTH n = 4 + n"

definition NLMSG_TAIL :: "nlmsg \<Rightarrow> nat" where "NLMSG_TAIL n = NLMSG_ALIGN (nm_len n)"

text \<open>\<open>struct rtattr\<close>: two 16-bit fields.\<close>

definition rtattr_hdr :: "nat \<Rightarrow> nat \<Rightarrow> bytes" where
  "rtattr_hdr len ty = le_bytes 2 len @ le_bytes 2 ty"

definition addattr_l :: "nlmsg \<Rightarrow> nat \<Rightarrow> nat \<Rightarrow> bytes \<Rightarrow> (int \<times> nlmsg) option" where
  "addattr_l n maxlen ty data =
     (let len = RTA_LENGTH (length data) in
      if NLMSG_ALIGN (nm_len n) + RTA_ALIGN len > maxlen then Some (- 1, n)
      else do {
        b1 \<leftarrow> mem_write (nm_buf n) (NLMSG_TAIL n) (rtattr_hdr len ty);
        b2 \<leftarrow> (if data \<noteq> [] then mem_write b1 (NLMSG_TAIL n + 4) data else Some b1);
        Some (0, \<lparr>nm_len = NLMSG_ALIGN (nm_len n) + RTA_ALIGN len, nm_buf = b2\<rparr>)
      })"

definition addattr :: "nlmsg \<Rightarrow> nat \<Rightarrow> nat \<Rightarrow> (int \<times> nlmsg) option" where
  "addattr n maxlen ty = addattr_l n maxlen ty []"

definition addattr8 :: "nlmsg \<Rightarrow> nat \<Rightarrow> nat \<Rightarrow> u8 \<Rightarrow> (int \<times> nlmsg) option" where
  "addattr8 n maxlen ty v = addattr_l n maxlen ty [v]"

definition addattr16 :: "nlmsg \<Rightarrow> nat \<Rightarrow> nat \<Rightarrow> u16 \<Rightarrow> (int \<times> nlmsg) option" where
  "addattr16 n maxlen ty v = addattr_l n maxlen ty (le_bytes 2 (unat v))"

definition addattr32 :: "nlmsg \<Rightarrow> nat \<Rightarrow> nat \<Rightarrow> u32 \<Rightarrow> (int \<times> nlmsg) option" where
  "addattr32 n maxlen ty v = addattr_l n maxlen ty (le_bytes 4 (unat v))"

definition addattr64 :: "nlmsg \<Rightarrow> nat \<Rightarrow> nat \<Rightarrow> u64 \<Rightarrow> (int \<times> nlmsg) option" where
  "addattr64 n maxlen ty v = addattr_l n maxlen ty (le_bytes 8 (unat v))"

definition addattrstrz :: "nlmsg \<Rightarrow> nat \<Rightarrow> nat \<Rightarrow> string \<Rightarrow> (int \<times> nlmsg) option" where
  "addattrstrz n maxlen ty s = addattr_l n maxlen ty (map of_char s @ [0])"

definition addraw_l :: "nlmsg \<Rightarrow> nat \<Rightarrow> bytes \<Rightarrow> (int \<times> nlmsg) option" where
  "addraw_l n maxlen data =
     (let len = length data in
      if NLMSG_ALIGN (nm_len n) + NLMSG_ALIGN len > maxlen then Some (- 1, n)
      else do {
        b1 \<leftarrow> mem_write (nm_buf n) (NLMSG_TAIL n) data;
        b2 \<leftarrow> mem_write b1 (NLMSG_TAIL n + len) (replicate (NLMSG_ALIGN len - len) 0);
        Some (0, \<lparr>nm_len = NLMSG_ALIGN (nm_len n) + NLMSG_ALIGN len, nm_buf = b2\<rparr>)
      })"

section \<open>Nested attributes\<close>

text \<open>A pointer to an attribute is its offset in the message. The length of a nested
  attribute is filled in at its end.\<close>

definition set_rta_len :: "bytes \<Rightarrow> nat \<Rightarrow> nat \<Rightarrow> bytes option" where
  "set_rta_len b rta len = mem_write b rta (le_bytes 2 len)"

definition addattr_nest :: "nlmsg \<Rightarrow> nat \<Rightarrow> nat \<Rightarrow> (nat \<times> nlmsg) option" where
  "addattr_nest n maxlen ty = map_option (\<lambda>(rc, n'). (NLMSG_TAIL n, n')) (addattr_l n maxlen ty [])"

definition addattr_nest_end :: "nlmsg \<Rightarrow> nat \<Rightarrow> (nat \<times> nlmsg) option" where
  "addattr_nest_end n nest =
     map_option (\<lambda>b. (nm_len n, n\<lparr>nm_buf := b\<rparr>)) (set_rta_len (nm_buf n) nest (NLMSG_TAIL n - nest))"

definition addattr_nest_compat :: "nlmsg \<Rightarrow> nat \<Rightarrow> nat \<Rightarrow> bytes \<Rightarrow> (nat \<times> nlmsg) option" where
  "addattr_nest_compat n maxlen ty data = do {
     (rc, n1) \<leftarrow> addattr_l n maxlen ty data;
     (nest, n2) \<leftarrow> addattr_nest n1 maxlen ty;
     Some (NLMSG_TAIL n, n2)
   }"

definition addattr_nest_compat_end :: "nlmsg \<Rightarrow> nat \<Rightarrow> (nat \<times> nlmsg) option" where
  "addattr_nest_compat_end n start = do {
     l \<leftarrow> mem_read (nm_buf n) start 2;
     let nest = start + NLMSG_ALIGN (le_val l);
     b \<leftarrow> set_rta_len (nm_buf n) start (NLMSG_TAIL n - start);
     addattr_nest_end (n\<lparr>nm_buf := b\<rparr>) nest
   }"

text \<open>
  The same on an attribute that is not part of a message: memory that starts with the
  attribute's own header, whose length field says how much is in use.
\<close>

definition rta_len :: "bytes \<Rightarrow> nat" where
  "rta_len m = le_val (take 2 m)"

definition rta_addattr32 :: "bytes \<Rightarrow> nat \<Rightarrow> nat \<Rightarrow> u32 \<Rightarrow> (int \<times> bytes) option" where
  "rta_addattr32 m maxlen ty v =
     (let len = RTA_LENGTH 4; sub = RTA_ALIGN (rta_len m) in
      if RTA_ALIGN (rta_len m) + len > maxlen then Some (- 1, m)
      else do {
        m1 \<leftarrow> mem_write m sub (rtattr_hdr len ty);
        m2 \<leftarrow> mem_write m1 (sub + 4) (le_bytes 4 (unat v));
        m3 \<leftarrow> set_rta_len m2 0 (NLMSG_ALIGN (rta_len m) + len);
        Some (0, m3)
      })"

definition rta_addattr_l :: "bytes \<Rightarrow> nat \<Rightarrow> nat \<Rightarrow> bytes \<Rightarrow> (int \<times> bytes) option" where
  "rta_addattr_l m maxlen ty data =
     (let len = RTA_LENGTH (length data); sub = RTA_ALIGN (rta_len m) in
      if RTA_ALIGN (rta_len m) + RTA_ALIGN len > maxlen then Some (- 1, m)
      else do {
        m1 \<leftarrow> mem_write m sub (rtattr_hdr len ty);
        m2 \<leftarrow> (if data \<noteq> [] then mem_write m1 (sub + 4) data else Some m1);
        m3 \<leftarrow> set_rta_len m2 0 (NLMSG_ALIGN (rta_len m) + RTA_ALIGN len);
        Some (0, m3)
      })"

definition rta_addattr8 :: "bytes \<Rightarrow> nat \<Rightarrow> nat \<Rightarrow> u8 \<Rightarrow> (int \<times> bytes) option" where
  "rta_addattr8 m maxlen ty v = rta_addattr_l m maxlen ty [v]"

definition rta_addattr16 :: "bytes \<Rightarrow> nat \<Rightarrow> nat \<Rightarrow> u16 \<Rightarrow> (int \<times> bytes) option" where
  "rta_addattr16 m maxlen ty v = rta_addattr_l m maxlen ty (le_bytes 2 (unat v))"

definition rta_addattr64 :: "bytes \<Rightarrow> nat \<Rightarrow> nat \<Rightarrow> u64 \<Rightarrow> (int \<times> bytes) option" where
  "rta_addattr64 m maxlen ty v = rta_addattr_l m maxlen ty (le_bytes 8 (unat v))"

definition rta_nest :: "bytes \<Rightarrow> nat \<Rightarrow> nat \<Rightarrow> (nat \<times> bytes) option" where
  "rta_nest m maxlen ty = map_option (\<lambda>(rc, m'). (RTA_ALIGN (rta_len m), m')) (rta_addattr_l m maxlen ty [])"

definition rta_nest_end :: "bytes \<Rightarrow> nat \<Rightarrow> (nat \<times> bytes) option" where
  "rta_nest_end m nest =
     map_option (\<lambda>m'. (rta_len m, m')) (set_rta_len m nest (RTA_ALIGN (rta_len m) - nest))"

section \<open>Taking a stream of attributes apart\<close>

text \<open>
  The memory from \<open>rta\<close> on and the number of bytes left, which the last step can make
  negative. An attribute found is given by its payload.
\<close>

definition RTA_OK :: "bytes \<Rightarrow> int \<Rightarrow> bool" where
  "RTA_OK m len \<longleftrightarrow> len \<ge> 4 \<and> rta_len m \<ge> 4 \<and> int (rta_len m) \<le> len"

definition rta_type :: "bytes \<Rightarrow> u16" where
  "rta_type m = word_of_nat (le_val (take 2 (drop 2 m)))"

definition RTA_DATA :: "bytes \<Rightarrow> bytes" where
  "RTA_DATA m = take (rta_len m - 4) (drop 4 m)"

function parse_loop :: "nat \<Rightarrow> u16 \<Rightarrow> (nat \<Rightarrow> bytes option) \<Rightarrow> bytes \<Rightarrow> int \<Rightarrow> (nat \<Rightarrow> bytes option) \<times> int" where
  "parse_loop maxt flags tb m len =
     (if RTA_OK m len then
        let ty = unat (rta_type m AND NOT flags);
            tb' = (if ty \<le> maxt \<and> tb ty = None then tb(ty \<mapsto> RTA_DATA m) else tb)
        in parse_loop maxt flags tb' (drop (RTA_ALIGN (rta_len m)) m) (len - int (RTA_ALIGN (rta_len m)))
      else (tb, len))"
  by pat_completeness auto
termination
  by (relation "measure (\<lambda>(maxt, flags, tb, m, len). nat len)") (auto simp: RTA_OK_def RTA_ALIGN_def)

declare parse_loop.simps [simp del]

text \<open>The table and the deficit the function complains about, zero if there is none.\<close>

definition parse_rtattr_flags :: "nat \<Rightarrow> bytes \<Rightarrow> u16 \<Rightarrow> (nat \<Rightarrow> bytes option) \<times> int" where
  "parse_rtattr_flags maxt m flags = parse_loop maxt flags Map.empty m (int (length m))"

definition parse_rtattr :: "nat \<Rightarrow> bytes \<Rightarrow> (nat \<Rightarrow> bytes option) \<times> int" where
  "parse_rtattr maxt m = parse_rtattr_flags maxt m 0"

function byindex_loop :: "nat \<Rightarrow> bytes list \<Rightarrow> bytes \<Rightarrow> int \<Rightarrow> bytes list \<times> int" where
  "byindex_loop maxt tb m len =
     (if RTA_OK m len then
        let tb' = (if unat (rta_type m) \<le> maxt \<and> length tb < maxt then tb @ [RTA_DATA m] else tb)
        in byindex_loop maxt tb' (drop (RTA_ALIGN (rta_len m)) m) (len - int (RTA_ALIGN (rta_len m)))
      else (tb, len))"
  by pat_completeness auto
termination
  by (relation "measure (\<lambda>(maxt, tb, m, len). nat len)") (auto simp: RTA_OK_def RTA_ALIGN_def)

declare byindex_loop.simps [simp del]

definition parse_rtattr_byindex :: "nat \<Rightarrow> bytes \<Rightarrow> bytes list" where
  "parse_rtattr_byindex maxt m = fst (byindex_loop maxt [] m (int (length m)))"

function one_loop :: "nat \<Rightarrow> bytes \<Rightarrow> int \<Rightarrow> bytes option" where
  "one_loop ty m len =
     (if RTA_OK m len then
        if unat (rta_type m) = ty then Some (RTA_DATA m)
        else one_loop ty (drop (RTA_ALIGN (rta_len m)) m) (len - int (RTA_ALIGN (rta_len m)))
      else None)"
  by pat_completeness auto
termination
  by (relation "measure (\<lambda>(ty, m, len). nat len)") (auto simp: RTA_OK_def RTA_ALIGN_def)

declare one_loop.simps [simp del]

definition parse_rtattr_one :: "nat \<Rightarrow> bytes \<Rightarrow> bytes option" where
  "parse_rtattr_one ty m = one_loop ty m (int (length m))"

text \<open>The payload holds a fixed structure of \<open>len\<close> bytes and then perhaps a nested
  attribute, whose payload is the stream.\<close>

definition parse_rtattr_nested_compat :: "nat \<Rightarrow> bytes \<Rightarrow> nat \<Rightarrow> int \<times> (nat \<Rightarrow> bytes option) option" where
  "parse_rtattr_nested_compat maxt payload len =
     (if length payload < len then (- 1, None)
      else if length payload \<ge> RTA_ALIGN len + 4
      then (0, Some (fst (parse_rtattr maxt (RTA_DATA (drop (RTA_ALIGN len) payload)))))
      else (0, Some Map.empty))"

end
