(* ===== verification/Libnetlink_Correct.thy ===== *)
theory Libnetlink_Correct
  imports Libnetlink
begin

text \<open>
  Correctness of the netlink attributes: a stream of attributes is read back as the list it
  encodes, a message under construction always holds such a stream, and nested attributes
  are read back as what was put into them.
\<close>

section \<open>Encodings\<close>

text \<open>
  The encodings of an attribute: header, payload, and padding whose contents are not
  defined.
\<close>

definition attr_enc :: "nat \<times> bytes \<Rightarrow> bytes \<Rightarrow> bool" where
  "attr_enc a bs \<longleftrightarrow> fst a < 65536 \<and> 4 + length (snd a) < 65536 \<and>
     (\<exists>pad. bs = rtattr_hdr (4 + length (snd a)) (fst a) @ snd a @ pad \<and>
            length bs = RTA_ALIGN (4 + length (snd a)))"

lemma rta_align_ge: "n \<le> RTA_ALIGN n"
  unfolding RTA_ALIGN_def by linarith

lemma rta_align_mod [simp]: "RTA_ALIGN n mod 4 = 0" "NLMSG_ALIGN n mod 4 = 0"
  by (simp_all add: RTA_ALIGN_def NLMSG_ALIGN_def)

lemma rta_align_id: "n mod 4 = 0 \<Longrightarrow> RTA_ALIGN n = n" and nlmsg_align_id: "n mod 4 = 0 \<Longrightarrow> NLMSG_ALIGN n = n"
  unfolding RTA_ALIGN_def NLMSG_ALIGN_def by presburger+

lemma length_rtattr_hdr [simp, bytes_simps]: "length (rtattr_hdr l t) = 4"
  by (simp add: rtattr_hdr_def)

lemma attr_encD:
  assumes "attr_enc (ty, p) bs"
  shows "rta_len (bs @ rest) = 4 + length p" "rta_type (bs @ rest) = word_of_nat ty" "RTA_DATA (bs @ rest) = p"
    "length bs = RTA_ALIGN (4 + length p)" "ty < 65536" "4 \<le> length bs" "4 + length p \<le> length bs"
proof -
  obtain pad where b: "bs = rtattr_hdr (4 + length p) ty @ p @ pad" and l: "length bs = RTA_ALIGN (4 + length p)"
    and r: "ty < 65536" "4 + length p < 65536"
    using assms by (auto simp: attr_enc_def)
  show len: "rta_len (bs @ rest) = 4 + length p"
    using r by (simp add: b rta_len_def rtattr_hdr_def le_val_le_bytes)
  show "rta_type (bs @ rest) = word_of_nat ty"
    using r by (simp add: b rta_type_def rtattr_hdr_def le_val_le_bytes)
  show "RTA_DATA (bs @ rest) = p" by (simp add: RTA_DATA_def len) (simp add: b)
  show "length bs = RTA_ALIGN (4 + length p)" "ty < 65536" by (rule l, rule r(1))
  show "4 \<le> length bs" "4 + length p \<le> length bs" using l rta_align_ge [of "4 + length p"] by simp_all
qed

lemma parse_step:
  assumes "attr_enc (ty, p) bs"
  shows "RTA_OK (bs @ rest) (int (length (bs @ rest)))"
    and "drop (RTA_ALIGN (rta_len (bs @ rest))) (bs @ rest) = rest"
    and "int (length (bs @ rest)) - int (RTA_ALIGN (rta_len (bs @ rest))) = int (length rest)"
    and "unat (rta_type (bs @ rest)) = ty"
  using attr_encD(1-3) [OF assms, of rest] attr_encD(4-7) [OF assms]
  by (auto simp: RTA_OK_def unat_u16_of_nat)

lemma not_RTA_OK_nil [simp]: "\<not> RTA_OK [] 0"
  by (simp add: RTA_OK_def)

section \<open>Reading\<close>

text \<open>
  What a reader of attributes promises: an attribute at the front of the stream is found
  under its type, and hides later ones of that type.
\<close>

locale attr_reader =
  fixes enc :: "nat \<times> bytes \<Rightarrow> bytes \<Rightarrow> bool"
    and parse :: "bytes \<Rightarrow> nat \<Rightarrow> bytes option"
  assumes parse_nil: "parse [] = Map.empty"
    and parse_cons: "enc a bs \<Longrightarrow> parse (bs @ rest) = (parse rest)(fst a \<mapsto> snd a)"
begin

lemma parse_stream: "list_all2 enc as bss \<Longrightarrow> parse (concat bss) = map_of as"
proof (induction as bss rule: list_all2_induct)
  case (Cons a as bs bss)
  then show ?case by (cases a) (simp add: parse_cons)
qed (simp add: parse_nil)

lemma parse_found:
  "list_all2 enc as bss \<Longrightarrow> distinct (map fst as) \<Longrightarrow> (ty, p) \<in> set as \<Longrightarrow> parse (concat bss) ty = Some p"
  by (simp add: parse_stream)

end

lemma parse_loop_table:
  "parse_loop maxt f tb m len =
     (fst (parse_loop maxt f Map.empty m len) ++ tb, snd (parse_loop maxt f Map.empty m len))"
proof (induction "nat len" arbitrary: tb m len rule: less_induct)
  case less
  show ?case
  proof (cases "RTA_OK m len")
    case True
    let ?ty = "unat (rta_type m AND NOT f)" and ?d = "RTA_DATA m"
    let ?m = "drop (RTA_ALIGN (rta_len m)) m" and ?len = "len - int (RTA_ALIGN (rta_len m))"
    let ?upd = "\<lambda>tb. if ?ty \<le> maxt \<and> tb ?ty = None then tb(?ty \<mapsto> ?d) else tb"
    have "4 \<le> RTA_ALIGN (rta_len m)" "0 < len"
      using True rta_align_ge [of "rta_len m"] by (auto simp: RTA_OK_def)
    then have "nat ?len < nat len" by linarith
    note IH = less [OF this, of "?upd tb" ?m] less [OF this, of "?upd Map.empty" ?m]
    have "P ++ ?upd tb = (P ++ ?upd Map.empty) ++ tb" for P :: "nat \<Rightarrow> bytes option"
      by (rule ext) (auto simp: map_add_def split: option.split)
    then show ?thesis
      using True IH parse_loop.simps [of maxt f tb m len] parse_loop.simps [of maxt f Map.empty m len]
      by (simp only: if_True Let_def fst_conv snd_conv)
  next
    case False
    then show ?thesis by (simp add: parse_loop.simps)
  qed
qed

lemma parse_rtattr_cons:
  assumes "attr_enc (ty, p) bs"
  shows "parse_rtattr maxt (bs @ rest) =
    ((fst (parse_rtattr maxt rest))(ty := if ty \<le> maxt then Some p else fst (parse_rtattr maxt rest) ty),
     snd (parse_rtattr maxt rest))"
proof -
  let ?tb = "if ty \<le> maxt then [ty \<mapsto> p] else Map.empty"
  have "parse_rtattr maxt (bs @ rest) = parse_loop maxt 0 ?tb rest (int (length rest))"
    unfolding parse_rtattr_def parse_rtattr_flags_def
    using parse_step [OF assms, of rest] attr_encD(3) [OF assms, of rest]
    by (subst parse_loop.simps) (simp add: Let_def)
  also have "\<dots> = (fst (parse_rtattr maxt rest) ++ ?tb, snd (parse_rtattr maxt rest))"
    unfolding parse_rtattr_def parse_rtattr_flags_def by (rule parse_loop_table)
  finally show ?thesis by auto
qed

lemma parse_rtattr_nil: "parse_rtattr maxt [] = (Map.empty, 0)"
  by (simp add: parse_rtattr_def parse_rtattr_flags_def parse_loop.simps)

interpretation rtt: attr_reader "\<lambda>a bs. attr_enc a bs \<and> fst a \<le> maxt" "\<lambda>bs. fst (parse_rtattr maxt bs)" for maxt
proof unfold_locales
  show "fst (parse_rtattr maxt []) = Map.empty" by (simp add: parse_rtattr_nil)
next
  fix a :: "nat \<times> bytes" and bs rest
  assume "attr_enc a bs \<and> fst a \<le> maxt"
  then show "fst (parse_rtattr maxt (bs @ rest)) = (fst (parse_rtattr maxt rest))(fst a \<mapsto> snd a)"
    using parse_rtattr_cons [of "fst a" "snd a" bs maxt rest] by simp
qed

interpretation one: attr_reader attr_enc "\<lambda>bs ty. parse_rtattr_one ty bs"
proof unfold_locales
  show "(\<lambda>ty. parse_rtattr_one ty []) = Map.empty"
    by (simp add: parse_rtattr_one_def one_loop.simps)
next
  fix a :: "nat \<times> bytes" and bs rest
  assume e: "attr_enc a bs"
  then have e': "attr_enc (fst a, snd a) bs" by simp
  show "(\<lambda>ty. parse_rtattr_one ty (bs @ rest)) = (\<lambda>ty. parse_rtattr_one ty rest)(fst a \<mapsto> snd a)"
  proof
    fix ty
    show "parse_rtattr_one ty (bs @ rest) = ((\<lambda>ty. parse_rtattr_one ty rest)(fst a \<mapsto> snd a)) ty"
      unfolding parse_rtattr_one_def
      using parse_step [OF e', of rest] attr_encD(3) [OF e', of rest]
      by (subst one_loop.simps) auto
  qed
qed

lemma parse_rtattr_deficit: "list_all2 attr_enc as bss \<Longrightarrow> snd (parse_rtattr maxt (concat bss)) = 0"
proof (induction as bss rule: list_all2_induct)
  case (Cons a as bs bss)
  then show ?case using parse_rtattr_cons [of "fst a" "snd a" bs maxt "concat bss"] by simp
qed (simp add: parse_rtattr_nil)

text \<open>
  C28. Reading attributes. Applied to the encodings of any list of attributes, whatever is in
  the padding, \<open>parse_rtattr\<close> fills its table with the first attribute of each type up to
  the largest one asked for and has no deficit to complain about; \<open>parse_rtattr_one\<close> finds
  the first attribute of any type, whatever its value.
\<close>

theorem parse_rtattr_reads:
  assumes "list_all2 attr_enc as bss"
  shows "parse_rtattr maxt (concat bss) = (\<lambda>ty. if ty \<le> maxt then map_of as ty else None, 0) \<and>
    parse_rtattr_one ty (concat bss) = map_of as ty"
proof -
  have "fst (parse_rtattr maxt (concat bss)) = (\<lambda>ty. if ty \<le> maxt then map_of as ty else None)"
    using assms
  proof (induction as bss rule: list_all2_induct)
    case (Cons a as bs bss)
    then show ?case
      using parse_rtattr_cons [of "fst a" "snd a" bs maxt "concat bss"]
      by (cases a) (auto simp: fun_eq_iff)
  qed (simp add: parse_rtattr_nil fun_eq_iff)
  with parse_rtattr_deficit [OF assms] one.parse_stream [OF assms] show ?thesis
    by (metis prod.collapse)
qed

lemma attr_enc_example: "attr_enc (2, [1]) [5, 0, 2, 0, 1, 0xFF, 0xFF, 0xFF]"
  by (simp add: attr_enc_def rtattr_hdr_def RTA_ALIGN_def numeral_2_eq_2)

theorem parse_rtattr_reads_witness:
  "parse_rtattr 7 [5, 0, 2, 0, 1, 0xFF, 0xFF, 0xFF] = ([2 \<mapsto> [1]], 0) \<and>
   parse_rtattr_one 3 [5, 0, 2, 0, 1, 0xFF, 0xFF, 0xFF] = None"
  using parse_rtattr_reads [of "[(2, [1])]" "[[5, 0, 2, 0, 1, 0xFF, 0xFF, 0xFF]]" 7 3] attr_enc_example
  by (auto simp: fun_eq_iff)

section \<open>Building messages\<close>

text \<open>
  A message with a header of \<open>base\<close> bytes whose attributes are \<open>as\<close>.
\<close>

definition msg_attrs :: "nat \<Rightarrow> nlmsg \<Rightarrow> (nat \<times> bytes) list \<Rightarrow> bool" where
  "msg_attrs base n as \<longleftrightarrow> base \<le> nm_len n \<and> nm_len n mod 4 = 0 \<and> nm_len n \<le> length (nm_buf n) \<and>
     (\<exists>bss. list_all2 attr_enc as bss \<and> drop base (take (nm_len n) (nm_buf n)) = concat bss)"

definition attr_fits :: "nat \<Rightarrow> nlmsg \<Rightarrow> bytes \<Rightarrow> bool" where
  "attr_fits maxlen n data \<longleftrightarrow> nm_len n + RTA_ALIGN (4 + length data) \<le> maxlen"

lemma mem_write_take:
  "mem_write b a x = Some b' \<Longrightarrow> take (a + length x) b' = take a b @ x \<and> take a b' = take a b"
  by (auto simp: mem_write_def split: if_splits)

lemma mem_write_ex: "a + length x \<le> length b \<Longrightarrow> \<exists>b'. mem_write b a x = Some b' \<and> length b' = length b"
  by (simp add: mem_write_def)

text \<open>The two stores of \<open>addattr_l\<close>, which put one encoded attribute behind the others.\<close>

lemma store_attr:
  assumes "L + RTA_ALIGN (4 + length data) \<le> length b" and "ty < 65536" and "4 + length data < 65536"
  shows "\<exists>b' bs. Option.bind (mem_write b L (rtattr_hdr (4 + length data) ty))
      (\<lambda>b1. if data \<noteq> [] then mem_write b1 (L + 4) data else Some b1) = Some b' \<and> length b' = length b \<and>
    attr_enc (ty, data) bs \<and> take (L + RTA_ALIGN (4 + length data)) b' = take L b @ bs"
proof -
  let ?h = "rtattr_hdr (4 + length data) ty" and ?n = "4 + length data"
  have n: "L + ?n \<le> length b" using assms(1) rta_align_ge [of ?n] by linarith
  obtain b1 where b1: "mem_write b L ?h = Some b1" "length b1 = length b"
    using mem_write_ex [of L ?h b] n by auto
  obtain b2 where b2: "mem_write b1 (L + 4) data = Some b2" "length b2 = length b"
    using mem_write_ex [of "L + 4" data b1] n b1(2) by auto
  have eq: "(if data \<noteq> [] then mem_write b1 (L + 4) data else Some b1) = Some b2"
    using b2(1) by (auto simp: mem_write_def split: if_splits)
  have "take (L + 4) b1 = take L b @ ?h" using mem_write_take [OF b1(1)] by simp
  then have t: "take (L + ?n) b2 = take L b @ ?h @ data"
    using mem_write_take [OF b2(1)] by (simp add: add.assoc)
  let ?pad = "take (RTA_ALIGN ?n - ?n) (drop (L + ?n) b2)"
  have "take (L + RTA_ALIGN ?n) b2 = take (L + ?n) b2 @ ?pad"
    using rta_align_ge [of ?n] by (metis add.assoc le_add_diff_inverse take_add)
  moreover have "attr_enc (ty, data) (?h @ data @ ?pad)"
    using assms b2(2) rta_align_ge [of ?n] by (auto simp: attr_enc_def)
  ultimately show ?thesis using b1(1) eq b2(2) t by auto
qed

lemma addattr_l_msg:
  assumes "msg_attrs base n as" and "maxlen \<le> length (nm_buf n)" and "ty < 65536" and "4 + length data < 65536"
  shows "\<exists>n'. addattr_l n maxlen ty data = Some (if attr_fits maxlen n data then 0 else - 1, n') \<and>
    msg_attrs base n' (if attr_fits maxlen n data then as @ [(ty, data)] else as) \<and>
    length (nm_buf n') = length (nm_buf n) \<and> take (nm_len n) (nm_buf n') = take (nm_len n) (nm_buf n) \<and>
    nm_len n' = (if attr_fits maxlen n data then nm_len n + RTA_ALIGN (4 + length data) else nm_len n)"
proof -
  have al: "NLMSG_ALIGN (nm_len n) = nm_len n" using assms(1) nlmsg_align_id by (simp add: msg_attrs_def)
  show ?thesis
  proof (cases "attr_fits maxlen n data")
    case False
    then show ?thesis using assms(1) by (simp add: addattr_l_def RTA_LENGTH_def al attr_fits_def)
  next
    case True
    then have room: "nm_len n + RTA_ALIGN (4 + length data) \<le> length (nm_buf n)"
      using assms(2) by (simp add: attr_fits_def)
    obtain b' bs where b': "Option.bind (mem_write (nm_buf n) (nm_len n) (rtattr_hdr (4 + length data) ty))
        (\<lambda>b1. if data \<noteq> [] then mem_write b1 (nm_len n + 4) data else Some b1) = Some b'"
        "length b' = length (nm_buf n)" "attr_enc (ty, data) bs"
        "take (nm_len n + RTA_ALIGN (4 + length data)) b' = take (nm_len n) (nm_buf n) @ bs"
      using store_attr [OF room assms(3,4)] by blast
    let ?n' = "\<lparr>nm_len = nm_len n + RTA_ALIGN (4 + length data), nm_buf = b'\<rparr>"
    have add: "addattr_l n maxlen ty data = Some (0, ?n')"
      using True b'(1) by (auto simp: addattr_l_def RTA_LENGTH_def NLMSG_TAIL_def al attr_fits_def Let_def
          bind_eq_Some_conv split: if_splits)
    obtain bss where bss: "list_all2 attr_enc as bss" "drop base (take (nm_len n) (nm_buf n)) = concat bss"
        and base: "base \<le> nm_len n" "nm_len n \<le> length (nm_buf n)"
      using assms(1) by (auto simp: msg_attrs_def)
    have "list_all2 attr_enc (as @ [(ty, data)]) (bss @ [bs])"
      using bss(1) b'(3) by (simp add: list_all2_appendI)
    moreover have "drop base (take (nm_len ?n') (nm_buf ?n')) = concat (bss @ [bs])"
      using b'(4) bss(2) base by simp
    ultimately have "msg_attrs base ?n' (as @ [(ty, data)])"
      using assms(1) room b'(2) unfolding msg_attrs_def by (auto simp: mod_add_eq [symmetric])
    moreover have "take (nm_len n) b' = take (nm_len n) (nm_buf n)"
      using arg_cong [OF b'(4), of "take (nm_len n)"] base(2) by (simp add: min_def)
    ultimately show ?thesis using True add b'(2) by simp
  qed
qed

text \<open>
  Appending an attribute. For a message that holds a stream of attributes and a bound
  that is within its memory, \<open>addattr_l\<close> never stores outside the memory; it appends the
  attribute if that stays within the bound, and otherwise returns an error and leaves the
  attributes as they were; what is in front of the attributes is not touched.
\<close>

lemma addattr_l_appends:
  assumes "msg_attrs base n as" and "maxlen \<le> length (nm_buf n)" and "ty < 65536" and "4 + length data < 65536"
  shows "\<exists>n'. addattr_l n maxlen ty data = Some (if attr_fits maxlen n data then 0 else - 1, n') \<and>
    msg_attrs base n' (if attr_fits maxlen n data then as @ [(ty, data)] else as) \<and>
    take base (nm_buf n') = take base (nm_buf n)"
proof -
  obtain n' where n': "addattr_l n maxlen ty data = Some (if attr_fits maxlen n data then 0 else - 1, n')"
      "msg_attrs base n' (if attr_fits maxlen n data then as @ [(ty, data)] else as)"
      "take (nm_len n) (nm_buf n') = take (nm_len n) (nm_buf n)"
    using addattr_l_msg [OF assms] by blast
  have "base \<le> nm_len n" using assms(1) by (simp add: msg_attrs_def)
  then have "take base (nm_buf n') = take base (nm_buf n)"
    using arg_cong [OF n'(3), of "take base"] by (simp add: min_def)
  with n' show ?thesis by blast
qed

definition example_msg :: nlmsg where
  "example_msg = \<lparr>nm_len = 32, nm_buf = replicate 1056 0\<rparr>"

lemma example_msg_attrs: "msg_attrs 32 example_msg []"
  by (simp add: msg_attrs_def example_msg_def)

text \<open>The end of a nest: the length of its attribute now covers what was added since.\<close>

lemma nest_close:
  assumes "msg_attrs base n as" and ty: "ty < 65536" and len1: "nm_len n + 4 \<le> length (nm_buf n)"
    and m2: "msg_attrs (nm_len n + 4) n2 inner" and b2: "nm_len n2 - nm_len n < 65536"
    and l2: "length (nm_buf n2) = length (nm_buf n)"
    and t2: "take (nm_len n + 4) (nm_buf n2) = take (nm_len n) (nm_buf n) @ rtattr_hdr 4 ty"
  shows "\<exists>n3 p bss. addattr_nest_end n2 (nm_len n) = Some (nm_len n2, n3) \<and> msg_attrs base n3 (as @ [(ty, p)]) \<and>
    list_all2 attr_enc inner bss \<and> p = concat bss"
proof -
  let ?L = "nm_len n" and ?k = "nm_len n2 - nm_len n" and ?rest = "drop (nm_len n2) (nm_buf n2)"
  obtain bss where bss: "list_all2 attr_enc inner bss" "drop (?L + 4) (take (nm_len n2) (nm_buf n2)) = concat bss"
      and L2: "?L + 4 \<le> nm_len n2" "nm_len n2 mod 4 = 0" "nm_len n2 \<le> length (nm_buf n2)"
    using m2 by (auto simp: msg_attrs_def)
  obtain bss0 where bss0: "list_all2 attr_enc as bss0" "drop base (take ?L (nm_buf n)) = concat bss0"
      "base \<le> ?L" "?L mod 4 = 0"
    using assms(1) by (auto simp: msg_attrs_def)
  let ?p = "concat bss" and ?bs = "rtattr_hdr (4 + length (concat bss)) ty @ concat bss @ []"
  have lp: "length ?p = ?k - 4" using arg_cong [OF bss(2), of length] L2 by simp
  have "take (nm_len n2) (nm_buf n2) = take (?L + 4) (nm_buf n2) @ drop (?L + 4) (take (nm_len n2) (nm_buf n2))"
    using L2(1) append_take_drop_id [of "?L + 4" "take (nm_len n2) (nm_buf n2)"] by (simp add: min_def)
  then have n2: "nm_buf n2 = take ?L (nm_buf n) @ le_bytes 2 4 @ (le_bytes 2 ty @ ?p @ ?rest)"
    using append_take_drop_id [of "nm_len n2" "nm_buf n2"] by (simp add: t2 bss(2) rtattr_hdr_def)
  define b3 where "b3 = take ?L (nm_buf n) @ le_bytes 2 ?k @ (le_bytes 2 ty @ ?p @ ?rest)"
  have "mem_write (nm_buf n2) ?L (le_bytes 2 ?k) = Some b3"
    unfolding b3_def by (subst n2, rule mem_write_mid) (use len1 in simp_all)
  moreover have "NLMSG_TAIL n2 = nm_len n2" using L2(2) nlmsg_align_id by (simp add: NLMSG_TAIL_def)
  ultimately have e: "addattr_nest_end n2 ?L = Some (nm_len n2, n2\<lparr>nm_buf := b3\<rparr>)"
    by (simp add: addattr_nest_end_def set_rta_len_def)
  have k: "4 + length ?p = ?k" "?k mod 4 = 0" using lp L2 bss0(4) by (auto simp: mod_eq_0_iff_dvd dvd_diff_nat)
  have "attr_enc (ty, ?p) ?bs" using ty b2 k rta_align_id [of ?k] by (simp add: attr_enc_def)
  then have "list_all2 attr_enc (as @ [(ty, ?p)]) (bss0 @ [?bs])" using bss0(1) by (simp add: list_all2_appendI)
  moreover have "take (nm_len n2) b3 = take ?L (nm_buf n) @ ?bs"
    using k(1) L2 len1 by (simp add: b3_def rtattr_hdr_def)
  then have "drop base (take (nm_len n2) b3) = concat (bss0 @ [?bs])" using bss0(2,3) len1 by simp
  moreover have "length b3 = length (nm_buf n2)" using lp L2 len1 l2 by (simp add: b3_def)
  ultimately have "msg_attrs base (n2\<lparr>nm_buf := b3\<rparr>) (as @ [(ty, ?p)])"
    using L2 bss0(3) unfolding msg_attrs_def by auto
  with e bss(1) show ?thesis by blast
qed

text \<open>
  C30. Nested attributes. Between \<open>addattr_nest\<close> and \<open>addattr_nest_end\<close> a message can be
  filled like any other; afterwards it has one more attribute, of the type of the nest,
  and reading the payload of that attribute gives the attributes put into it.
\<close>

theorem addattr_nest_roundtrip:
  assumes "msg_attrs base n as" and "maxlen \<le> length (nm_buf n)" and "ty < 65536" and "attr_fits maxlen n []"
  shows "\<exists>n1. addattr_nest n maxlen ty = Some (nm_len n, n1) \<and> msg_attrs (nm_len n + 4) n1 [] \<and>
    (\<forall>n2 inner. msg_attrs (nm_len n + 4) n2 inner \<and> length (nm_buf n2) = length (nm_buf n) \<and>
       take (nm_len n + 4) (nm_buf n2) = take (nm_len n + 4) (nm_buf n1) \<and> nm_len n2 - nm_len n < 65536 \<longrightarrow>
       (\<exists>n3 p. addattr_nest_end n2 (nm_len n) = Some (nm_len n2, n3) \<and>
          msg_attrs base n3 (as @ [(ty, p)]) \<and> (\<forall>t. parse_rtattr_one t p = map_of inner t)))"
proof -
  let ?L = "nm_len n"
  have al: "NLMSG_ALIGN ?L = ?L" "?L mod 4 = 0" using assms(1) nlmsg_align_id by (simp_all add: msg_attrs_def)
  have four: "RTA_ALIGN 4 = 4" "RTA_ALIGN (Suc (Suc (Suc (Suc 0)))) = 4" by (simp_all add: RTA_ALIGN_def)
  obtain n1 where n1: "addattr_l n maxlen ty [] = Some (0, n1)" "nm_len n1 = ?L + 4"
      "msg_attrs base n1 (as @ [(ty, [])])" "length (nm_buf n1) = length (nm_buf n)"
    using addattr_l_msg [OF assms(1-3), of "[]"] assms(4) by (auto simp: four)
  have len1: "?L + 4 \<le> length (nm_buf n)" using n1(2-4) by (simp add: msg_attrs_def)
  have hdr: "take (?L + 4) (nm_buf n1) = take ?L (nm_buf n) @ rtattr_hdr 4 ty"
    using n1(1) assms(4) mem_write_take [of "nm_buf n" ?L "rtattr_hdr 4 ty"]
    by (auto simp: addattr_l_def RTA_LENGTH_def NLMSG_TAIL_def al attr_fits_def Let_def bind_eq_Some_conv four)
  have "msg_attrs (?L + 4) n1 []" using n1(2,3) by (simp add: msg_attrs_def)
  moreover have "\<exists>n3 p. addattr_nest_end n2 ?L = Some (nm_len n2, n3) \<and>
      msg_attrs base n3 (as @ [(ty, p)]) \<and> (\<forall>t. parse_rtattr_one t p = map_of inner t)"
    if "msg_attrs (?L + 4) n2 inner" "length (nm_buf n2) = length (nm_buf n)"
      "take (?L + 4) (nm_buf n2) = take (?L + 4) (nm_buf n1)" "nm_len n2 - ?L < 65536" for n2 inner
    using nest_close [OF assms(1,3) len1 that(1,4,2)] that(3) hdr one.parse_stream by (metis (full_types))
  ultimately show ?thesis using n1(1) by (auto simp: addattr_nest_def NLMSG_TAIL_def al)
qed

theorem addattr_nest_roundtrip_witness:
  "\<exists>n1 n2 n3 p. addattr_nest example_msg 1024 18 = Some (32, n1) \<and> addattr_l n1 1024 2 [1] = Some (0, n2) \<and>
     addattr_nest_end n2 32 = Some (nm_len n2, n3) \<and> msg_attrs 32 n3 [(18, p)] \<and> parse_rtattr_one 2 p = Some [1]"
proof -
  have e: "nm_len example_msg = 32" "length (nm_buf example_msg) = 1056" by (simp_all add: example_msg_def)
  have f: "attr_fits 1024 example_msg []" by (simp add: attr_fits_def e RTA_ALIGN_def)
  obtain n1 where n1: "addattr_nest example_msg 1024 18 = Some (32, n1)" "msg_attrs 36 n1 []"
      and close: "\<And>n2 inner. msg_attrs 36 n2 inner \<Longrightarrow> length (nm_buf n2) = 1056 \<Longrightarrow>
        take 36 (nm_buf n2) = take 36 (nm_buf n1) \<Longrightarrow> nm_len n2 - 32 < 65536 \<Longrightarrow>
        \<exists>n3 p. addattr_nest_end n2 32 = Some (nm_len n2, n3) \<and> msg_attrs 32 n3 [(18, p)] \<and>
          (\<forall>t. parse_rtattr_one t p = map_of inner t)"
    using addattr_nest_roundtrip [OF example_msg_attrs, of 1024 18] f e by auto
  have l1: "nm_len n1 = 36" "length (nm_buf n1) = 1056"
    using n1(1) mem_write_length
    by (fastforce simp: addattr_nest_def addattr_l_def example_msg_def NLMSG_ALIGN_def RTA_ALIGN_def RTA_LENGTH_def
        NLMSG_TAIL_def Let_def bind_eq_Some_conv split: if_splits)+
  have f1: "attr_fits 1024 n1 [1]" by (simp add: attr_fits_def l1 RTA_ALIGN_def)
  obtain n2 where n2: "addattr_l n1 1024 2 [1] = Some (0, n2)" "msg_attrs 36 n2 [(2, [1])]"
      "length (nm_buf n2) = 1056" "take 36 (nm_buf n2) = take 36 (nm_buf n1)" "nm_len n2 = 44"
    using addattr_l_msg [OF n1(2), of 1024 2 "[1]"] f1 l1 by (auto simp: RTA_ALIGN_def)
  have "nm_len n2 - 32 < 65536" by (simp add: n2(5))
  from close [OF n2(2-4) this] obtain n3 p where c: "addattr_nest_end n2 32 = Some (nm_len n2, n3)"
      "msg_attrs 32 n3 [(18, p)]" "\<forall>t. parse_rtattr_one t p = map_of [(2, [1])] t" by blast
  have "parse_rtattr_one 2 p = Some [1]" using c(3) [THEN spec, of 2] by simp
  with c n1(1) n2(1) show ?thesis by blast
qed

end
