(* ===== verification/Ll_Map.thy ===== *)
theory Ll_Map
  imports Libnetlink_Correct Iproute_Utils
begin

text \<open>
  The cache of interface names of \<open>iproute2-4.18.0/lib/ll_map.c\<close>: entries in memory that are
  chained in two hash tables, by index and by name. \<open>if_nametoindex\<close> and \<open>if_indextoname\<close>
  of the C library are arguments.
\<close>

record ll_cache =
  lc_flags :: u32
  lc_index :: u32
  lc_type :: u16
  lc_name :: string

text \<open>The entries by address, and the chains of the two tables as lists of addresses.\<close>

record ll_map =
  lm_mem :: "nat \<Rightarrow> ll_cache option"
  lm_idx :: "nat \<Rightarrow> nat list"
  lm_name :: "nat \<Rightarrow> nat list"

definition ll_empty :: ll_map where
  "ll_empty = \<lparr>lm_mem = Map.empty, lm_idx = (\<lambda>_. []), lm_name = (\<lambda>_. [])\<rparr>"

definition IDXMAP_SIZE :: nat where "IDXMAP_SIZE = 1024"

definition idx_slot :: "u32 \<Rightarrow> nat" where
  "idx_slot index = unat index mod IDXMAP_SIZE"

text \<open>\<open>*str\<close> is a signed character.\<close>

fun hash_loop :: "u32 \<Rightarrow> string \<Rightarrow> u32" where
  "hash_loop hash [] = hash"
| "hash_loop hash (c # cs) = hash_loop (push_bit 5 hash + hash + scast (of_char c :: 8 word)) cs"

definition namehash :: "string \<Rightarrow> u32" where
  "namehash str = hash_loop 5381 str"

definition name_slot :: "string \<Rightarrow> nat" where
  "name_slot name = unat (namehash name) mod IDXMAP_SIZE"

text \<open>The first entry of a chain with a property, and its address.\<close>

definition chain_find :: "ll_map \<Rightarrow> (ll_cache \<Rightarrow> bool) \<Rightarrow> nat list \<Rightarrow> nat option" where
  "chain_find m P chain = List.find (\<lambda>p. case lm_mem m p of None \<Rightarrow> False | Some im \<Rightarrow> P im) chain"

definition ll_get_by_index :: "ll_map \<Rightarrow> u32 \<Rightarrow> nat option" where
  "ll_get_by_index m index = chain_find m (\<lambda>im. lc_index im = index) (lm_idx m (idx_slot index))"

definition ll_get_by_name :: "ll_map \<Rightarrow> string \<Rightarrow> nat option" where
  "ll_get_by_name m name =
     chain_find m (\<lambda>im. take IFNAMSIZ (lc_name im) = take IFNAMSIZ name) (lm_name m (name_slot name))"

definition hlist_del :: "nat \<Rightarrow> (nat \<Rightarrow> nat list) \<Rightarrow> nat \<Rightarrow> nat list" where
  "hlist_del p tab = (\<lambda>h. removeAll p (tab h))"

definition hlist_add_head :: "nat \<Rightarrow> nat \<Rightarrow> (nat \<Rightarrow> nat list) \<Rightarrow> nat \<Rightarrow> nat list" where
  "hlist_add_head h p tab = tab(h := p # tab h)"

definition RTM_NEWLINK :: nat where "RTM_NEWLINK = 16"
definition RTM_DELLINK :: nat where "RTM_DELLINK = 17"
definition IFLA_IFNAME :: nat where "IFLA_IFNAME = 3"
definition IFLA_MAX :: nat where "IFLA_MAX = 49"

text \<open>A link message: type, length, the fields of \<open>struct ifinfomsg\<close> that are used, and the
  stream of attributes behind it.\<close>

record link_msg =
  lk_msg_type :: nat
  lk_msg_len :: nat
  lk_index :: u32
  lk_type :: u16
  lk_flags :: u32
  lk_attrs :: bytes

definition c_string :: "bytes \<Rightarrow> string option" where
  "c_string p = (if 0 \<in> set p then Some (map (char_of \<circ> unat) (takeWhile (\<lambda>b. b \<noteq> 0) p)) else None)"

text \<open>
  \<open>ll_remember_index\<close>; \<open>mem\<close> is the address \<open>malloc\<close> returns, if any. \<open>rta_getattr_str\<close> of
  an attribute that is missing is not a null pointer but a pointer into the first page:
  reading the name there is an access outside of every object (\<open>None\<close>), as is a name
  without terminator.
\<close>

definition ll_remember_index :: "nat option \<Rightarrow> link_msg \<Rightarrow> ll_map \<Rightarrow> (int \<times> ll_map) option" where
  "ll_remember_index mem n m =
     (if lk_msg_type n \<noteq> RTM_NEWLINK \<and> lk_msg_type n \<noteq> RTM_DELLINK then Some (0, m)
      else if lk_msg_len n < 32 then Some (- 1, m)
      else let im = ll_get_by_index m (lk_index n) in
        if lk_msg_type n = RTM_DELLINK then
          Some (0, case im of
                     None \<Rightarrow> m
                   | Some p \<Rightarrow> m\<lparr>lm_name := hlist_del p (lm_name m), lm_idx := hlist_del p (lm_idx m),
                                 lm_mem := (lm_mem m)(p := None)\<rparr>)
        else do {
          payload \<leftarrow> fst (parse_rtattr IFLA_MAX (lk_attrs n)) IFLA_IFNAME;
          ifname \<leftarrow> c_string payload;
          case im of
            Some p \<Rightarrow> do {
              e \<leftarrow> lm_mem m p;
              let m1 = (if lc_name e \<noteq> ifname
                        then m\<lparr>lm_name := hlist_add_head (name_slot ifname) p (hlist_del p (lm_name m))\<rparr>
                        else m);
              Some (0, m1\<lparr>lm_mem := (lm_mem m1)(p \<mapsto> e\<lparr>lc_flags := lk_flags n\<rparr>)\<rparr>)
            }
          | None \<Rightarrow>
              (case mem of
                 None \<Rightarrow> Some (0, m)
               | Some p \<Rightarrow>
                   Some (0, m\<lparr>lm_mem := (lm_mem m)(p \<mapsto> \<lparr>lc_flags = lk_flags n, lc_index = lk_index n,
                                                          lc_type = lk_type n, lc_name = ifname\<rparr>),
                              lm_idx := hlist_add_head (idx_slot (lk_index n)) p (lm_idx m),
                              lm_name := hlist_add_head (name_slot ifname) p (lm_name m)\<rparr>))
        })"

definition ll_idx_n2a :: "u32 \<Rightarrow> string" where
  "ll_idx_n2a idx = take (IFNAMSIZ - 1) (''if'' @ dec (unat idx))"

definition ll_index_to_name :: "(u32 \<Rightarrow> string option) \<Rightarrow> ll_map \<Rightarrow> u32 \<Rightarrow> string" where
  "ll_index_to_name indextoname m idx =
     (if idx = 0 then ''*''
      else case Option.bind (ll_get_by_index m idx) (lm_mem m) of
             Some im \<Rightarrow> lc_name im
           | None \<Rightarrow> (case indextoname idx of Some s \<Rightarrow> s | None \<Rightarrow> ll_idx_n2a idx))"

definition ll_index_to_type :: "ll_map \<Rightarrow> u32 \<Rightarrow> int" where
  "ll_index_to_type m idx =
     (if idx = 0 then - 1
      else case Option.bind (ll_get_by_index m idx) (lm_mem m) of Some im \<Rightarrow> uint (lc_type im) | None \<Rightarrow> - 1)"

definition ll_index_to_flags :: "ll_map \<Rightarrow> u32 \<Rightarrow> int" where
  "ll_index_to_flags m idx =
     (if idx = 0 then 0
      else case Option.bind (ll_get_by_index m idx) (lm_mem m) of Some im \<Rightarrow> sint (lc_flags im) | None \<Rightarrow> - 1)"

text \<open>\<open>sscanf\<close> with \<open>if%u\<close> into an \<open>unsigned int\<close>.\<close>

definition ll_idx_a2n :: "string \<Rightarrow> u32" where
  "ll_idx_a2n name =
     (if take 2 name = ''if'' \<and> scan_number 10 (drop 2 name) \<noteq> None
      then word_of_nat (fst (strtoul False (drop 2 name) 10)) else 0)"

definition ll_name_to_index :: "(string \<Rightarrow> u32) \<Rightarrow> ll_map \<Rightarrow> string option \<Rightarrow> u32" where
  "ll_name_to_index nametoindex m name =
     (case name of
        None \<Rightarrow> 0
      | Some s \<Rightarrow>
          (case Option.bind (ll_get_by_name m s) (lm_mem m) of
             Some im \<Rightarrow> lc_index im
           | None \<Rightarrow> (let idx = nametoindex s in if idx = 0 then ll_idx_a2n s else idx)))"

section \<open>Invariant\<close>

text \<open>The entries are exactly those chained, each once and in the chain of its index.\<close>

definition ll_inv :: "ll_map \<Rightarrow> bool" where
  "ll_inv m \<longleftrightarrow> (\<forall>p e. lm_mem m p = Some e \<longrightarrow> p \<in> set (lm_idx m (idx_slot (lc_index e)))) \<and>
     (\<forall>h p. p \<in> set (lm_idx m h) \<longrightarrow> (\<exists>e. lm_mem m p = Some e \<and> idx_slot (lc_index e) = h)) \<and>
     (\<forall>p q e f. lm_mem m p = Some e \<longrightarrow> lm_mem m q = Some f \<longrightarrow> lc_index e = lc_index f \<longrightarrow> p = q)"

lemma ll_inv_empty: "ll_inv ll_empty"
  by (simp add: ll_inv_def ll_empty_def)

lemma get_by_index_Some:
  "ll_get_by_index m i = Some p \<Longrightarrow> \<exists>e. lm_mem m p = Some e \<and> lc_index e = i"
  by (auto simp: ll_get_by_index_def chain_find_def find_Some_iff split: option.splits)

lemma ll_invD:
  assumes "ll_inv m"
  shows "lm_mem m p = Some e \<Longrightarrow> p \<in> set (lm_idx m (idx_slot (lc_index e)))"
    and "q \<in> set (lm_idx m h) \<Longrightarrow> \<exists>e. lm_mem m q = Some e \<and> idx_slot (lc_index e) = h"
    and "lm_mem m p = Some e \<Longrightarrow> lm_mem m q = Some f \<Longrightarrow> lc_index e = lc_index f \<Longrightarrow> p = q"
  using assms unfolding ll_inv_def by blast+

lemma get_by_index_found:
  assumes "ll_inv m" "lm_mem m p = Some e"
  shows "ll_get_by_index m (lc_index e) = Some p"
proof (cases "ll_get_by_index m (lc_index e)")
  case None
  then show ?thesis using ll_invD(1) [OF assms] assms(2)
    by (auto simp: ll_get_by_index_def chain_find_def find_None_iff)
next
  case (Some q)
  then obtain f where "lm_mem m q = Some f" "lc_index f = lc_index e" using get_by_index_Some by blast
  with ll_invD(3) [OF assms(1) assms(2)] Some show ?thesis by auto
qed

lemma ll_inv_del:
  assumes "ll_inv m"
  shows "ll_inv (m\<lparr>lm_name := x, lm_idx := hlist_del p (lm_idx m), lm_mem := (lm_mem m)(p := None)\<rparr>)"
  unfolding ll_inv_def
proof (intro conjI allI impI)
  fix h q assume "q \<in> set (lm_idx (m\<lparr>lm_name := x, lm_idx := hlist_del p (lm_idx m), lm_mem := (lm_mem m)(p := None)\<rparr>) h)"
  then have "q \<noteq> p" "q \<in> set (lm_idx m h)" by (auto simp: hlist_del_def)
  with ll_invD(2) [OF assms] show "\<exists>e. lm_mem (m\<lparr>lm_name := x, lm_idx := hlist_del p (lm_idx m),
      lm_mem := (lm_mem m)(p := None)\<rparr>) q = Some e \<and> idx_slot (lc_index e) = h" by simp
qed (use ll_invD(1,3) [OF assms] in \<open>auto simp: hlist_del_def split: if_splits\<close>)

lemma ll_inv_flags:
  assumes "ll_inv m" "lm_mem m p = Some e"
  shows "ll_inv (m\<lparr>lm_name := x, lm_mem := (lm_mem m)(p \<mapsto> e\<lparr>lc_flags := f\<rparr>)\<rparr>)"
  unfolding ll_inv_def
proof (intro conjI allI impI)
  fix h q assume "q \<in> set (lm_idx (m\<lparr>lm_name := x, lm_mem := (lm_mem m)(p \<mapsto> e\<lparr>lc_flags := f\<rparr>)\<rparr>) h)"
  then obtain g where "lm_mem m q = Some g" "idx_slot (lc_index g) = h"
    using ll_invD(2) [OF assms(1)] by auto
  with assms(2) show "\<exists>e'. lm_mem (m\<lparr>lm_name := x, lm_mem := (lm_mem m)(p \<mapsto> e\<lparr>lc_flags := f\<rparr>)\<rparr>) q = Some e' \<and>
      idx_slot (lc_index e') = h" by (cases "q = p") auto
qed (use ll_invD(1,3) [OF assms(1)] assms(2) in \<open>auto split: if_splits\<close>)

lemma ll_inv_add:
  assumes "ll_inv m" "lm_mem m p = None" "ll_get_by_index m (lc_index e) = None"
  shows "ll_inv (m\<lparr>lm_mem := (lm_mem m)(p \<mapsto> e),
      lm_idx := hlist_add_head (idx_slot (lc_index e)) p (lm_idx m), lm_name := x\<rparr>)"
  unfolding ll_inv_def
proof (intro conjI allI impI)
  fix h q assume "q \<in> set (lm_idx (m\<lparr>lm_mem := (lm_mem m)(p \<mapsto> e),
      lm_idx := hlist_add_head (idx_slot (lc_index e)) p (lm_idx m), lm_name := x\<rparr>) h)"
  then have "q = p \<and> h = idx_slot (lc_index e) \<or> q \<in> set (lm_idx m h)"
    by (auto simp: hlist_add_head_def split: if_splits)
  then show "\<exists>e'. lm_mem (m\<lparr>lm_mem := (lm_mem m)(p \<mapsto> e),
      lm_idx := hlist_add_head (idx_slot (lc_index e)) p (lm_idx m), lm_name := x\<rparr>) q = Some e' \<and>
      idx_slot (lc_index e') = h"
    using ll_invD(2) [OF assms(1), of q h] assms(2) by (cases "q = p") auto
next
  fix q r g g'
  have fresh: "lc_index g \<noteq> lc_index e" if "lm_mem m q = Some g" for q g
    using get_by_index_found [OF assms(1) that] assms(3) by auto
  assume a: "lm_mem (m\<lparr>lm_mem := (lm_mem m)(p \<mapsto> e),
      lm_idx := hlist_add_head (idx_slot (lc_index e)) p (lm_idx m), lm_name := x\<rparr>) q = Some g"
    "lm_mem (m\<lparr>lm_mem := (lm_mem m)(p \<mapsto> e),
      lm_idx := hlist_add_head (idx_slot (lc_index e)) p (lm_idx m), lm_name := x\<rparr>) r = Some g'"
    "lc_index g = lc_index g'"
  show "q = r"
  proof (cases "q = p \<or> r = p")
    case True
    with a fresh [of q g] fresh [of r g'] show ?thesis by (auto split: if_splits)
  next
    case False
    with a ll_invD(3) [OF assms(1), of q g r g'] show ?thesis by simp
  qed
qed (use ll_invD(1) [OF assms(1)] in \<open>fastforce simp: hlist_add_head_def split: if_splits\<close>)

text \<open>The operation keeps the invariant if \<open>malloc\<close> returns unused memory.\<close>

lemma ll_remember_inv:
  assumes "ll_inv m" "ll_remember_index mem n m = Some (rc, m')"
    and "\<And>p. mem = Some p \<Longrightarrow> lm_mem m p = None"
  shows "ll_inv m'"
proof (cases "ll_get_by_index m (lk_index n)")
  case (Some p)
  then obtain e where e: "lm_mem m p = Some e" using get_by_index_Some by blast
  have f: "ll_inv (m\<lparr>lm_mem := (lm_mem m)(p \<mapsto> e\<lparr>lc_flags := lk_flags n\<rparr>)\<rparr>)"
    using ll_inv_flags [OF assms(1) e, where x = "lm_name m"] by simp
  show ?thesis
    using assms(1,2) Some e f ll_inv_flags [OF assms(1) e] ll_inv_del [OF assms(1)]
    by (auto simp: ll_remember_index_def bind_eq_Some_conv Let_def split: if_splits)
next
  case None
  then show ?thesis
    using assms ll_inv_add [of m _ "\<lparr>lc_flags = lk_flags n, lc_index = lk_index n, lc_type = lk_type n, lc_name = _\<rparr>"]
    by (auto simp: ll_remember_index_def bind_eq_Some_conv Let_def split: if_splits option.splits)
qed

text \<open>
  A renamed interface keeps its old name: the entry is moved to the chain of the new name,
  but the name in it is not changed, so the index is still translated to the old name.
\<close>

lemma ll_rename_keeps_old_name:
  assumes "ll_get_by_index m (lk_index n) = Some p" "lm_mem m p = Some e" "lk_index n \<noteq> 0"
    and "lk_msg_type n = RTM_NEWLINK" "32 \<le> lk_msg_len n"
    and "fst (parse_rtattr IFLA_MAX (lk_attrs n)) IFLA_IFNAME = Some payload" "c_string payload = Some name"
  shows "\<exists>m'. ll_remember_index mem n m = Some (0, m') \<and> ll_index_to_name f m' (lk_index n) = lc_name e"
proof -
  have i: "ll_get_by_index (m\<lparr>lm_name := x, lm_mem := (lm_mem m)(p \<mapsto> e\<lparr>lc_flags := g\<rparr>)\<rparr>) (lk_index n) = Some p" for x g
  proof -
    have "(\<lambda>q. case ((lm_mem m)(p \<mapsto> e\<lparr>lc_flags := g\<rparr>)) q of None \<Rightarrow> False | Some im \<Rightarrow> lc_index im = lk_index n)
        = (\<lambda>q. case lm_mem m q of None \<Rightarrow> False | Some im \<Rightarrow> lc_index im = lk_index n)"
      using assms(2) by (auto simp: fun_eq_iff)
    then show ?thesis using assms(1) by (simp add: ll_get_by_index_def chain_find_def)
  qed
  show ?thesis
    using assms i [where x = "lm_name m"] i
    by (auto simp: ll_remember_index_def ll_index_to_name_def RTM_NEWLINK_def RTM_DELLINK_def Let_def)
qed

end
