(* ===== verification/Inet_Sum.thy ===== *)
theory Inet_Sum
  imports Prelude
begin

text \<open>
  The Internet checksum as a specification: the one's complement sum of the big-endian
  16-bit words of a byte string. The locale \<open>inet_checksum\<close> is the contract of a routine
  that computes it for strings of any length, which the kernel module's \<open>checksum\<close> is;
  tcpdump's \<open>in_cksum\<close> computes it where its 32-bit sum does not overflow.
\<close>

section \<open>One's complement sums\<close>

fun ones_sum :: "bytes \<Rightarrow> nat" where
  "ones_sum [] = 0"
| "ones_sum [a] = 256 * unat a"
| "ones_sum (a # b # bs) = 256 * unat a + unat b + ones_sum bs"

text \<open>The 16-bit representative of a sum: 0 only for 0, otherwise in 1 to 65535.\<close>

definition ones_fold :: "nat \<Rightarrow> nat" where
  "ones_fold n = (if n = 0 then 0 else (n - 1) mod 65535 + 1)"

lemma ones_fold_le: "ones_fold n \<le> 65535"
proof -
  have "(n - 1) mod 65535 < 65535" by (rule mod_less_divisor) simp
  then show ?thesis unfolding ones_fold_def by (simp del: mod_less_divisor)
qed

lemma ones_fold_zero [simp]: "ones_fold n = 0 \<longleftrightarrow> n = 0"
  by (simp add: ones_fold_def)

lemma ones_fold_mod: "ones_fold n mod 65535 = n mod 65535"
proof (cases n)
  case (Suc m)
  have "(m mod 65535 + 1) mod 65535 = (m + 1) mod 65535" by (rule mod_add_left_eq)
  with Suc show ?thesis by (simp add: ones_fold_def)
qed (simp add: ones_fold_def)

lemma ones_fold_unique:
  assumes "x \<le> 65535" and "x = 0 \<longleftrightarrow> n = 0" and "x mod 65535 = n mod 65535"
  shows "x = ones_fold n"
proof (cases "n = 0")
  case True
  with assms show ?thesis by simp
next
  case False
  have "x mod 65535 = ones_fold n mod 65535" using assms(3) ones_fold_mod [of n] by simp
  moreover have "0 < x" "0 < ones_fold n"
    using False assms(2) by (simp_all add: ones_fold_def)
  moreover have "y mod 65535 = (if y = 65535 then 0 else y)" if "y \<le> 65535" for y :: nat
    using that by simp
  ultimately show ?thesis
    using assms(1) ones_fold_le [of n] by (metis less_numeral_extra(3))
qed

lemma ones_fold_full: "0 < n \<Longrightarrow> n mod 65535 = 0 \<Longrightarrow> ones_fold n = 65535"
  using ones_fold_unique [of 65535 n] by simp

lemma ones_sum_append: "even (length xs) \<Longrightarrow> ones_sum (xs @ ys) = ones_sum xs + ones_sum ys"
  by (induction xs rule: ones_sum.induct) auto

lemma ones_sum_be2: "v < 65536 \<Longrightarrow> ones_sum (be_bytes 2 v) = v"
  by (simp add: be_bytes_def eval_nat_numeral(3) numeral_2_eq_2 unat_u8_of_nat del: One_nat_def)

section \<open>The contract\<close>

locale inet_checksum =
  fixes csum :: "bytes \<Rightarrow> nat"
  assumes csum_le: "csum bs \<le> 65535"
    and csum_zero: "csum bs = 0 \<longleftrightarrow> ones_sum bs = 0"
    and csum_mod: "csum bs mod 65535 = ones_sum bs mod 65535"
begin

lemma csum_eq: "csum bs = ones_fold (ones_sum bs)"
  by (rule ones_fold_unique) (simp_all add: csum_le csum_zero csum_mod)

text \<open>
  Storing the complement of the sum in a zeroed 16-bit field at an even offset makes the
  whole string sum to all ones.
\<close>

lemma csum_filled:
  assumes "even (length pre)" and "c = csum (pre @ [0, 0] @ post)"
  shows "csum (pre @ be_bytes 2 (65535 - c) @ post) = 65535"
proof -
  let ?t = "ones_sum pre + ones_sum post"
  have t: "ones_sum (pre @ [0, 0] @ post) = ?t"
    using assms(1) by (simp add: ones_sum_append)
  have c: "c \<le> 65535" "c mod 65535 = ?t mod 65535" "c = 0 \<longleftrightarrow> ?t = 0"
    using csum_le csum_mod csum_zero unfolding assms(2) t [symmetric] by simp_all
  have s: "ones_sum (pre @ be_bytes 2 (65535 - c) @ post) = ?t + (65535 - c)"
    using assms(1) by (simp add: ones_sum_append ones_sum_be2)
  have "(?t + (65535 - c)) mod 65535 = (c mod 65535 + (65535 - c)) mod 65535"
    unfolding c(2) by (simp only: mod_add_left_eq)
  also have "\<dots> = 0" using c(1) by (simp only: mod_add_left_eq) simp
  finally have "(?t + (65535 - c)) mod 65535 = 0" .
  moreover have "0 < ?t + (65535 - c)" using c by (cases "c = 0") auto
  ultimately show ?thesis unfolding csum_eq s by (intro ones_fold_full)
qed

end

text \<open>Two routines that meet the contract agree.\<close>

lemma inet_checksum_unique:
  assumes "inet_checksum f" and "inet_checksum g"
  shows "f bs = g bs"
  using inet_checksum.csum_eq [OF assms(1)] inet_checksum.csum_eq [OF assms(2)] by simp

end
