(* ===== verification/Kmod_Checksum.thy ===== *)
theory Kmod_Checksum
  imports Inet_Sum
begin

text \<open>
  The checksum routines of the module (\<open>checksum\<close> and \<open>wrapsum\<close> of
  \<open>kmod/pval_main.c\<close>), which fill in the IP header checksum after the Pval option has been
  inserted.
\<close>

section \<open>checksum and wrapsum\<close>

definition carry :: "u32 \<Rightarrow> u32" where
  "carry acc = (if acc > 0xFFFF then acc - 0xFFFF else acc)"

text \<open>
  The loop adds the byte pairs, each read as a big-endian word through \<open>ntohs\<close>; a single
  byte that is left over is the high byte of a last word.
\<close>

fun checksum_loop :: "bytes \<Rightarrow> u32 \<Rightarrow> u32" where
  "checksum_loop [] acc = acc"
| "checksum_loop [a] acc = carry (acc + push_bit 8 (ucast a))"
| "checksum_loop (a # b # bs) acc =
     checksum_loop bs (carry (acc + ucast (bswap16 (word_of_nat (le_val [a, b])))))"

definition checksum :: "bytes \<Rightarrow> u32 \<Rightarrow> u16" where
  "checksum data acc = ucast (checksum_loop data acc)"

definition wrapsum :: "u32 \<Rightarrow> u16" where
  "wrapsum acc = bswap16 (ucast (NOT acc AND 0xFFFF))"

section \<open>Correctness\<close>

lemma unat_ntohs_pair: "unat (ucast (bswap16 (word_of_nat (le_val [a, b]))) :: u32) = 256 * unat a + unat b"
proof -
  have a: "unat a < 256" and b: "unat b < 256" by (rule unat_u8_less)+
  let ?w = "word_of_nat (le_val [a, b]) :: u16"
  have "unat ?w = le_val [a, b]"
    using a b unfolding unat_u16_of_nat by simp
  moreover have "length [a, b] = 2" by simp
  ultimately have "be_val (le_bytes 2 (unat ?w)) = be_val [a, b]"
    using le_bytes_le_val [of "[a, b]"] by (simp only:)
  also have "\<dots> = 256 * unat a + unat b" by (simp add: be_val_def)
  finally have "bswap16 ?w = word_of_nat (256 * unat a + unat b)"
    by (simp only: bswap16_def)
  then show ?thesis using a b by (simp only: unat_ucast_mod unat_u16_of_nat) simp
qed

lemma unat_shifted_byte: "unat (push_bit 8 (ucast a) :: u32) = 256 * unat (a :: u8)"
proof -
  have "unat a < 256" by (rule unat_u8_less)
  then show ?thesis by (simp add: push_bit_eq_mult unat_word_ariths unat_ucast_mod)
qed

lemma unat_carry:
  assumes "unat s \<le> 65535" and "unat w \<le> 65535"
  shows "unat (carry (s + w)) =
    (if unat s + unat w > 65535 then unat s + unat w - 65535 else unat s + unat w)"
proof -
  have "unat (s + w) = unat s + unat w" using assms by (simp add: unat_word_ariths)
  then show ?thesis
    by (auto simp: carry_def word_less_nat_alt unat_sub_if' word_le_nat_alt)
qed

definition loop_ok :: "u32 \<Rightarrow> nat \<Rightarrow> bool" where
  "loop_ok s n \<longleftrightarrow> unat s \<le> 65535 \<and> unat s mod 65535 = n mod 65535 \<and> (unat s = 0 \<longleftrightarrow> n = 0)"

lemma loop_ok_carry:
  assumes "loop_ok s n" and "unat w \<le> 65535"
  shows "loop_ok (carry (s + w)) (n + unat w)"
proof -
  let ?c = "unat (carry (s + w))"
  have s: "unat s \<le> 65535" "unat s mod 65535 = n mod 65535" "unat s = 0 \<longleftrightarrow> n = 0"
    using assms(1) by (simp_all add: loop_ok_def)
  note c = unat_carry [OF s(1) assms(2)]
  have "?c mod 65535 = (unat s + unat w) mod 65535"
    unfolding c by (simp add: le_mod_geq)
  also have "\<dots> = (n + unat w) mod 65535" using s(2) by (metis mod_add_left_eq)
  finally have "?c mod 65535 = (n + unat w) mod 65535" .
  moreover have "?c \<le> 65535" unfolding c using s(1) assms(2) by auto
  moreover have "?c = 0 \<longleftrightarrow> n + unat w = 0" unfolding c using s(3) by auto
  ultimately show ?thesis by (simp only: loop_ok_def simp_thms)
qed

lemma checksum_loop_ok: "loop_ok s n \<Longrightarrow> loop_ok (checksum_loop bs s) (n + ones_sum bs)"
proof (induction bs s arbitrary: n rule: checksum_loop.induct)
  case (1 acc)
  then show ?case by simp
next
  case (2 a acc)
  have "unat a < 256" by (rule unat_u8_less)
  with loop_ok_carry [OF "2.prems", of "push_bit 8 (ucast a)"] show ?case
    by (simp add: unat_shifted_byte)
next
  case (3 a b bs acc)
  let ?w = "ucast (bswap16 (word_of_nat (le_val [a, b]))) :: u32"
  have "unat a < 256" and "unat b < 256" by (rule unat_u8_less)+
  then have "unat ?w \<le> 65535" unfolding unat_ntohs_pair by linarith
  with "3.IH" [OF loop_ok_carry [OF "3.prems"]] show ?case
    unfolding checksum_loop.simps ones_sum.simps unat_ntohs_pair by (simp only: add.assoc)
qed

lemma unat_checksum:
  "unat (checksum bs 0) \<le> 65535 \<and> unat (checksum bs 0) mod 65535 = ones_sum bs mod 65535 \<and>
   (unat (checksum bs 0) = 0 \<longleftrightarrow> ones_sum bs = 0)"
proof -
  have "loop_ok 0 0" by (simp add: loop_ok_def)
  from checksum_loop_ok [OF this, of bs] have ok: "loop_ok (checksum_loop bs 0) (ones_sum bs)" by simp
  then have "unat (checksum_loop bs 0) \<le> 65535" by (simp add: loop_ok_def)
  then have "unat (checksum bs 0) = unat (checksum_loop bs 0)"
    by (simp add: checksum_def unat_ucast_mod)
  with ok show ?thesis by (simp add: loop_ok_def)
qed

interpretation kc: inet_checksum "\<lambda>bs. unat (checksum bs 0)"
  by unfold_locales (use unat_checksum in simp_all)

text \<open>
  \<open>wrapsum\<close> gives the complement, in network order: the two bytes it leaves in memory are
  the big-endian complement of the sum.
\<close>

lemma wrapsum_bytes:
  "le_bytes 2 (unat (wrapsum (ucast (c :: u16)))) = be_bytes 2 (65535 - unat c)"
proof -
  have "NOT (ucast c) AND (0xFFFF :: u32) = take_bit 16 (NOT (ucast c))"
    by (simp add: take_bit_eq_mask mask_eq_exp_minus_1)
  moreover have "ucast (take_bit 16 (NOT (ucast c)) :: u32) = NOT c"
    by (rule bit_word_eqI) (auto simp: bit_simps)
  ultimately have "ucast (NOT (ucast c) AND 0xFFFF :: u32) = NOT c" by (simp only:)
  then have "wrapsum (ucast c) = bswap16 (NOT c)" by (simp add: wrapsum_def)
  moreover have "unat (NOT c) = 65535 - unat c"
  proof -
    have "NOT c = - 1 - c" by (simp add: not_eq_complement)
    moreover have "unat (- 1 - c) = unat (- 1 :: u16) - unat c" by (rule unat_sub) simp
    moreover have "unat (- 1 :: u16) = 65535" by (simp add: unsigned_minus_1_eq_mask mask_eq_exp_minus_1)
    ultimately show ?thesis by simp
  qed
  moreover have "le_bytes 2 (unat (bswap16 w)) = be_bytes 2 (unat w)" for w
  proof -
    have "be_val (le_bytes 2 (unat w)) < 256 ^ 2" using be_val_bound [of "le_bytes 2 (unat w)"] by simp
    then have "unat (bswap16 w) = be_val (le_bytes 2 (unat w))"
      unfolding bswap16_def unat_u16_of_nat by simp
    then have "le_bytes 2 (unat (bswap16 w)) = le_bytes 2 (le_val (be_bytes 2 (unat w)))"
      by (simp add: be_val_def be_bytes_def)
    also have "\<dots> = be_bytes 2 (unat w)"
      using le_bytes_le_val [of "be_bytes 2 (unat w)"] by simp
    finally show ?thesis .
  qed
  ultimately show ?thesis by simp
qed

text \<open>
  C5. The module's checksum is the Internet checksum: for every byte string, of even or
  odd length, \<open>checksum\<close> started at 0 returns the 16-bit one's complement sum of its
  big-endian words, and if the two bytes of \<open>wrapsum\<close> replace a zeroed word at an even
  offset, the sum over the result is all ones, which is what a receiver checks.
\<close>

theorem checksum_is_internet_checksum:
  "unat (checksum bs 0) = ones_fold (ones_sum bs) \<and>
   (even (length pre) \<longrightarrow>
    checksum (pre @ le_bytes 2 (unat (wrapsum (ucast (checksum (pre @ [0, 0] @ post) 0)))) @ post) 0
      = 0xFFFF)"
proof
  show "unat (checksum bs 0) = ones_fold (ones_sum bs)" by (rule kc.csum_eq)
  show "even (length pre) \<longrightarrow>
    checksum (pre @ le_bytes 2 (unat (wrapsum (ucast (checksum (pre @ [0, 0] @ post) 0)))) @ post) 0
      = 0xFFFF"
    using kc.csum_filled [of pre _ post, OF _ refl]
    by (simp add: wrapsum_bytes word_unat_eq_iff)
qed

theorem checksum_is_internet_checksum_witness:
  "even (length [0x45, 0x00 :: u8]) \<and>
   checksum ([0x45, 0x00] @ le_bytes 2 (unat (wrapsum (ucast (checksum ([0x45, 0x00] @ [0, 0] @ [7]) 0)))) @ [7]) 0
     = 0xFFFF"
  using checksum_is_internet_checksum [of "[]" "[0x45, 0x00]" "[7]"] by simp

end
