(* ===== verification/Xmit.thy ===== *)
theory Xmit
  imports Pval_Dev Kmod_Checksum "HOL-Library.Monad_Syntax"
begin

text \<open>
  The data path of \<open>kmod/pval_main.c\<close>: the transmit handler \<open>pval_xmit\<close> with the
  insertion of the Pval IP option, the workers that wait for a transmit time stamp, and the
  receive handler \<open>pdev_handle_frame\<close>. Calls into the kernel are parameters
  (\<open>xmit_env\<close>, \<open>skb_api\<close>) or entries of the list of calls a handler makes; \<open>None\<close> is an
  access outside an object.
\<close>

section \<open>Insertion of the IP option\<close>

definition ETH_HLEN :: nat where "ETH_HLEN = 14"
definition IPHDR_LEN :: nat where "IPHDR_LEN = 20"
definition ETH_P_IP :: nat where "ETH_P_IP = 0x0800"

text \<open>\<open>iph->ihl += n\<close>, a four-bit field in the low half of the first byte.\<close>

definition add_ihl :: "u8 \<Rightarrow> u8 \<Rightarrow> u8" where
  "add_ihl b n = (b AND 0xF0) OR ((b + n) AND 0x0F)"

definition h_proto :: "bytes \<Rightarrow> nat \<Rightarrow> nat option" where
  "h_proto m eth = map_option be_val (mem_read m (eth + 12) 2)"

definition pval_option :: "nat \<Rightarrow> u64 \<Rightarrow> ipopt_pval" where
  "pval_option cpu seq =
     \<lparr>ipp_type = IPOPT_PVAL, ipp_length = word_of_nat sizeof_ipopt_pval, ipp_reserved = 0,
      ipp_cpu = word_of_nat cpu, ipp_seq = seq\<rparr>"

text \<open>The stores into the packet, from the two \<open>memmove\<close> calls to the checksum.\<close>

definition write_option :: "nat \<Rightarrow> nat \<Rightarrow> nat \<Rightarrow> nat \<Rightarrow> ipopt_pval \<Rightarrow> bytes \<Rightarrow> bytes option" where
  "write_option eth_new eth_old iph_new iph_old ipp m0 = do {
     m1 \<leftarrow> memmove m0 eth_new eth_old ETH_HLEN;
     m2 \<leftarrow> memmove m1 iph_new iph_old IPHDR_LEN;
     m3 \<leftarrow> mem_write m2 (iph_new + IPHDR_LEN) (ipopt_pval_bytes ipp);
     vhl \<leftarrow> nth_opt m3 iph_new;
     m4 \<leftarrow> mem_write m3 iph_new [add_ihl vhl (word_of_nat (sizeof_ipopt_pval div 4))];
     tot \<leftarrow> mem_read m4 (iph_new + 2) 2;
     m5 \<leftarrow> mem_write m4 (iph_new + 2) (be_bytes 2 (be_val tot + sizeof_ipopt_pval));
     m6 \<leftarrow> mem_write m5 (iph_new + 10) [0, 0];
     hdr \<leftarrow> mem_read m6 iph_new (IPHDR_LEN + sizeof_ipopt_pval);
     mem_write m6 (iph_new + 10) (le_bytes 2 (unat (wrapsum (ucast (checksum hdr 0)))))
   }"

definition insert_option :: "skb_api \<Rightarrow> nat \<Rightarrow> u64 \<Rightarrow> sk_buff \<Rightarrow> sk_buff option" where
  "insert_option A cpu seq skb0 = do {
     let eth_old = skb_mac_hdr skb0;
     let iph_old = skb_net_hdr skb0;
     let skb1 = api_skb_push A skb0 sizeof_ipopt_pval;
     let skb2 = api_skb_reset_mac_header A skb1;
     let skb3 = api_skb_set_network_header A skb2 ETH_HLEN;
     buf \<leftarrow> write_option (skb_mac_hdr skb3) eth_old (skb_net_hdr skb3) iph_old
              (pval_option cpu seq) (skb_buf skb3);
     Some (api_skb_orphan A (api_skb_scrub_packet A (skb3\<lparr>skb_buf := buf\<rparr>)))
   }"

section \<open>pval\_xmit\<close>

definition NETDEV_TX_OK :: int where "NETDEV_TX_OK = 0"
definition NETDEV_TX_BUSY :: int where "NETDEV_TX_BUSY = 16"
definition SKBTX_HW_TSTAMP :: u8 where "SKBTX_HW_TSTAMP = 1"

text \<open>
  What the kernel answers during one call: the running CPU, whether the lower link is up,
  whether the two allocations succeed, what \<open>dev_queue_xmit\<close> returns, and the clock.
\<close>

record xmit_env =
  env_cpu :: nat
  env_link_up :: bool
  env_clone_ok :: bool
  env_queue_rc :: "sk_buff \<Rightarrow> int"
  env_worker_ok :: bool
  env_jiffies :: u64

datatype kcall =
    SkbClone sk_buff
  | DevQueueXmit sk_buff
  | KfreeSkb sk_buff
  | ScheduleWork pval_worker
  | KfreeWorker

record xmit_out =
  xo_rc :: int
  xo_pdev :: pval_dev
  xo_skb :: sk_buff
  xo_calls :: "kcall list"

text \<open>
  After the option: time stamp request, clone, transmission, copy to the ring. The clone is a
  copy of the buffer as it is when \<open>skb_clone\<close> is called; a change the lower driver makes to
  the data both share is not seen in it.
\<close>

definition pval_xmit_tail :: "xmit_env \<Rightarrow> pval_dev \<Rightarrow> sk_buff \<Rightarrow> xmit_out option" where
  "pval_xmit_tail E pdev skb0 =
     (let skb = (if pd_txtstamp pdev
                 then skb0\<lparr>skb_tx_flags := skb_tx_flags skb0 OR SKBTX_HW_TSTAMP\<rparr> else skb0);
          cloning = pd_txtstamp pdev \<or> pd_txcopy pdev
      in if cloning \<and> \<not> env_clone_ok E then
           Some \<lparr>xo_rc = NETDEV_TX_BUSY, xo_pdev = pdev, xo_skb = skb, xo_calls = []\<rparr>
         else
           let clone = skb;
               out = skb\<lparr>skb_dev := the (pd_link pdev)\<rparr>;
               rc = env_queue_rc E out;
               calls = (if cloning then [SkbClone clone] else []) @ [DevQueueXmit out]
           in if rc \<noteq> NETDEV_TX_OK then
                Some \<lparr>xo_rc = rc, xo_pdev = pdev, xo_skb = out, xo_calls = calls\<rparr>
              else if pd_txtstamp pdev then
                Some \<lparr>xo_rc = rc, xo_pdev = pdev, xo_skb = out,
                      xo_calls = calls @
                        (if env_worker_ok E
                         then [ScheduleWork \<lparr>wk_skb = clone, wk_ring = env_cpu E,
                                             wk_start = env_jiffies E\<rparr>]
                         else [])\<rparr>
              else if pd_txcopy pdev then do {
                md \<leftarrow> pdev_tx_pmdev pdev (env_cpu E);
                pdev' \<leftarrow> (if md_opened md
                          then map_option (\<lambda>(n, r). set_tx_ring (env_cpu E) r pdev)
                                 (write_to_ring (md_ring md) clone)
                          else Some pdev);
                Some \<lparr>xo_rc = rc, xo_pdev = pdev', xo_skb = out, xo_calls = calls @ [KfreeSkb clone]\<rparr>
              } else Some \<lparr>xo_rc = rc, xo_pdev = pdev, xo_skb = out, xo_calls = calls\<rparr>)"

definition pval_xmit :: "skb_api \<Rightarrow> xmit_env \<Rightarrow> pval_dev \<Rightarrow> sk_buff \<Rightarrow> xmit_out option" where
  "pval_xmit A E pdev skb =
     (if \<not> env_link_up E then
        Some \<lparr>xo_rc = NETDEV_TX_BUSY, xo_pdev = pdev, xo_skb = skb, xo_calls = []\<rparr>
      else if \<not> pd_ipopt pdev then pval_xmit_tail E pdev skb
      else do {
        proto \<leftarrow> h_proto (skb_buf skb) (skb_mac_hdr skb);
        if proto \<noteq> ETH_P_IP then pval_xmit_tail E pdev skb
        else do {
          skb' \<leftarrow> insert_option A (env_cpu E) (pd_seq pdev) skb;
          pval_xmit_tail E (pdev\<lparr>pd_seq := pd_seq pdev + 1\<rparr>) skb'
        }
      })"

section \<open>Time stamp workers\<close>

text \<open>
  \<open>time_is_before_jiffies(start + PVAL_TXTSTAMP_TIMEOUT)\<close>: the sign of the wrapped
  difference to the clock decides; \<open>hz\<close> is the kernel's \<open>HZ\<close>.
\<close>

definition txtstamp_timeout :: "u64 \<Rightarrow> u64 \<Rightarrow> u64 \<Rightarrow> bool" where
  "txtstamp_timeout hz start now \<longleftrightarrow> sint (start + hz * 1 - now) < 0"

definition pval_txtstamp_work2 ::
    "u64 \<Rightarrow> u64 \<Rightarrow> pval_worker \<Rightarrow> pval_dev \<Rightarrow> (pval_dev \<times> kcall list) option" where
  "pval_txtstamp_work2 hz now worker pdev =
     (let timeout = txtstamp_timeout hz (wk_start worker) now in
      if skb_hwtstamp (wk_skb worker) \<noteq> 0 then do {
        md \<leftarrow> pdev_tx_pmdev pdev (wk_ring worker);
        (n, r) \<leftarrow> write_to_ring (md_ring md) (wk_skb worker);
        Some (set_tx_ring (wk_ring worker) r pdev, [KfreeSkb (wk_skb worker), KfreeWorker])
      }
      else if timeout then Some (pdev, [KfreeSkb (wk_skb worker)])
      else Some (pdev, [ScheduleWork worker]))"

definition pval_txtstamp_work ::
    "u64 \<Rightarrow> u64 \<Rightarrow> bool \<Rightarrow> pval_mdev \<Rightarrow> (pval_mdev \<times> sk_buff list \<times> bool) option" where
  \<comment> \<open>result: the device, the buffers freed, whether the work is scheduled again\<close>
  "pval_txtstamp_work hz now txcopy md =
     (let timeout = txtstamp_timeout hz (md_txtstamp_start md) now in
      case md_cloned_skb md of
        None \<Rightarrow> Some (md, [], False)
      | Some skb \<Rightarrow>
          if skb_hwtstamp skb \<noteq> 0 then do {
            md' \<leftarrow> (if txcopy \<and> md_opened md
                    then map_option (\<lambda>(n, r). md\<lparr>md_ring := r\<rparr>) (write_to_ring (md_ring md) skb)
                    else Some md);
            Some (md'\<lparr>md_cloned_skb := None\<rparr>, [skb], False)
          }
          else if timeout then Some (md\<lparr>md_cloned_skb := None\<rparr>, [skb], False)
          else Some (md, [], True))"

section \<open>Receive handler\<close>

datatype rx_handler_result = RX_HANDLER_CONSUMED | RX_HANDLER_ANOTHER

text \<open>
  \<open>shared\<close> is what \<open>skb_share_check\<close> returns: the buffer itself or a clone of it, or
  nothing when the clone could not be allocated. The second component of the result is
  the new value of \<open>*pskb\<close>.
\<close>

definition pdev_handle_frame ::
    "nat \<Rightarrow> pval_dev \<Rightarrow> sk_buff \<Rightarrow> sk_buff option \<Rightarrow>
     (rx_handler_result \<times> sk_buff \<times> pval_dev) option" where
  "pdev_handle_frame cpu pdev pskb shared =
     (case shared of
        None \<Rightarrow> Some (RX_HANDLER_CONSUMED, pskb, pdev)
      | Some skb0 \<Rightarrow>
          let skb = skb0\<lparr>skb_dev := pd_dev pdev, skb_pkt_host := True\<rparr> in
          if pd_rxcopy pdev then do {
            md \<leftarrow> pdev_rx_pmdev pdev cpu;
            if md_opened md then do {
              (n, r) \<leftarrow> write_to_ring (md_ring md) skb;
              Some (RX_HANDLER_ANOTHER, skb, set_rx_ring cpu r pdev)
            } else Some (RX_HANDLER_ANOTHER, skb, pdev)
          } else Some (RX_HANDLER_ANOTHER, skb, pdev))"

section \<open>The packet after the insertion\<close>

text \<open>
  The header the insertion is to produce from the 20 bytes of an IP header and the option:
  header length and total length adapted, checksum over these 32 bytes.
\<close>

definition new_iphdr :: "bytes \<Rightarrow> bytes \<Rightarrow> bytes" where
  "new_iphdr h opt =
     (let front = [add_ihl (h ! 0) 3, h ! 1] @ be_bytes 2 (be_val (take 2 (drop 2 h)) + 12)
                  @ take 6 (drop 4 h)
      in front @ be_bytes 2 (65535 - unat (checksum (front @ [0, 0] @ drop 12 h @ opt) 0))
         @ drop 12 h)"

lemma length_new_iphdr [simp]: "length h = 20 \<Longrightarrow> length (new_iphdr h opt) = 20"
  by (simp add: new_iphdr_def Let_def)

lemma checksum_new_iphdr:
  "length h = 20 \<Longrightarrow> checksum (new_iphdr h opt @ opt) 0 = 0xFFFF"
  using kc.csum_filled [of "[add_ihl (h ! 0) 3, h ! 1] @ be_bytes 2 (be_val (take 2 (drop 2 h)) + 12)
      @ take 6 (drop 4 h)" _ "drop 12 h @ opt", OF _ refl]
  by (simp add: new_iphdr_def Let_def word_unat_eq_iff)

lemma iphdr_pieces:
  "length h = 20 \<Longrightarrow> h = [h ! 0] @ [h ! 1] @ take 2 (drop 2 h) @ take 6 (drop 4 h)
     @ take 2 (drop 10 h) @ drop 12 h"
proof -
  assume "length h = 20"
  then obtain a b t where h: "h = a # b # t" by (cases h; cases "tl h") auto
  have "t = take 2 t @ take 6 (drop 2 t) @ take 2 (drop 6 (drop 2 t)) @ drop 2 (drop 6 (drop 2 t))"
    by (simp only: append_take_drop_id)
  then show ?thesis by (simp add: h)
qed

lemma move_headers:
  assumes "e = length P" and "length X = 12" and "length E = 14" and "length I = 20"
  shows "memmove (P @ X @ E @ I @ R) e (e + 12) 14 = Some (P @ E @ drop 2 E @ I @ R)"
    and "memmove (P @ E @ drop 2 E @ I @ R) (e + 14) (e + 26) 20 = Some (P @ E @ I @ drop 8 I @ R)"
proof -
  have "mem_read (P @ X @ E @ I @ R) (e + 12) 14 = Some E"
    using mem_read_mid [of "e + 12" "P @ X" 14 E "I @ R"] assms by simp
  moreover have "mem_write (P @ X @ E @ I @ R) e E = Some (P @ E @ drop 2 E @ I @ R)"
    using mem_write_mid [of e P E "X @ take 2 E" "drop 2 E @ I @ R"] assms by simp
  ultimately show "memmove (P @ X @ E @ I @ R) e (e + 12) 14 = Some (P @ E @ drop 2 E @ I @ R)"
    by (simp add: memmove_def)
  have "mem_read (P @ E @ drop 2 E @ I @ R) (e + 26) 20 = Some I"
    using mem_read_mid [of "e + 26" "P @ E @ drop 2 E" 20 I R] assms by simp
  moreover have "mem_write (P @ E @ drop 2 E @ I @ R) (e + 14) I = Some (P @ E @ I @ drop 8 I @ R)"
    using mem_write_mid [of "e + 14" "P @ E" I "drop 2 E @ take 8 I" "drop 8 I @ R"] assms by simp
  ultimately show
    "memmove (P @ E @ drop 2 E @ I @ R) (e + 14) (e + 26) 20 = Some (P @ E @ I @ drop 8 I @ R)"
    by (simp add: memmove_def)
qed

text \<open>The stores into the moved header, with the header cut into its fields.\<close>

lemma write_header_fields:
  fixes Q Z :: bytes
  assumes "length t = 2" and "length m = 6" and "length c = 2" and "length z = 8"
    and "length opt = 12" and "h = length Q"
    and front: "front = [add_ihl a 3, b] @ be_bytes 2 (be_val t + 12) @ m"
  shows "do {
     m4 \<leftarrow> mem_write (Q @ ([a, b] @ t @ m @ c @ z) @ opt @ R) h [add_ihl a 3];
     tot \<leftarrow> mem_read m4 (h + 2) 2;
     m5 \<leftarrow> mem_write m4 (h + 2) (be_bytes 2 (be_val tot + 12));
     m6 \<leftarrow> mem_write m5 (h + 10) [0, 0];
     hdr \<leftarrow> mem_read m6 h (20 + 12);
     mem_write m6 (h + 10) (le_bytes 2 (unat (wrapsum (ucast (checksum hdr 0)))))
   } = Some (Q @ (front @ be_bytes 2 (65535 - unat (checksum (front @ [0, 0] @ z @ opt) 0)) @ z)
              @ opt @ R)"
proof -
  note len = assms(1-6)
  let ?Q2 = "Q @ [add_ihl a 3, b]" and ?Q10 = "Q @ front"
  have fl: "length front = 10" by (simp add: front len(2))
  have 1: "mem_write (Q @ [a] @ ([b] @ t @ m @ c @ z @ opt @ R)) h [add_ihl a 3]
      = Some (Q @ [add_ihl a 3] @ ([b] @ t @ m @ c @ z @ opt @ R))"
    by (rule mem_write_mid) (simp_all add: len(6))
  have 2: "mem_read (?Q2 @ t @ (m @ c @ z @ opt @ R)) (h + 2) 2 = Some t"
    by (rule mem_read_mid) (simp_all add: len(1,6))
  have 3: "mem_write (?Q2 @ t @ (m @ c @ z @ opt @ R)) (h + 2) (be_bytes 2 (be_val t + 12))
      = Some (?Q2 @ be_bytes 2 (be_val t + 12) @ (m @ c @ z @ opt @ R))"
    by (rule mem_write_mid) (simp_all add: len(1,6))
  have 4: "mem_write (?Q10 @ c @ (z @ opt @ R)) (h + 10) [0, 0] = Some (?Q10 @ [0, 0] @ (z @ opt @ R))"
    by (rule mem_write_mid) (simp_all add: len(3,6) fl)
  have 5: "mem_read (Q @ (front @ [0, 0] @ z @ opt) @ R) h (20 + 12) = Some (front @ [0, 0] @ z @ opt)"
    by (rule mem_read_mid) (simp_all add: len(4,5,6) fl)
  have 6: "mem_write (?Q10 @ [0, 0] @ (z @ opt @ R)) (h + 10) (be_bytes 2 v)
      = Some (?Q10 @ be_bytes 2 v @ (z @ opt @ R))" for v
    by (rule mem_write_mid) (simp_all add: len(6) fl)
  note steps = 1 2 3 4 [unfolded front] 5 [unfolded front] 6 [unfolded front]
  show ?thesis
    unfolding front
    by (simp only: steps [unfolded append_assoc append_Cons append_Nil] append_assoc append_Cons
        append_Nil Option.bind.simps wrapsum_bytes)
qed

lemma write_option_eq:
  assumes "e = length P" and "length X = 12" and "length E = 14" and "length I = 20"
  shows "write_option e (e + 12) (e + 14) (e + 26) ipp (P @ X @ E @ I @ R) =
    Some (P @ E @ new_iphdr I (ipopt_pval_bytes ipp) @ ipopt_pval_bytes ipp @ R)"
proof -
  let ?opt = "ipopt_pval_bytes ipp" and ?Q = "P @ E"
  have opt: "length ?opt = 12" by (simp add: sizeof_ipopt_pval_def)
  have 3: "mem_write ((P @ E @ I) @ drop 8 I @ R) (e + 14 + 20) ?opt = Some ((P @ E @ I) @ ?opt @ R)"
    by (rule mem_write_mid) (simp_all add: assms sizeof_ipopt_pval_def)
  have 4: "nth_opt (P @ E @ I @ ?opt @ R) (e + 14) = Some (I ! 0)"
    using assms by (simp add: nth_opt_def nth_append)
  have I: "I = [I ! 0, I ! 1] @ take 2 (drop 2 I) @ take 6 (drop 4 I) @ take 2 (drop 10 I) @ drop 12 I"
    using iphdr_pieces [OF assms(4)] by simp
  have "do {
     m4 \<leftarrow> mem_write (?Q @ I @ ?opt @ R) (e + 14) [add_ihl (I ! 0) 3];
     tot \<leftarrow> mem_read m4 (e + 14 + 2) 2;
     m5 \<leftarrow> mem_write m4 (e + 14 + 2) (be_bytes 2 (be_val tot + 12));
     m6 \<leftarrow> mem_write m5 (e + 14 + 10) [0, 0];
     hdr \<leftarrow> mem_read m6 (e + 14) (20 + 12);
     mem_write m6 (e + 14 + 10) (le_bytes 2 (unat (wrapsum (ucast (checksum hdr 0)))))
   } = Some (?Q @ new_iphdr I ?opt @ ?opt @ R)"
    unfolding new_iphdr_def Let_def
    using write_header_fields [of "take 2 (drop 2 I)" "take 6 (drop 4 I)" "take 2 (drop 10 I)"
        "drop 12 I" ?opt "e + 14" ?Q _ "I ! 0" "I ! 1", OF _ _ _ _ opt _ refl, folded I]
    by (simp add: assms)
  then show ?thesis
    unfolding write_option_def ETH_HLEN_def IPHDR_LEN_def sizeof_ipopt_pval_def
    using move_headers [OF assms] 3 4 by (simp add: add.commute)
qed

text \<open>
  The buffer of a locally sent Ethernet frame with an IP header: the data pointer is at the
  MAC header, the network header follows it, the headroom that \<open>pval_newlink\<close> asks for
  is there, and both headers are in linear memory.
\<close>

definition skb_frame :: "sk_buff \<Rightarrow> bytes" where
  "skb_frame s = drop (skb_data s) (skb_buf s)"

definition eth_ip_skb :: "sk_buff \<Rightarrow> bool" where
  "eth_ip_skb s \<longleftrightarrow> skb_mac_hdr s = skb_data s \<and> skb_net_hdr s = skb_data s + 14 \<and>
     12 \<le> skb_data s \<and> skb_data s + 34 \<le> length (skb_buf s)"

definition option_frame :: "nat \<Rightarrow> u64 \<Rightarrow> bytes \<Rightarrow> bytes" where
  "option_frame cpu seq f =
     (let opt = ipopt_pval_bytes (pval_option cpu seq)
      in take 14 f @ new_iphdr (take 20 (drop 14 f)) opt @ opt @ drop 34 f)"

lemma frame_pieces:
  assumes "12 \<le> d" and "d + 34 \<le> length (b :: bytes)"
  defines "f \<equiv> drop d b"
  shows "b = take (d - 12) b @ take 12 (drop (d - 12) b) @ take 14 f @ take 20 (drop 14 f) @ drop 34 f"
    and "length (take (d - 12) b) = d - 12" and "length (take 12 (drop (d - 12) b)) = 12"
    and "length (take 14 f) = 14" and "length (take 20 (drop 14 f)) = 20"
proof -
  have "b = take (d - 12) b @ take 12 (drop (d - 12) b) @ drop 12 (drop (d - 12) b)"
    by (simp only: append_take_drop_id)
  also have "drop 12 (drop (d - 12) b) = f" using assms by simp
  also have "f = take 14 f @ take 20 (drop 14 f) @ drop 20 (drop 14 f)"
    by (simp only: append_take_drop_id)
  also have "drop 20 (drop 14 f) = drop 34 f" by simp
  finally show "b = take (d - 12) b @ take 12 (drop (d - 12) b) @ take 14 f @ take 20 (drop 14 f)
      @ drop 34 f" .
qed (use assms in auto)

lemma same_frameD:
  assumes "same_frame a b"
  shows "skb_buf a = skb_buf b" "skb_data a = skb_data b" "skb_len a = skb_len b"
    "skb_mac_len a = skb_mac_len b" "skb_mac_hdr a = skb_mac_hdr b" "skb_net_hdr a = skb_net_hdr b"
  using assms by (simp_all add: same_frame_def)

lemma insert_option_frame:
  assumes api: "skb_api_ok A" and s: "eth_ip_skb s"
  shows "\<exists>s'. insert_option A cpu seq s = Some s' \<and> skb_data s' = skb_data s - 12 \<and>
     skb_mac_hdr s' = skb_data s' \<and> skb_net_hdr s' = skb_data s' + 14 \<and> skb_len s' = skb_len s + 12 \<and>
     skb_mac_len s' = skb_mac_len s \<and>
     length (skb_buf s') = length (skb_buf s) \<and> take (skb_data s') (skb_buf s') = take (skb_data s') (skb_buf s) \<and>
     skb_frame s' = option_frame cpu seq (skb_frame s)"
proof -
  let ?d = "skb_data s" and ?b = "skb_buf s"
  let ?P = "take (?d - 12) ?b" and ?f = "drop ?d ?b" and ?opt = "ipopt_pval_bytes (pval_option cpu seq)"
  have d: "12 \<le> ?d" "?d + 34 \<le> length ?b" "skb_mac_hdr s = ?d - 12 + 12" "skb_net_hdr s = ?d - 12 + 26"
    using s by (auto simp: eth_ip_skb_def)
  define s3 where "s3 = api_skb_set_network_header A
    (api_skb_reset_mac_header A (api_skb_push A s sizeof_ipopt_pval)) ETH_HLEN"
  have s3: "same_frame s3 (s\<lparr>skb_data := ?d - 12, skb_len := skb_len s + 12,
      skb_mac_hdr := ?d - 12, skb_net_hdr := ?d - 12 + 14\<rparr>)"
    using api d(1) unfolding s3_def skb_api_ok_def
    by (simp add: same_frame_def sizeof_ipopt_pval_def ETH_HLEN_def)
  define buf where
    "buf = ?P @ take 14 ?f @ new_iphdr (take 20 (drop 14 ?f)) ?opt @ ?opt @ drop 34 ?f"
  note pieces = frame_pieces [OF d(1,2)]
  have "write_option (?d - 12) (?d - 12 + 12) (?d - 12 + 14) (?d - 12 + 26) (pval_option cpu seq) ?b
      = Some buf"
    unfolding buf_def
    using write_option_eq [OF pieces(2) [symmetric] pieces(3,4,5)] pieces(1) by metis
  then have w: "write_option (skb_mac_hdr s3) (skb_mac_hdr s) (skb_net_hdr s3) (skb_net_hdr s)
      (pval_option cpu seq) (skb_buf s3) = Some buf"
    using same_frameD [OF s3] d by simp
  define s' where "s' = api_skb_orphan A (api_skb_scrub_packet A (s3\<lparr>skb_buf := buf\<rparr>))"
  have s': "same_frame s' (s3\<lparr>skb_buf := buf\<rparr>)"
    using api unfolding s'_def skb_api_ok_def by (simp add: same_frame_def)
  have "insert_option A cpu seq s = Some s'"
    unfolding insert_option_def Let_def using w by (simp add: s'_def s3_def)
  moreover have "length buf = length ?b"
    unfolding buf_def using pieces(2,4,5) d(1,2) by (simp add: sizeof_ipopt_pval_def)
  moreover have "take (?d - 12) buf = ?P"
    unfolding buf_def using pieces(2) by simp
  moreover have "drop (?d - 12) buf = option_frame cpu seq ?f"
    unfolding buf_def using pieces(2) by (simp add: option_frame_def Let_def)
  moreover have "skb_data s' = ?d - 12" "skb_mac_hdr s' = ?d - 12" "skb_net_hdr s' = ?d - 12 + 14"
      "skb_len s' = skb_len s + 12" "skb_mac_len s' = skb_mac_len s" "skb_buf s' = buf"
    using same_frameD [OF s'] same_frameD [OF s3] by simp_all
  ultimately show ?thesis
    unfolding skb_frame_def by (intro exI [of _ s'] conjI) simp_all
qed

end
