(* ===== verification/Xmit_Correct.thy ===== *)
theory Xmit_Correct
  imports Xmit
begin

text \<open>
  Correctness of the data path: the frame the transmit handler hands to the lower link, the
  validity of its IP header, what is copied to the ring, which clones are released, and the
  receive handler.
\<close>

section \<open>The transmitted frame\<close>

lemma h_proto_frame:
  "eth_ip_skb s \<Longrightarrow> h_proto (skb_buf s) (skb_mac_hdr s) = Some (be_val (take 2 (drop 12 (skb_frame s))))"
  by (simp add: h_proto_def eth_ip_skb_def skb_frame_def mem_read_def add.commute)

text \<open>A concrete implementation of the kernel's buffer functions.\<close>

definition plain_api :: skb_api where
  "plain_api = \<lparr>
     api_skb_push = (\<lambda>s n. s\<lparr>skb_data := skb_data s - n, skb_len := skb_len s + word_of_nat n\<rparr>),
     api_skb_reset_mac_header = (\<lambda>s. s\<lparr>skb_mac_hdr := skb_data s\<rparr>),
     api_skb_set_network_header = (\<lambda>s n. s\<lparr>skb_net_hdr := skb_data s + n\<rparr>),
     api_skb_scrub_packet = (\<lambda>s. s\<lparr>skb_pkt_host := True\<rparr>),
     api_skb_orphan = (\<lambda>s. s)\<rparr>"

lemma plain_api_ok: "skb_api_ok plain_api"
  by (simp add: skb_api_ok_def plain_api_def same_frame_def)

definition example_frame :: bytes where
  "example_frame = replicate 12 0xAA @ [0x08, 0x00]
     @ [0x45, 0, 0, 20, 0, 1, 0, 0, 64, 1, 0, 0, 10, 0, 0, 3, 10, 0, 0, 2]"

definition example_tx_skb :: sk_buff where
  "example_tx_skb = \<lparr>skb_len = 34, skb_mac_len = 0, skb_buf = replicate 24 0 @ example_frame,
     skb_data = 24, skb_mac_hdr = 24, skb_net_hdr = 38, skb_dev = 0, skb_pkt_host = False,
     skb_tx_flags = 0, skb_hwtstamp = 0\<rparr>"

definition example_env :: xmit_env where
  "example_env = \<lparr>env_cpu = 0, env_link_up = True, env_clone_ok = True, env_queue_rc = (\<lambda>_. 0),
     env_worker_ok = True, env_jiffies = 0\<rparr>"

definition example_mdev :: pval_mdev where
  "example_mdev = \<lparr>md_name = [], md_cpu = 0, md_opened = True, md_ring = example_ring,
     md_txtstamp_start = 0, md_cloned_skb = None\<rparr>"

definition example_pdev :: pval_dev where
  "example_pdev = \<lparr>pd_name = ''pval0'', pd_dev = 7, pd_link = Some 3, pd_seq = 46, pd_ipopt = True,
     pd_txtstamp = False, pd_rxtstamp = False, pd_txcopy = True, pd_rxcopy = True,
     pd_txbusydrop = True, pd_original_config = \<lparr>hc_flags = 0, hc_tx_type = 0, hc_rx_filter = 0\<rparr>,
     pd_num_cpus = 1, pd_txmdevs = replicate 16 example_mdev, pd_rxmdevs = replicate 16 example_mdev\<rparr>"

lemma example_pdev_inv: "pdev_inv example_pdev"
  using example_ring_inv by (simp add: pdev_inv_def example_pdev_def example_mdev_def PVAL_MAX_CPUS_def)

lemma example_tx_skb_eth_ip: "eth_ip_skb example_tx_skb"
  by (simp add: eth_ip_skb_def example_tx_skb_def example_frame_def)

lemma example_tx_skb_frame: "skb_frame example_tx_skb = example_frame"
  by (simp add: skb_frame_def example_tx_skb_def)

lemma example_frame_proto: "be_val (take 2 (drop 12 example_frame)) = ETH_P_IP"
  by (simp add: example_frame_def be_val_def ETH_P_IP_def)

text \<open>The packets the option is inserted into: conditions on device, link and buffer.\<close>

definition option_due :: "skb_api \<Rightarrow> xmit_env \<Rightarrow> pval_dev \<Rightarrow> sk_buff \<Rightarrow> bool" where
  "option_due A E pdev s \<longleftrightarrow> skb_api_ok A \<and> eth_ip_skb s \<and> env_link_up E \<and> pd_ipopt pdev \<and>
     be_val (take 2 (drop 12 (skb_frame s))) = ETH_P_IP"

lemma xmit_with_option:
  assumes "option_due A E pdev s"
  shows "\<exists>s'. pval_xmit A E pdev s = pval_xmit_tail E (pdev\<lparr>pd_seq := pd_seq pdev + 1\<rparr>) s' \<and>
              skb_frame s' = option_frame (env_cpu E) (pd_seq pdev) (skb_frame s) \<and>
              skb_len s' = skb_len s + 12 \<and> skb_data s' = skb_data s - 12 \<and>
              length (skb_buf s') = length (skb_buf s) \<and> take (skb_data s') (skb_buf s') = take (skb_data s') (skb_buf s)"
proof -
  obtain s' where "insert_option A (env_cpu E) (pd_seq pdev) s = Some s'" "skb_data s' = skb_data s - 12"
      "skb_frame s' = option_frame (env_cpu E) (pd_seq pdev) (skb_frame s)"
      "skb_len s' = skb_len s + 12" "length (skb_buf s') = length (skb_buf s)"
      "take (skb_data s') (skb_buf s') = take (skb_data s') (skb_buf s)"
    using insert_option_frame [of A s] assms unfolding option_due_def by metis
  with assms show ?thesis by (auto simp: option_due_def pval_xmit_def h_proto_frame)
qed

text \<open>
  C6. With \<open>ipopt\<close> on and the lower link up, an IP packet leaves \<open>pval_xmit\<close> towards the rest
  of the transmit path with exactly the Pval option inserted: the Ethernet header in front,
  the IP header with adapted lengths and checksum, the option with the CPU and the device's
  sequence number, then the rest of the packet unchanged; the length grows by 12 and the
  sequence number by one. This is for a buffer whose data start at the MAC header, with the
  IP header behind it, at least 34 bytes of linear data and at least 12 bytes of headroom; of
  the memory in front of the data only these 12 bytes change. The handler checks none of
  these conditions on the buffer.
\<close>

theorem xmit_inserts_option:
  assumes "skb_api_ok A" and "eth_ip_skb s" and "env_link_up E" and "pd_ipopt pdev"
    and "be_val (take 2 (drop 12 (skb_frame s))) = ETH_P_IP"
  shows "\<exists>s'. pval_xmit A E pdev s = pval_xmit_tail E (pdev\<lparr>pd_seq := pd_seq pdev + 1\<rparr>) s' \<and>
              skb_frame s' = option_frame (env_cpu E) (pd_seq pdev) (skb_frame s) \<and>
              skb_len s' = skb_len s + 12 \<and> skb_data s' = skb_data s - 12 \<and>
              length (skb_buf s') = length (skb_buf s) \<and> take (skb_data s') (skb_buf s') = take (skb_data s') (skb_buf s)"
  using assms by (intro xmit_with_option) (simp add: option_due_def)

theorem xmit_inserts_option_witness:
  "skb_api_ok plain_api \<and> eth_ip_skb example_tx_skb \<and>
   (\<exists>s'. pval_xmit plain_api example_env example_pdev example_tx_skb
           = pval_xmit_tail example_env (example_pdev\<lparr>pd_seq := 47\<rparr>) s' \<and>
         skb_frame s' = option_frame 0 46 example_frame \<and> skb_len s' = 46)"
proof -
  have "env_link_up example_env" "pd_ipopt example_pdev" "pd_seq example_pdev = 46"
    "env_cpu example_env = 0" "skb_len example_tx_skb = 34"
    by (simp_all add: example_env_def example_pdev_def example_tx_skb_def)
  with xmit_inserts_option [OF plain_api_ok example_tx_skb_eth_ip, of example_env example_pdev]
  show ?thesis
    using plain_api_ok example_tx_skb_eth_ip example_frame_proto by (auto simp: example_tx_skb_frame)
qed

lemma new_iphdr_fields:
  assumes h: "length h = 20"
  shows "new_iphdr h opt ! 0 = add_ihl (h ! 0) 3"
    and "take 2 (drop 2 (new_iphdr h opt)) = be_bytes 2 (be_val (take 2 (drop 2 h)) + 12)"
    and "drop 12 (new_iphdr h opt) = drop 12 h"
  using h by (simp_all add: new_iphdr_def Let_def)

text \<open>The frame with the option, field by field, when the header had no options.\<close>

lemma option_frame_fields:
  assumes "34 \<le> length f" and "f ! 14 = 0x45" and "be_val (take 2 (drop 16 f)) + 12 < 65536"
  shows "option_frame cpu seq f ! 14 = 0x48 \<and>
         be_val (take 2 (drop 16 (option_frame cpu seq f))) = be_val (take 2 (drop 16 f)) + 12 \<and>
         checksum (take 32 (drop 14 (option_frame cpu seq f))) 0 = 0xFFFF \<and>
         ipopt_pval_of (take 12 (drop 34 (option_frame cpu seq f))) = Some (pval_option cpu seq) \<and>
         take 14 (option_frame cpu seq f) = take 14 f \<and>
         take 8 (drop 26 (option_frame cpu seq f)) = take 8 (drop 26 f) \<and>
         drop 46 (option_frame cpu seq f) = drop 34 f"
proof -
  let ?opt = "ipopt_pval_bytes (pval_option cpu seq)" and ?h = "take 20 (drop 14 f)"
  let ?n = "new_iphdr ?h ?opt"
  have h: "length ?h = 20" and e: "length (take 14 f) = 14" using assms(1) by simp_all
  have opt: "length ?opt = 12" by (simp add: sizeof_ipopt_pval_def)
  have n: "length ?n = 20" using h by (rule length_new_iphdr)
  have f': "option_frame cpu seq f = take 14 f @ ?n @ ?opt @ drop 34 f"
    by (simp add: option_frame_def Let_def)
  have h0: "?h ! 0 = 0x45" using assms(1,2) by simp
  have "take 2 (drop 2 ?h) = take 2 (drop 16 f)" by (simp add: take_drop)
  moreover have "drop 12 ?h = take 8 (drop 26 f)" by (simp add: drop_take)
  ultimately have fields: "?n ! 0 = 0x48"
    "take 2 (drop 2 ?n) = be_bytes 2 (be_val (take 2 (drop 16 f)) + 12)"
    "drop 12 ?n = take 8 (drop 26 f)"
    using new_iphdr_fields [OF h, of ?opt] h0 by (simp_all add: add_ihl_def)
  have "option_frame cpu seq f ! 14 = ?n ! 0"
    using e n unfolding f' by (simp add: nth_append)
  moreover have "take 2 (drop 16 (option_frame cpu seq f)) = take 2 (drop 2 ?n)"
    using e n unfolding f' by simp
  moreover have "take 32 (drop 14 (option_frame cpu seq f)) = ?n @ ?opt"
    using e n opt unfolding f' by simp
  moreover have "take 12 (drop 34 (option_frame cpu seq f)) = ?opt"
    using e n opt unfolding f' by simp
  moreover have "take 8 (drop 26 (option_frame cpu seq f)) = drop 12 ?n"
    using e n opt unfolding f' by simp
  moreover have "drop 46 (option_frame cpu seq f) = drop 34 f"
    using e n opt unfolding f' by simp
  moreover have "take 14 (option_frame cpu seq f) = take 14 f"
    using e unfolding f' by simp
  ultimately show ?thesis
    using fields assms(3) checksum_new_iphdr [OF h, of ?opt]
    by (simp add: be_val_be_bytes ipopt_pval_of_bytes)
qed

text \<open>
  C7. The option \<open>pval_xmit\<close> inserts leaves a valid packet when the header had no options. For
  a packet as above whose IP header is of version 4 with 20 bytes and whose total length
  stays below 65536, the frame that goes on has a header length field of 8 words, a total
  length that is larger by 12, a right checksum over the 32-byte header, the option with the
  CPU number cut to 8 bits and the sequence number behind the fixed header, and Ethernet
  header, addresses and payload of the original frame.
\<close>

theorem xmit_option_valid:
  assumes "option_due A E pdev s" and "skb_frame s ! 14 = 0x45" and "be_val (take 2 (drop 16 (skb_frame s))) + 12 < 65536"
  shows "\<exists>s'. pval_xmit A E pdev s = pval_xmit_tail E (pdev\<lparr>pd_seq := pd_seq pdev + 1\<rparr>) s' \<and>
    (let f = skb_frame s; f' = skb_frame s' in
       f' ! 14 = 0x48 \<and> be_val (take 2 (drop 16 f')) = be_val (take 2 (drop 16 f)) + 12 \<and>
       checksum (take 32 (drop 14 f')) 0 = 0xFFFF \<and>
       ipopt_pval_of (take 12 (drop 34 f')) = Some (pval_option (env_cpu E) (pd_seq pdev)) \<and>
       take 14 f' = take 14 f \<and> take 8 (drop 26 f') = take 8 (drop 26 f) \<and> drop 46 f' = drop 34 f)"
proof -
  have "34 \<le> length (skb_frame s)" using assms(1) by (auto simp: option_due_def eth_ip_skb_def skb_frame_def)
  from option_frame_fields [OF this assms(2,3)] xmit_with_option [OF assms(1)] show ?thesis
    by (auto simp: Let_def)
qed

lemma example_option_due: "option_due plain_api example_env example_pdev example_tx_skb"
  using plain_api_ok example_tx_skb_eth_ip example_frame_proto
  by (simp add: option_due_def example_tx_skb_frame) (simp add: example_env_def example_pdev_def)

theorem xmit_option_valid_witness:
  "\<exists>s'. pval_xmit plain_api example_env example_pdev example_tx_skb
      = pval_xmit_tail example_env (example_pdev\<lparr>pd_seq := pd_seq example_pdev + 1\<rparr>) s' \<and>
    skb_frame s' ! 14 = 0x48 \<and> be_val (take 2 (drop 16 (skb_frame s'))) = 32 \<and>
    checksum (take 32 (drop 14 (skb_frame s'))) 0 = 0xFFFF"
proof -
  have "example_frame ! 14 = 0x45" "be_val (take 2 (drop 16 example_frame)) = 20"
    by (simp_all add: example_frame_def be_val_def nth_append)
  with xmit_option_valid [OF example_option_due] show ?thesis
    unfolding example_tx_skb_frame by (auto simp: Let_def)
qed

text \<open>The checksum over the new header and options that followed the fixed header before.\<close>

lemma old_options_sum:
  assumes "length h = 20" and "opt = ipopt_pval_bytes (pval_option cpu seq)"
  shows "checksum (new_iphdr h opt @ opt @ old_options) 0 = 0xFFFF
           \<longleftrightarrow> ones_sum old_options mod 65535 = 0"
proof -
  let ?a = "ones_sum (new_iphdr h opt @ opt)" and ?b = "ones_sum old_options"
  have "even (length (new_iphdr h opt @ opt))" using assms by (simp add: sizeof_ipopt_pval_def)
  then have sum: "ones_sum (new_iphdr h opt @ opt @ old_options) = ?a + ?b"
    using ones_sum_append [of "new_iphdr h opt @ opt" old_options] by simp
  have a: "ones_fold ?a = 65535"
    using checksum_new_iphdr [OF assms(1), of opt] kc.csum_eq [of "new_iphdr h opt @ opt"] by simp
  then have a0: "?a mod 65535 = 0" "0 < ?a"
    using ones_fold_mod [of ?a] ones_fold_zero [of ?a] by (simp, metis gr0I zero_neq_numeral)
  have "checksum (new_iphdr h opt @ opt @ old_options) 0 = 0xFFFF \<longleftrightarrow> ones_fold (?a + ?b) = 65535"
    unfolding word_unat_eq_iff using kc.csum_eq [of "new_iphdr h opt @ opt @ old_options"] sum by simp
  also have "\<dots> \<longleftrightarrow> (?a + ?b) mod 65535 = 0"
    using ones_fold_mod [of "?a + ?b"] ones_fold_full [of "?a + ?b"] a0(2) by auto
  also have "\<dots> \<longleftrightarrow> ?b mod 65535 = 0"
    using a0(1) by (metis add_0 mod_add_left_eq)
  finally show ?thesis .
qed

lemma add_ihl_options: "5 \<le> ihl \<Longrightarrow> ihl \<le> 12 \<Longrightarrow> add_ihl (word_of_nat (64 + ihl)) 3 = word_of_nat (64 + ihl + 3)"
proof -
  assume "5 \<le> ihl" "ihl \<le> 12"
  then have "ihl \<in> set [5..<13]" by auto
  moreover have "\<forall>i \<in> set [5..<13]. add_ihl (word_of_nat (64 + i)) 3 = word_of_nat (64 + i + 3)"
    by (simp add: upt_rec add_ihl_def)
  ultimately show ?thesis by blast
qed

text \<open>
  C8. Packets that already carry IP options leave \<open>pval_xmit\<close> with a wrong header checksum. For
  a packet as above with a header of \<open>ihl\<close> words, from 5 to 12, the frame that goes on says
  that its header has \<open>ihl + 3\<close> words; the checksum over these is right exactly if the one's
  complement sum of the options the packet had is zero, because \<open>pval_xmit\<close> sums 32 bytes
  whatever the header length.
\<close>

theorem existing_options_break_checksum:
  assumes "option_due A E pdev s" and "skb_frame s ! 14 = word_of_nat (64 + ihl)" and "5 \<le> ihl" and "ihl \<le> 12"
    and "14 + 4 * ihl \<le> length (skb_frame s)"
  shows "\<exists>s'. pval_xmit A E pdev s = pval_xmit_tail E (pdev\<lparr>pd_seq := pd_seq pdev + 1\<rparr>) s' \<and>
    skb_frame s' ! 14 = word_of_nat (64 + ihl + 3) \<and>
    (checksum (take (4 * (ihl + 3)) (drop 14 (skb_frame s'))) 0 = 0xFFFF \<longleftrightarrow>
     ones_sum (take (4 * ihl - 20) (drop 34 (skb_frame s))) mod 65535 = 0)"
proof -
  let ?f = "skb_frame s" and ?opt = "ipopt_pval_bytes (pval_option (env_cpu E) (pd_seq pdev))"
  let ?h = "take 20 (drop 14 ?f)"
  let ?n = "new_iphdr ?h ?opt" and ?old = "take (4 * ihl - 20) (drop 34 ?f)"
  have l: "34 \<le> length ?f" using assms(3,5) by simp
  then have h: "length ?h = 20" "?h ! 0 = word_of_nat (64 + ihl)" and e: "length (take 14 ?f) = 14"
    using assms(2) by simp_all
  have opt: "length ?opt = 12" by (simp add: sizeof_ipopt_pval_def)
  have n: "length ?n = 20" using h(1) by (rule length_new_iphdr)
  have f': "option_frame (env_cpu E) (pd_seq pdev) ?f = take 14 ?f @ ?n @ ?opt @ drop 34 ?f"
    by (simp add: option_frame_def Let_def)
  have "?n ! 0 = word_of_nat (64 + ihl + 3)"
    using new_iphdr_fields(1) [OF h(1), of ?opt] h(2) add_ihl_options [OF assms(3,4)] by simp
  then have "option_frame (env_cpu E) (pd_seq pdev) ?f ! 14 = word_of_nat (64 + ihl + 3)"
    unfolding f' using e n by (simp add: nth_append)
  moreover have "4 * (ihl + 3) = 20 + 12 + (4 * ihl - 20)" using assms(3) by simp
  then have "take (4 * (ihl + 3)) (drop 14 (option_frame (env_cpu E) (pd_seq pdev) ?f)) = ?n @ ?opt @ ?old"
    unfolding f' using e n opt by simp
  ultimately show ?thesis
    using xmit_with_option [OF assms(1)] old_options_sum [OF h(1) refl, of "env_cpu E" "pd_seq pdev" ?old] by auto
qed

text \<open>The example packet with a router alert option.\<close>

definition example_options_skb :: sk_buff where
  "example_options_skb = (let f = take 14 example_frame @ [0x46] @ take 19 (drop 15 example_frame) @ [0x94, 4, 0, 0]
     in example_tx_skb\<lparr>skb_len := 38, skb_buf := take (skb_data example_tx_skb) (skb_buf example_tx_skb) @ f\<rparr>)"

theorem existing_options_break_checksum_witness:
  "\<exists>s'. pval_xmit plain_api example_env example_pdev example_options_skb
      = pval_xmit_tail example_env (example_pdev\<lparr>pd_seq := pd_seq example_pdev + 1\<rparr>) s' \<and>
    skb_frame s' ! 14 = 0x49 \<and> checksum (take 36 (drop 14 (skb_frame s'))) 0 \<noteq> 0xFFFF"
proof -
  let ?f = "take 14 example_frame @ [0x46] @ take 19 (drop 15 example_frame) @ [0x94, 4, 0, 0]"
  have f: "skb_frame example_options_skb = ?f"
    by (simp add: example_options_skb_def skb_frame_def Let_def example_tx_skb_def)
  have len: "length example_frame = 34" by (simp add: example_frame_def)
  have "eth_ip_skb example_options_skb"
    by (simp add: eth_ip_skb_def example_options_skb_def Let_def example_tx_skb_def len)
  moreover have "be_val (take 2 (drop 12 ?f)) = ETH_P_IP" using example_frame_proto len by (simp add: take_drop)
  ultimately have due: "option_due plain_api example_env example_pdev example_options_skb"
    using example_option_due by (simp add: option_due_def f)
  have "skb_frame example_options_skb ! 14 = word_of_nat (64 + 6)" "14 + 4 * 6 \<le> length (skb_frame example_options_skb)"
    "take (4 * 6 - 20) (drop 34 (skb_frame example_options_skb)) = [0x94, 4, 0, 0]"
    unfolding f using len by (simp_all add: nth_append)
  with existing_options_break_checksum [OF due, of 6] show ?thesis by auto
qed

section \<open>Transmission, copy and release\<close>

definition clones :: "kcall list \<Rightarrow> sk_buff list" where
  "clones cs = List.map_filter (\<lambda>c. case c of SkbClone s \<Rightarrow> Some s | _ \<Rightarrow> None) cs"

definition released :: "kcall list \<Rightarrow> sk_buff list" where
  "released cs = List.map_filter
     (\<lambda>c. case c of KfreeSkb s \<Rightarrow> Some s | ScheduleWork w \<Rightarrow> Some (wk_skb w) | _ \<Rightarrow> None) cs"

definition queued :: "kcall list \<Rightarrow> sk_buff list" where
  "queued cs = List.map_filter (\<lambda>c. case c of DevQueueXmit s \<Rightarrow> Some s | _ \<Rightarrow> None) cs"

lemma call_filters [simp, trace_simps]:
  "clones [] = []" "released [] = []" "queued [] = []"
  "clones (c # cs) = (case c of SkbClone s \<Rightarrow> [s] | _ \<Rightarrow> []) @ clones cs"
  "released (c # cs) =
     (case c of KfreeSkb s \<Rightarrow> [s] | ScheduleWork w \<Rightarrow> [wk_skb w] | _ \<Rightarrow> []) @ released cs"
  "queued (c # cs) = (case c of DevQueueXmit s \<Rightarrow> [s] | _ \<Rightarrow> []) @ queued cs"
  "clones (as @ bs) = clones as @ clones bs" "released (as @ bs) = released as @ released bs"
  "queued (as @ bs) = queued as @ queued bs"
  by (simp_all add: clones_def released_def queued_def List.map_filter_def split: kcall.split)

text \<open>The ring of the running CPU after a packet has been offered to it.\<close>

definition ring_offer :: "pval_mdev \<Rightarrow> sk_buff \<Rightarrow> pval_mdev \<Rightarrow> bool" where
  "ring_offer md skb md' \<longleftrightarrow> (\<exists>r. md' = md\<lparr>md_ring := r\<rparr> \<and> ring_inv r \<and>
     (if length (ring_list (md_ring md)) = 1023 then r = md_ring md
      else \<exists>s. ring_list r = ring_list (md_ring md) @ [s] \<and> slot_holds skb s))"

lemma write_to_ring_offer:
  assumes "ring_inv (md_ring md)" and "skb_linear skb"
  shows "\<exists>n r. write_to_ring (md_ring md) skb = Some (n, r) \<and> ring_inv r \<and>
     ring_offer md skb (md\<lparr>md_ring := r\<rparr>)"
proof (cases "ring_full (md_ring md)")
  case True
  with assms show ?thesis
    by (auto simp: write_to_ring_full ring_offer_def rq.is_full_iff)
next
  case False
  then obtain s where w: "write_to_ring (md_ring md) skb = Some (uint (skb_copylen skb), ring_put s (md_ring md))"
      and s: "slot_holds skb s"
    using write_to_ring_space [OF assms] by blast
  have "ring_inv (ring_put s (md_ring md))"
    using s rq.invar_push [OF assms(1)] by (simp add: slot_holds_def)
  moreover have "ring_list (ring_put s (md_ring md)) = ring_list (md_ring md) @ [s]"
    using assms(1) False by (rule rq.items_push)
  moreover have "length (ring_list (md_ring md)) \<noteq> 1023"
    using False by (simp add: rq.is_full_iff [OF assms(1)])
  ultimately show ?thesis using w s by (auto simp: ring_offer_def)
qed

definition tx_skb :: "pval_dev \<Rightarrow> sk_buff \<Rightarrow> sk_buff" where
  "tx_skb pdev s = (if pd_txtstamp pdev then s\<lparr>skb_tx_flags := skb_tx_flags s OR SKBTX_HW_TSTAMP\<rparr> else s)"

lemma tx_skb_simps [simp]:
  "skb_linear (tx_skb pdev s) = skb_linear s" "skb_frame (tx_skb pdev s) = skb_frame s"
  by (simp_all add: tx_skb_def skb_linear_def skb_frame_def)

text \<open>
  C9. The rest of the transmit path. On a CPU that has character devices and for a packet in
  linear memory the handler always returns. If a clone is needed and cannot be allocated it
  reports busy and calls nothing. Otherwise it queues exactly one buffer, on the lower
  link, with the frame unchanged, and returns what the queue returned; the packet is
  offered to the transmit ring of the CPU exactly if the queue took it, time stamping is
  off, copying is on and the character device is open; no other ring and no switch of the
  device changes.
\<close>

theorem xmit_tail_outcome:
  assumes "pdev_inv pdev" and "env_cpu E < pd_num_cpus pdev" and "skb_linear s"
  shows "\<exists>out. pval_xmit_tail E pdev s = Some out \<and>
    (if (pd_txtstamp pdev \<or> pd_txcopy pdev) \<and> \<not> env_clone_ok E
     then xo_rc out = NETDEV_TX_BUSY \<and> xo_calls out = [] \<and> xo_pdev out = pdev
     else let q = (tx_skb pdev s)\<lparr>skb_dev := the (pd_link pdev)\<rparr>; c = env_cpu E; md = pd_txmdevs pdev ! c
          in queued (xo_calls out) = [q] \<and> skb_frame q = skb_frame s \<and> xo_rc out = env_queue_rc E q \<and>
             pdev_inv (xo_pdev out) \<and>
             (if xo_rc out = NETDEV_TX_OK \<and> \<not> pd_txtstamp pdev \<and> pd_txcopy pdev \<and> md_opened md
              then \<exists>md'. ring_offer md (tx_skb pdev s) md' \<and>
                     xo_pdev out = pdev\<lparr>pd_txmdevs := (pd_txmdevs pdev)[c := md']\<rparr>
              else xo_pdev out = pdev))"
proof -
  let ?c = "env_cpu E"
  let ?md = "pd_txmdevs pdev ! ?c"
  note inv = pdev_invD [OF assms(1,2)]
  obtain n r where w: "write_to_ring (md_ring ?md) (tx_skb pdev s) = Some (n, r)" "ring_inv r"
      and off: "ring_offer ?md (tx_skb pdev s) (?md\<lparr>md_ring := r\<rparr>)"
    using write_to_ring_offer [OF inv(3), of "tx_skb pdev s"] assms(3) by auto
  have inv': "pdev_inv (set_tx_ring ?c r pdev)" by (rule pdev_inv_set_tx_ring [OF assms(1) w(2)])
  have q: "skb_frame ((tx_skb pdev s)\<lparr>skb_dev := d\<rparr>) = skb_frame s" for d
    by (simp add: tx_skb_def skb_frame_def)
  show ?thesis
    unfolding pval_xmit_tail_def Let_def tx_skb_def [symmetric]
    using inv(5) w off assms(1) inv' q
    by (auto simp: set_tx_ring_def)
qed

lemma example_tx_skb_linear: "skb_linear example_tx_skb"
  by (simp add: skb_linear_def example_tx_skb_def example_frame_def)

lemma example_pdev_simps:
  "pd_num_cpus example_pdev = 1" "pd_txtstamp example_pdev = False" "pd_txcopy example_pdev = True"
  "pd_link example_pdev = Some 3" "pd_txmdevs example_pdev ! 0 = example_mdev"
  "pd_rxmdevs example_pdev ! 0 = example_mdev" "pd_rxcopy example_pdev = True"
  "md_opened example_mdev = True" "md_ring example_mdev = example_ring" "pd_dev example_pdev = 7"
  by (simp_all add: example_pdev_def example_mdev_def)

theorem xmit_tail_outcome_witness:
  "pdev_inv example_pdev \<and> env_cpu example_env < pd_num_cpus example_pdev \<and> skb_linear example_tx_skb \<and>
   (\<exists>out md'. pval_xmit_tail example_env example_pdev example_tx_skb = Some out \<and> xo_rc out = 0 \<and>
      queued (xo_calls out) = [example_tx_skb\<lparr>skb_dev := 3\<rparr>] \<and>
      ring_offer example_mdev example_tx_skb md' \<and>
      xo_pdev out = example_pdev\<lparr>pd_txmdevs := (pd_txmdevs example_pdev)[0 := md']\<rparr>)"
proof -
  have e: "env_cpu example_env = 0" "env_clone_ok example_env" "env_queue_rc example_env q = 0" for q
    by (simp_all add: example_env_def)
  have c: "env_cpu example_env < pd_num_cpus example_pdev" by (simp add: e example_pdev_simps)
  have t: "tx_skb example_pdev example_tx_skb = example_tx_skb"
    by (simp add: tx_skb_def example_pdev_simps)
  from xmit_tail_outcome [OF example_pdev_inv c example_tx_skb_linear] show ?thesis
    using example_pdev_inv c example_tx_skb_linear
    by (auto simp: e t example_pdev_simps NETDEV_TX_OK_def Let_def)
qed

text \<open>
  C10. Release of the clone. Every clone \<open>pval_xmit\<close> makes is freed or handed to a worker,
  except in two cases in which it is leaked: the lower queue did not take the packet, or
  time stamping is on and the worker could not be allocated.
\<close>

theorem xmit_clone_released_iff:
  assumes "pval_xmit_tail E pdev s = Some out"
  shows "clones (xo_calls out) = released (xo_calls out) \<longleftrightarrow>
         clones (xo_calls out) = [] \<or>
         (xo_rc out = NETDEV_TX_OK \<and> (pd_txtstamp pdev \<longrightarrow> env_worker_ok E))"
  using assms unfolding pval_xmit_tail_def Let_def
  by (auto split: if_splits option.splits Option.bind_splits)

theorem xmit_clone_released_iff_witness:
  "\<exists>out. pval_xmit_tail (example_env\<lparr>env_queue_rc := \<lambda>_. 1\<rparr>) example_pdev example_tx_skb = Some out \<and>
         clones (xo_calls out) \<noteq> [] \<and> released (xo_calls out) = [] \<and>
         clones (xo_calls out) \<noteq> released (xo_calls out)"
proof -
  obtain out where out: "pval_xmit_tail (example_env\<lparr>env_queue_rc := \<lambda>_. 1\<rparr>) example_pdev example_tx_skb
      = Some out" "xo_rc out = 1" "clones (xo_calls out) = [example_tx_skb]" "released (xo_calls out) = []"
    by (simp add: pval_xmit_tail_def Let_def example_env_def example_pdev_simps NETDEV_TX_OK_def)
  with xmit_clone_released_iff [OF out(1)] show ?thesis by (simp add: NETDEV_TX_OK_def)
qed

text \<open>
  C11. A retry after a failed clone inserts a second option. If the clone cannot be
  allocated, \<open>pval_xmit\<close> reports busy on a buffer that already carries the option and has
  used up a sequence number; the next call with the same buffer, which is what a queueing
  discipline makes after busy, goes on with a frame that has two Pval options with
  consecutive sequence numbers.
\<close>

theorem busy_retry_inserts_twice:
  assumes "skb_api_ok A" and "eth_ip_skb s" and "24 \<le> skb_data s" and "pd_ipopt pdev"
    and "pd_txtstamp pdev \<or> pd_txcopy pdev"
    and "env_link_up E" and "\<not> env_clone_ok E" and "env_link_up E'" and "env_clone_ok E'"
    and "be_val (take 2 (drop 12 (skb_frame s))) = ETH_P_IP"
  shows "\<exists>out s'. pval_xmit A E pdev s = Some out \<and> xo_rc out = NETDEV_TX_BUSY \<and>
           pval_xmit A E' (xo_pdev out) (xo_skb out)
             = pval_xmit_tail E' (pdev\<lparr>pd_seq := pd_seq pdev + 2\<rparr>) s' \<and>
           skb_frame s' = option_frame (env_cpu E') (pd_seq pdev + 1)
                            (option_frame (env_cpu E) (pd_seq pdev) (skb_frame s))"
proof -
  let ?p1 = "pdev\<lparr>pd_seq := pd_seq pdev + 1\<rparr>"
  obtain s1 where s1: "insert_option A (env_cpu E) (pd_seq pdev) s = Some s1"
      "skb_data s1 = skb_data s - 12" "skb_mac_hdr s1 = skb_data s1" "skb_net_hdr s1 = skb_data s1 + 14"
      "length (skb_buf s1) = length (skb_buf s)"
      "skb_frame s1 = option_frame (env_cpu E) (pd_seq pdev) (skb_frame s)"
    using insert_option_frame [OF assms(1,2)] by metis
  have x1: "pval_xmit A E pdev s = Some \<lparr>xo_rc = NETDEV_TX_BUSY, xo_pdev = ?p1, xo_skb = tx_skb ?p1 s1,
      xo_calls = []\<rparr>"
    using s1(1) assms(4-7,10) by (simp add: pval_xmit_def h_proto_frame [OF assms(2)]
        pval_xmit_tail_def tx_skb_def Let_def)
  have eth: "eth_ip_skb (tx_skb ?p1 s1)"
    using s1 assms(2,3) by (auto simp: eth_ip_skb_def tx_skb_def)
  have "take 14 (option_frame c q (skb_frame s)) = take 14 (skb_frame s)" for c q
    using assms(2) by (auto simp: option_frame_def Let_def eth_ip_skb_def skb_frame_def)
  then have "take 2 (drop 12 (skb_frame (tx_skb ?p1 s1))) = take 2 (drop 12 (skb_frame s))"
    using s1(6) by (simp add: take_drop)
  then have "be_val (take 2 (drop 12 (skb_frame (tx_skb ?p1 s1)))) = ETH_P_IP"
    using assms(10) by simp
  then obtain s' where "pval_xmit A E' ?p1 (tx_skb ?p1 s1)
      = pval_xmit_tail E' (?p1\<lparr>pd_seq := pd_seq ?p1 + 1\<rparr>) s'"
    "skb_frame s' = option_frame (env_cpu E') (pd_seq ?p1) (skb_frame (tx_skb ?p1 s1))"
    using insert_option_frame [OF assms(1) eth, of "env_cpu E'" "pd_seq ?p1"] assms(4,8)
    by (auto simp: pval_xmit_def h_proto_frame [OF eth])
  with x1 s1(6) show ?thesis by (auto simp: add.assoc)
qed

theorem busy_retry_inserts_twice_witness:
  "\<exists>out s'. pval_xmit plain_api (example_env\<lparr>env_clone_ok := False\<rparr>) example_pdev example_tx_skb = Some out \<and>
     xo_rc out = 16 \<and>
     pval_xmit plain_api example_env (xo_pdev out) (xo_skb out)
       = pval_xmit_tail example_env (example_pdev\<lparr>pd_seq := 48\<rparr>) s' \<and>
     skb_frame s' = option_frame 0 47 (option_frame 0 46 example_frame)"
proof -
  have "pd_seq example_pdev = 46" "pd_ipopt example_pdev" "env_cpu example_env = 0" "24 \<le> skb_data example_tx_skb"
    by (simp_all add: example_pdev_def example_env_def example_tx_skb_def)
  with busy_retry_inserts_twice [OF plain_api_ok example_tx_skb_eth_ip, of example_pdev
      "example_env\<lparr>env_clone_ok := False\<rparr>" example_env] show ?thesis
    by (simp add: example_pdev_simps example_tx_skb_frame example_frame_proto NETDEV_TX_BUSY_def
        example_env_def)
qed

end
