(* ===== verification/Workers.thy ===== *)
theory Workers
  imports Xmit_Correct
begin

text \<open>
  The workers that wait for a transmit time stamp, run by the kernel until they stop asking
  to be scheduled again, and the receive handler (\<open>kmod/pval_main.c\<close>).
\<close>

section \<open>The clock\<close>

lemma sint_word_diff:
  assumes "m < 2 ^ 63" and "n < 2 ^ 63"
  shows "sint (word_of_int (int m - int n) :: u64) = int m - int n"
  using assms by (intro signed_take_bit_int_eq_self [THEN trans [OF sint_sbintrunc']]) auto

text \<open>The time-out test is right also when the clock wraps, as long as less than half of the
  clock's range has gone by since the packet was sent.\<close>

lemma timeout_iff:
  assumes "unat hz < 2 ^ 63" and "unat (now - start) < 2 ^ 63"
  shows "txtstamp_timeout hz start now \<longleftrightarrow> unat hz < unat (now - start)"
proof -
  let ?d = "now - start"
  have eq: "start + hz * 1 - now = word_of_int (int (unat hz) - int (unat ?d))"
    by (simp add: wi_hom_syms algebra_simps)
  show ?thesis by (simp only: txtstamp_timeout_def eq sint_word_diff [OF assms]) linarith
qed

section \<open>A worker until it is done\<close>

text \<open>
  Each element of the list is one run of the work: the clock, and the hardware time stamp
  the driver has stored for the packet by then (zero if none).
\<close>

fun txtstamp_run ::
    "u64 \<Rightarrow> (u64 \<times> u64) list \<Rightarrow> pval_worker \<Rightarrow> pval_dev \<Rightarrow> (pval_dev \<times> kcall list) option" where
  "txtstamp_run hz [] worker pdev = Some (pdev, [ScheduleWork worker])"
| "txtstamp_run hz ((now, ts) # obs) worker pdev = do {
     (pdev', calls) \<leftarrow> pval_txtstamp_work2 hz now
        (worker\<lparr>wk_skb := (wk_skb worker)\<lparr>skb_hwtstamp := ts\<rparr>\<rparr>) pdev;
     (case calls of
        [ScheduleWork worker'] \<Rightarrow> txtstamp_run hz obs worker' pdev'
      | _ \<Rightarrow> Some (pdev', calls))
   }"

definition pending :: "u64 \<Rightarrow> u64 \<Rightarrow> u64 \<times> u64 \<Rightarrow> bool" where
  "pending hz start o1 \<longleftrightarrow> snd o1 = 0 \<and> unat (fst o1 - start) \<le> unat hz"

lemma work2_pending:
  assumes "unat hz < 2 ^ 63" and "pending hz (wk_start w) (now, ts)"
  shows "pval_txtstamp_work2 hz now (w\<lparr>wk_skb := (wk_skb w)\<lparr>skb_hwtstamp := ts\<rparr>\<rparr>) pdev
    = Some (pdev, [ScheduleWork (w\<lparr>wk_skb := (wk_skb w)\<lparr>skb_hwtstamp := 0\<rparr>\<rparr>)])"
proof -
  have "\<not> unat hz < unat (now - wk_start w)" and "ts = 0" using assms(2) by (auto simp: pending_def)
  moreover have "unat (now - wk_start w) < 2 ^ 63" using assms by (auto simp: pending_def)
  ultimately show ?thesis
    using timeout_iff [OF assms(1)] by (simp add: pval_txtstamp_work2_def Let_def)
qed

lemma txtstamp_run_pending:
  assumes "unat hz < 2 ^ 63" and "list_all (pending hz (wk_start w)) pre"
  shows "txtstamp_run hz (pre @ (now, ts) # post) w pdev = txtstamp_run hz ((now, ts) # post) w pdev"
  using assms(2)
proof (induction pre arbitrary: w)
  case (Cons o1 pre)
  obtain n t where o1: "o1 = (n, t)" by fastforce
  let ?w = "w\<lparr>wk_skb := (wk_skb w)\<lparr>skb_hwtstamp := 0\<rparr>\<rparr>"
  have "txtstamp_run hz ((o1 # pre) @ (now, ts) # post) w pdev
      = txtstamp_run hz (pre @ (now, ts) # post) ?w pdev"
    using work2_pending [OF assms(1)] Cons.prems by (simp add: o1)
  also have "\<dots> = txtstamp_run hz ((now, ts) # post) ?w pdev" using Cons by simp
  finally show ?case by simp
qed simp

text \<open>
  C13. The life of a time stamp worker. Runs before the stamp arrives and before the time-out
  change nothing. In the first other run the worker ends and the clone is freed once: with
  a stamp, the packet and the stamp are offered to the ring the packet was sent on and the
  worker's memory is freed; without one nothing is copied and the worker's memory is not
  freed.
\<close>

theorem txtstamp_run_outcome:
  assumes "unat hz < 2 ^ 63" and "pdev_inv pdev" and "wk_ring w < pd_num_cpus pdev"
    and "skb_linear (wk_skb w)" and "list_all (pending hz (wk_start w)) pre"
    and "unat (now - wk_start w) < 2 ^ 63" and "\<not> pending hz (wk_start w) (now, ts)"
  shows "let s = (wk_skb w)\<lparr>skb_hwtstamp := ts\<rparr>; c = wk_ring w in
    if ts = 0 then txtstamp_run hz (pre @ (now, ts) # post) w pdev = Some (pdev, [KfreeSkb s])
    else \<exists>md'. ring_offer (pd_txmdevs pdev ! c) s md' \<and>
      txtstamp_run hz (pre @ (now, ts) # post) w pdev
        = Some (pdev\<lparr>pd_txmdevs := (pd_txmdevs pdev)[c := md']\<rparr>, [KfreeSkb s, KfreeWorker])"
proof -
  let ?s = "(wk_skb w)\<lparr>skb_hwtstamp := ts\<rparr>"
  note inv = pdev_invD [OF assms(2,3)]
  have "skb_linear ?s" using assms(4) by (simp add: skb_linear_def)
  from write_to_ring_offer [OF inv(3) this] obtain n r where w:
      "write_to_ring (md_ring (pd_txmdevs pdev ! wk_ring w)) ?s = Some (n, r)"
      "ring_offer (pd_txmdevs pdev ! wk_ring w) ?s ((pd_txmdevs pdev ! wk_ring w)\<lparr>md_ring := r\<rparr>)"
    by blast
  have "ts = 0 \<Longrightarrow> txtstamp_timeout hz (wk_start w) now"
    using assms(7) timeout_iff [OF assms(1,6)] by (simp add: pending_def)
  with w inv(5) show ?thesis
    unfolding txtstamp_run_pending [OF assms(1,5)]
    by (auto simp: pval_txtstamp_work2_def set_tx_ring_def Let_def)
qed

definition example_worker :: pval_worker where
  "example_worker = \<lparr>wk_skb = example_tx_skb, wk_ring = 0, wk_start = - 10\<rparr>"

theorem txtstamp_run_outcome_witness:
  "(\<exists>md'. ring_offer example_mdev (example_tx_skb\<lparr>skb_hwtstamp := 99\<rparr>) md' \<and>
      txtstamp_run 250 [(0, 0), (5, 99), (6, 99)] example_worker example_pdev
        = Some (example_pdev\<lparr>pd_txmdevs := (pd_txmdevs example_pdev)[0 := md']\<rparr>,
                [KfreeSkb (example_tx_skb\<lparr>skb_hwtstamp := 99\<rparr>), KfreeWorker])) \<and>
   txtstamp_run 250 [(0, 0), (300, 0)] example_worker example_pdev
     = Some (example_pdev, [KfreeSkb (example_tx_skb\<lparr>skb_hwtstamp := 0\<rparr>)])"
proof -
  have w: "wk_skb example_worker = example_tx_skb" "wk_ring example_worker = 0"
    "wk_start example_worker = - 10" by (simp_all add: example_worker_def)
  have lin: "skb_linear (wk_skb example_worker)" by (simp add: w example_tx_skb_linear)
  have c: "wk_ring example_worker < pd_num_cpus example_pdev" by (simp add: w example_pdev_simps)
  from txtstamp_run_outcome [OF _ example_pdev_inv c lin, of 250 "[(0, 0)]" 5 99 "[(6, 99)]"]
    txtstamp_run_outcome [OF _ example_pdev_inv c lin, of 250 "[(0, 0)]" 300 0 "[]"]
  show ?thesis by (simp add: w pending_def example_pdev_simps Let_def)
qed

section \<open>The receive handler\<close>

text \<open>
  C14. The receive handler passes a frame on, unchanged, as a frame of the Pval interface; it is
  offered to the receive ring of the running CPU exactly if copying is on and the character
  device is open, and nothing else of the device changes. Only if the private copy of a
  shared buffer cannot be allocated is the frame consumed. With copying on this is for a CPU
  that has character devices, and if its device is open, for a frame in linear memory; the
  handler checks neither, and without copying neither is needed.
\<close>

theorem handle_frame_outcome:
  assumes "pdev_inv pdev" and "pd_rxcopy pdev \<Longrightarrow> cpu < pd_num_cpus pdev"
    and "\<And>s. shared = Some s \<Longrightarrow> pd_rxcopy pdev \<Longrightarrow> md_opened (pd_rxmdevs pdev ! cpu) \<Longrightarrow> skb_linear s"
  shows "case shared of
      None \<Rightarrow> pdev_handle_frame cpu pdev pskb shared = Some (RX_HANDLER_CONSUMED, pskb, pdev)
    | Some s \<Rightarrow> \<exists>s' pdev'. pdev_handle_frame cpu pdev pskb shared = Some (RX_HANDLER_ANOTHER, s', pdev') \<and>
        skb_frame s' = skb_frame s \<and> skb_dev s' = pd_dev pdev \<and> skb_pkt_host s' \<and> pdev_inv pdev' \<and>
        (if pd_rxcopy pdev \<and> md_opened (pd_rxmdevs pdev ! cpu)
         then \<exists>md'. ring_offer (pd_rxmdevs pdev ! cpu) s' md' \<and>
                pdev' = pdev\<lparr>pd_rxmdevs := (pd_rxmdevs pdev)[cpu := md']\<rparr>
         else pdev' = pdev)"
proof (cases shared)
  case (Some s)
  let ?s = "s\<lparr>skb_dev := pd_dev pdev, skb_pkt_host := True\<rparr>" and ?md = "pd_rxmdevs pdev ! cpu"
  have f: "skb_frame ?s = skb_frame s" by (simp add: skb_frame_def)
  show ?thesis
  proof (cases "pd_rxcopy pdev")
    case True
    note inv = pdev_invD [OF assms(1) assms(2) [OF True]]
    show ?thesis
    proof (cases "md_opened ?md")
      case open_md: True
      then have "skb_linear ?s" using assms(3) [OF Some True] by (simp add: skb_linear_def)
      from write_to_ring_offer [OF inv(4) this] obtain n r where w: "write_to_ring (md_ring ?md) ?s = Some (n, r)"
          "ring_inv r" "ring_offer ?md ?s (?md\<lparr>md_ring := r\<rparr>)" by blast
      have "pdev_inv (set_rx_ring cpu r pdev)" by (rule pdev_inv_set_rx_ring [OF assms(1) w(2)])
      with w inv(6) True open_md f show ?thesis
        by (auto simp: Some pdev_handle_frame_def set_rx_ring_def Let_def)
    qed (use inv(6) True assms(1) f in \<open>simp add: Some pdev_handle_frame_def Let_def\<close>)
  qed (use assms(1) f in \<open>simp add: Some pdev_handle_frame_def Let_def\<close>)
qed (simp add: pdev_handle_frame_def)

theorem handle_frame_outcome_witness:
  "(\<exists>s' pdev' md'. pdev_handle_frame 0 example_pdev example_tx_skb (Some example_tx_skb)
      = Some (RX_HANDLER_ANOTHER, s', pdev') \<and> skb_frame s' = example_frame \<and> skb_dev s' = 7 \<and>
      ring_offer example_mdev s' md') \<and>
   pdev_handle_frame 0 example_pdev example_tx_skb None = Some (RX_HANDLER_CONSUMED, example_tx_skb, example_pdev)"
proof -
  have c: "0 < pd_num_cpus example_pdev" by (simp add: example_pdev_simps)
  from handle_frame_outcome [of example_pdev 0 "Some example_tx_skb" example_tx_skb]
    handle_frame_outcome [of example_pdev 0 None example_tx_skb]
  show ?thesis
    using example_pdev_inv c example_tx_skb_linear by (auto simp: example_pdev_simps example_tx_skb_frame)
qed

lemma no_pmdev:
  "pdev_inv pdev \<Longrightarrow> PVAL_MAX_CPUS \<le> cpu \<Longrightarrow> pdev_tx_pmdev pdev cpu = None \<and> pdev_rx_pmdev pdev cpu = None"
  by (simp add: pdev_inv_def pdev_tx_pmdev_def pdev_rx_pmdev_def nth_opt_def)

lemma xmit_copies_out_of_bounds:
  assumes "pdev_inv pdev" and "PVAL_MAX_CPUS \<le> env_cpu E" and "env_clone_ok E"
    and "\<And>q. env_queue_rc E q = NETDEV_TX_OK" and "pd_txcopy pdev" and "\<not> pd_txtstamp pdev"
  shows "pval_xmit_tail E pdev s = None"
  using assms no_pmdev [OF assms(1,2)] by (simp add: pval_xmit_tail_def Let_def)

text \<open>
  C15. CPUs beyond the sixteenth. The arrays of character devices have sixteen entries but are
  indexed by the running CPU without a check. On a CPU with a higher number, a reception
  with copying on accesses memory outside them. So does every transmission on a link that
  is up, with copying on and time stamping off, whose clone can be allocated and whose
  packet the lower link takes. With time stamping on, such a transmission (without the
  option, and if the worker can be allocated) succeeds but schedules a worker with a ring
  outside of the array, and the worker accesses it as soon as the time stamp is there.
\<close>

theorem cpu_out_of_bounds:
  assumes "pdev_inv pdev" and "PVAL_MAX_CPUS \<le> env_cpu E" and "env_link_up E" and "env_clone_ok E"
    and "\<And>q. env_queue_rc E q = NETDEV_TX_OK"
  shows "(pd_rxcopy pdev \<longrightarrow> pdev_handle_frame (env_cpu E) pdev p (Some s) = None) \<and>
    (pd_txcopy pdev \<and> \<not> pd_txtstamp pdev \<longrightarrow> pval_xmit A E pdev s = None) \<and>
    (pd_txtstamp pdev \<and> \<not> pd_ipopt pdev \<and> env_worker_ok E \<longrightarrow>
       (\<exists>out w. pval_xmit A E pdev s = Some out \<and> xo_rc out = NETDEV_TX_OK \<and> ScheduleWork w \<in> set (xo_calls out) \<and>
          (\<forall>hz now ts. ts \<noteq> 0 \<longrightarrow>
             pval_txtstamp_work2 hz now (w\<lparr>wk_skb := (wk_skb w)\<lparr>skb_hwtstamp := ts\<rparr>\<rparr>) (xo_pdev out) = None)))"
proof (intro conjI impI)
  note no = no_pmdev [OF assms(1,2)]
  show "pdev_handle_frame (env_cpu E) pdev p (Some s) = None" if "pd_rxcopy pdev"
    using that no by (simp add: pdev_handle_frame_def Let_def)
  show "pval_xmit A E pdev s = None" if tx: "pd_txcopy pdev \<and> \<not> pd_txtstamp pdev"
  proof -
    have "pdev_inv (pdev\<lparr>pd_seq := q\<rparr>)" for q using assms(1) by (simp add: pdev_inv_def)
    then have "pval_xmit_tail E (pdev\<lparr>pd_seq := q\<rparr>) t = None" for q t
      using xmit_copies_out_of_bounds [of "pdev\<lparr>pd_seq := q\<rparr>"] assms(2,4,5) tx by simp
    moreover have "pval_xmit_tail E pdev t = None" for t
      using xmit_copies_out_of_bounds [OF assms(1,2,4,5)] tx by simp
    ultimately show ?thesis by (simp add: pval_xmit_def assms(3) split: Option.bind_split)
  qed
  show "\<exists>out w. pval_xmit A E pdev s = Some out \<and> xo_rc out = NETDEV_TX_OK \<and> ScheduleWork w \<in> set (xo_calls out) \<and>
      (\<forall>hz now ts. ts \<noteq> 0 \<longrightarrow>
         pval_txtstamp_work2 hz now (w\<lparr>wk_skb := (wk_skb w)\<lparr>skb_hwtstamp := ts\<rparr>\<rparr>) (xo_pdev out) = None)"
    if "pd_txtstamp pdev \<and> \<not> pd_ipopt pdev \<and> env_worker_ok E"
    using that assms(3-5) no by (auto simp: pval_xmit_def pval_xmit_tail_def pval_txtstamp_work2_def Let_def)
qed

theorem cpu_out_of_bounds_witness:
  "pdev_handle_frame 16 example_pdev example_tx_skb (Some example_tx_skb) = None \<and>
   pval_xmit plain_api (example_env\<lparr>env_cpu := 16\<rparr>) example_pdev example_tx_skb = None \<and>
   (\<exists>out w. pval_xmit plain_api (example_env\<lparr>env_cpu := 16\<rparr>) (example_pdev\<lparr>pd_txtstamp := True, pd_ipopt := False\<rparr>)
       example_tx_skb = Some out \<and> ScheduleWork w \<in> set (xo_calls out))"
proof -
  let ?E = "example_env\<lparr>env_cpu := 16\<rparr>" and ?p = "example_pdev\<lparr>pd_txtstamp := True, pd_ipopt := False\<rparr>"
  have e: "PVAL_MAX_CPUS \<le> env_cpu ?E" "env_cpu ?E = 16" "env_link_up ?E" "env_clone_ok ?E" "env_worker_ok ?E"
    "env_queue_rc ?E q = NETDEV_TX_OK" for q
    by (simp_all add: PVAL_MAX_CPUS_def example_env_def NETDEV_TX_OK_def)
  have "pdev_inv ?p" using example_pdev_inv by (simp add: pdev_inv_def)
  from cpu_out_of_bounds [OF this e(1,3,4,6), of example_tx_skb example_tx_skb plain_api]
    cpu_out_of_bounds [OF example_pdev_inv e(1,3,4,6), of example_tx_skb example_tx_skb plain_api]
  show ?thesis using e(2,5) by (auto simp: example_pdev_simps)
qed

end
