(* ===== verification/Chardev.thy ===== *)
theory Chardev
  imports Workers
begin

text \<open>
  The character devices of \<open>kmod/pval_main.c\<close>: their names, \<open>pval_file_open\<close>,
  \<open>pval_file_release\<close>, \<open>pval_file_read_iter\<close>, \<open>pval_file_poll\<close>, and their creation and
  removal. \<open>open\<close> finds the device by scanning the name of the opened file; the undefined
  behaviours it can run into are the values of \<open>fault\<close>.
\<close>

section \<open>Names\<close>

datatype fault = BufferOverflow | UninitRead | OutOfBounds

datatype dirn = TX | RX

primrec dirn_name :: "dirn \<Rightarrow> string" where
  "dirn_name TX = ''tx''"
| "dirn_name RX = ''rx''"

primrec pmdevs :: "dirn \<Rightarrow> pval_dev \<Rightarrow> pval_mdev list" where
  "pmdevs TX pdev = pd_txmdevs pdev"
| "pmdevs RX pdev = pd_rxmdevs pdev"

primrec set_pmdevs :: "dirn \<Rightarrow> pval_mdev list \<Rightarrow> pval_dev \<Rightarrow> pval_dev" where
  "set_pmdevs TX mds pdev = pdev\<lparr>pd_txmdevs := mds\<rparr>"
| "set_pmdevs RX mds pdev = pdev\<lparr>pd_rxmdevs := mds\<rparr>"

definition set_pmdev :: "dirn \<Rightarrow> nat \<Rightarrow> pval_mdev \<Rightarrow> pval_dev \<Rightarrow> pval_dev" where
  "set_pmdev d n md pdev = set_pmdevs d ((pmdevs d pdev)[n := md]) pdev"

text \<open>
  \<open>snprintf(name, size, "pval/%s-tx-cpu-%d", ...)\<close> with \<open>size = PVAL_NAME_MAX\<close>, and the
  name of the file that the kernel creates for it under \<open>/dev/pval\<close>.
\<close>

definition mdev_name :: "dirn \<Rightarrow> string \<Rightarrow> nat \<Rightarrow> string" where
  "mdev_name d ifname n =
     take (PVAL_NAME_MAX - 1) (''pval/'' @ ifname @ ''-'' @ dirn_name d @ ''-cpu-'' @ dec n)"

definition file_name :: "string \<Rightarrow> string" where
  "file_name s = rev (takeWhile (\<lambda>c. c \<noteq> CHR ''/'') (rev s))"

section \<open>sscanf\<close>

definition is_space :: "char \<Rightarrow> bool" where
  "is_space c \<longleftrightarrow> (let n = of_char c :: nat in n = 32 \<or> (9 \<le> n \<and> n \<le> 13) \<or> n = 160)"

definition skip_spaces :: "string \<Rightarrow> string" where
  "skip_spaces = dropWhile is_space"

definition scan_word :: "string \<Rightarrow> string \<times> string" where
  "scan_word s = (let t = skip_spaces s in
     (takeWhile (\<lambda>c. \<not> is_space c) t, dropWhile (\<lambda>c. \<not> is_space c) t))"

definition strip_prefix :: "string \<Rightarrow> string \<Rightarrow> string option" where
  "strip_prefix p s = (if take (length p) s = p then Some (drop (length p) s) else None)"

text \<open>\<open>%d\<close> into an \<open>int\<close>: the value is cut to 32 bits.\<close>

definition scan_int :: "string \<Rightarrow> int option" where
  "scan_int s =
     (let (neg, t) = (case s of c # cs \<Rightarrow> if c = CHR ''-'' then (True, cs) else (False, s)
                       | [] \<Rightarrow> (False, s));
          ds = takeWhile is_digit t;
          v = int (dec_val 0 ds)
      in if ds = [] then None
         else Some (sint (word_of_int (if neg then - v else v) :: 32 word)))"

text \<open>\<open>sscanf(buf, "%s %s cpu %d", devname, direct, &cpu)\<close>: the objects it assigns.\<close>

record scanned =
  sc_devname :: "string option"
  sc_direct :: "string option"
  sc_cpu :: "int option"

definition sscanf_name :: "string \<Rightarrow> scanned" where
  "sscanf_name buf =
     (if buf = [] then \<lparr>sc_devname = None, sc_direct = None, sc_cpu = None\<rparr>
      else let (w1, r1) = scan_word buf; r1 = skip_spaces r1 in
        if r1 = [] then \<lparr>sc_devname = Some w1, sc_direct = None, sc_cpu = None\<rparr>
        else let (w2, r2) = scan_word r1 in
          \<lparr>sc_devname = Some w1, sc_direct = Some w2,
           sc_cpu = Option.bind (strip_prefix ''cpu'' (skip_spaces r2)) (\<lambda>r. scan_int (skip_spaces r))\<rparr>)"

section \<open>open and release\<close>

datatype netdev = OtherDev | PvalDev pval_dev

type_synonym net = "string \<Rightarrow> netdev option"

text \<open>\<open>filp->private_data\<close>: a pointer to one of the \<open>pval_mdev\<close> structures.\<close>

record mdev_ref =
  ref_if :: string
  ref_dir :: dirn
  ref_cpu :: nat

definition too_long :: "nat \<Rightarrow> string option \<Rightarrow> bool" where
  "too_long n s = (case s of None \<Rightarrow> False | Some t \<Rightarrow> n \<le> length t)"

definition pval_file_open :: "string \<Rightarrow> net \<Rightarrow> fault + (int \<times> net \<times> mdev_ref option)" where
  "pval_file_open d_name init_net =
     (if PVAL_NAME_MAX \<le> length d_name then Inl OutOfBounds \<comment> \<open>\<open>strlen\<close> of an unterminated copy\<close>
      else
        let buf = map (\<lambda>c. if c = CHR ''-'' then CHR '' '' else c) d_name;
            sc = sscanf_name buf
        in if too_long IFNAMSIZ (sc_devname sc) \<or> too_long 16 (sc_direct sc) then Inl BufferOverflow
           else case sc_devname sc of
             None \<Rightarrow> Inr (- EINVAL, init_net, None)
           | Some devname \<Rightarrow>
               (case init_net devname of
                  None \<Rightarrow> Inr (- ENODEV, init_net, None)
                | Some OtherDev \<Rightarrow> Inr (- EINVAL, init_net, None)
                | Some (PvalDev pdev) \<Rightarrow>
                    (case (sc_direct sc, sc_cpu sc) of
                       (Some direct, Some cpu) \<Rightarrow>
                         if cpu > int (pd_num_cpus pdev) then Inr (- EINVAL, init_net, None)
                         else if take 2 direct \<noteq> ''tx'' \<and> take 2 direct \<noteq> ''rx''
                         then Inr (- EINVAL, init_net, None)
                         else
                           let d = (if take 2 direct = ''tx'' then TX else RX) in
                           if cpu < 0 \<or> length (pmdevs d pdev) \<le> nat cpu then Inl OutOfBounds
                           else
                             let md = pmdevs d pdev ! nat cpu in
                             if md_opened md then Inr (- EBUSY, init_net, None)
                             else
                               let md' = md\<lparr>md_opened := True, md_ring := ring_zero (md_ring md)\<rparr> in
                               Inr (0, init_net(devname \<mapsto> PvalDev (set_pmdev d (nat cpu) md' pdev)),
                                    Some \<lparr>ref_if = devname, ref_dir = d, ref_cpu = nat cpu\<rparr>)
                     | _ \<Rightarrow> Inl UninitRead)))"

text \<open>The structure a \<open>private_data\<close> pointer leads to, and an update of it in place.\<close>

definition deref :: "net \<Rightarrow> mdev_ref \<Rightarrow> pval_mdev option" where
  "deref net p = (case net (ref_if p) of
       Some (PvalDev pdev) \<Rightarrow> nth_opt (pmdevs (ref_dir p) pdev) (ref_cpu p)
     | _ \<Rightarrow> None)"

definition update_ref :: "mdev_ref \<Rightarrow> pval_mdev \<Rightarrow> net \<Rightarrow> net" where
  "update_ref p md net = (case net (ref_if p) of
       Some (PvalDev pdev) \<Rightarrow> net(ref_if p \<mapsto> PvalDev (set_pmdev (ref_dir p) (ref_cpu p) md pdev))
     | _ \<Rightarrow> net)"

definition pval_file_release :: "mdev_ref \<Rightarrow> net \<Rightarrow> (int \<times> net) option" where
  "pval_file_release p net =
     map_option (\<lambda>md. (0, update_ref p (md\<lparr>md_ring := ring_zero (md_ring md), md_opened := False\<rparr>) net))
       (deref net p)"

section \<open>read and poll\<close>

record iovec =
  iov_base :: nat
  iov_len :: nat

datatype iter_type = ITER_IOVEC | ITER_OTHER

text \<open>
  \<open>copy_to_user\<close> is a parameter: user memory, address and bytes to user memory. Its
  result, the number of bytes not copied, is ignored by the code.
\<close>

fun read_loop :: "('u \<Rightarrow> nat \<Rightarrow> bytes \<Rightarrow> 'u) \<Rightarrow> nat \<Rightarrow> iovec list \<Rightarrow> pval_ring \<Rightarrow> 'u \<Rightarrow>
    (pval_ring \<times> 'u) option" where
  "read_loop copy_to_user 0 iov r u = Some (r, u)"
| "read_loop copy_to_user (Suc n) [] r u = None"
| "read_loop copy_to_user (Suc n) (v # iov) r u = do {
     s \<leftarrow> ring_slot r (ring_tail r);
     let copylen = (if sizeof_pval_slot > iov_len v then iov_len v else sizeof_pval_slot);
     read_loop copy_to_user n iov (ring_read_next r)
       (copy_to_user u (iov_base v) (take copylen (slot_bytes s)))
   }"

definition pval_file_read_iter :: "('u \<Rightarrow> nat \<Rightarrow> bytes \<Rightarrow> 'u) \<Rightarrow> iter_type \<Rightarrow> iovec list \<Rightarrow>
    pval_mdev \<Rightarrow> 'u \<Rightarrow> (int \<times> pval_mdev \<times> 'u) option" where
  "pval_file_read_iter copy_to_user ty iov md u =
     (let count = length iov; r = md_ring md in
      if ty \<noteq> ITER_IOVEC then Some (- EOPNOTSUPP, md, u)
      else if ring_emtpy r then Some (0, md, u)
      else
        let avail = unat (ring_read_avail r);
            copynum = (if avail > count then count else avail)
        in map_option (\<lambda>(r', u'). (int copynum, md\<lparr>md_ring := r'\<rparr>, u'))
             (read_loop copy_to_user copynum iov r u))"

definition POLLIN :: u32 where "POLLIN = 0x001"
definition POLLRDNORM :: u32 where "POLLRDNORM = 0x040"

definition pval_file_poll :: "pval_mdev \<Rightarrow> u32" where
  "pval_file_poll md = (if \<not> ring_emtpy (md_ring md) then POLLIN OR POLLRDNORM else 0)"

section \<open>Creation and removal\<close>

text \<open>
  \<open>pval_init_miscdevice\<close>, with what the two calls into the kernel return: whether the slots
  could be allocated (and what is in the memory) and the result of \<open>misc_register\<close>. The
  second component of the result says what is held: the slots and the registration.
\<close>

record mdev_held =
  held_slots :: bool
  held_misc :: bool

definition pval_init_miscdevice ::
    "bool \<Rightarrow> pval_slot list \<Rightarrow> int \<Rightarrow> string \<Rightarrow> int \<Rightarrow> pval_mdev \<Rightarrow> int \<times> pval_mdev \<times> mdev_held" where
  "pval_init_miscdevice kmalloc_ok mem misc_rc name cpu md0 =
     (let md1 = md0\<lparr>md_name := take PVAL_NAME_MAX name, md_cpu := cpu, md_opened := False,
                    md_cloned_skb := None\<rparr>;
          (rc, ring) = pval_init_ring kmalloc_ok mem (word_of_int cpu);
          md2 = md1\<lparr>md_ring := ring\<rparr>
      in if rc < 0 then (rc, md2, \<lparr>held_slots = False, held_misc = False\<rparr>)
         else if misc_rc < 0 then (misc_rc, md2, \<lparr>held_slots = False, held_misc = False\<rparr>)
         else (0, md2, \<lparr>held_slots = True, held_misc = True\<rparr>))"

text \<open>Removal of something that is not held is \<open>None\<close>.\<close>

definition pval_destroy_miscdevice :: "mdev_held \<Rightarrow> mdev_held option" where
  "pval_destroy_miscdevice h =
     (if held_misc h \<and> held_slots h then Some \<lparr>held_slots = False, held_misc = False\<rparr> else None)"

end
