(* ===== verification/Chardev_Correct.thy ===== *)
theory Chardev_Correct
  imports Chardev
begin

text \<open>
  Correctness of the character devices: the name scan of \<open>pval_file_open\<close> against the names
  \<open>pval_newlink\<close> gives, exclusive use, and the delivery of the ring to user space.
\<close>

section \<open>The name scan\<close>

definition undash :: "char \<Rightarrow> char" where
  "undash c = (if c = CHR ''-'' then CHR '' '' else c)"

text \<open>A name that survives the scan: not empty, no white space and no dash.\<close>

definition plain_name :: "string \<Rightarrow> bool" where
  "plain_name s \<longleftrightarrow> s \<noteq> [] \<and> list_all (\<lambda>c. \<not> is_space c \<and> c \<noteq> CHR ''-'' \<and> c \<noteq> CHR ''/'') s"

lemma undash_id: "list_all (\<lambda>c. c \<noteq> CHR ''-'') s \<Longrightarrow> map undash s = s"
  by (induction s) (simp_all add: undash_def)

lemma plain_nameD:
  assumes "plain_name s"
  shows "s \<noteq> []" "list_all (\<lambda>c. \<not> is_space c) s" "map undash s = s" "list_all (\<lambda>c. c \<noteq> CHR ''/'') s"
proof -
  have l: "s \<noteq> []" "list_all (\<lambda>c. \<not> is_space c \<and> c \<noteq> CHR ''-'' \<and> c \<noteq> CHR ''/'') s"
    using assms unfolding plain_name_def by blast+
  from l show "s \<noteq> []" by blast
  from l(2) show "list_all (\<lambda>c. \<not> is_space c) s" by (rule list.pred_mono_strong) blast
  from l(2) show "list_all (\<lambda>c. c \<noteq> CHR ''/'') s" by (rule list.pred_mono_strong) blast
  from l(2) have "list_all (\<lambda>c. c \<noteq> CHR ''-'') s" by (rule list.pred_mono_strong) blast
  then show "map undash s = s" by (rule undash_id)
qed

lemma skip_spaces_word: "w \<noteq> [] \<Longrightarrow> list_all (\<lambda>c. \<not> is_space c) w \<Longrightarrow> skip_spaces (w @ r) = w @ r"
  by (cases w) (simp_all add: skip_spaces_def)

lemma skip_spaces_blank [simp]: "skip_spaces (CHR '' '' # r) = skip_spaces r"
  by (simp add: skip_spaces_def is_space_def)

lemma scan_word_blank:
  "w \<noteq> [] \<Longrightarrow> list_all (\<lambda>c. \<not> is_space c) w \<Longrightarrow> scan_word (w @ CHR '' '' # r) = (w, CHR '' '' # r)"
  by (simp add: scan_word_def skip_spaces_word Let_def)
     (simp add: list_all_iff takeWhile_append dropWhile_append is_space_def)

lemma digit_not_other: "is_digit c \<Longrightarrow> \<not> is_space c \<and> c \<noteq> CHR ''-'' \<and> c \<noteq> CHR ''/''"
proof -
  assume d: "is_digit c"
  have "c \<noteq> CHR ''-''" using d by (rule contrapos_pn) (simp add: is_digit_def)
  moreover have "c \<noteq> CHR ''/''" using d by (rule contrapos_pn) (simp add: is_digit_def)
  moreover have "\<not> is_space c" using d by (simp add: is_digit_def is_space_def Let_def)
  ultimately show ?thesis by blast
qed

lemma dec_plain: "plain_name (dec n)"
  unfolding plain_name_def using dec_digits [of n]
  by (auto elim!: list.pred_mono_strong dest: digit_not_other)

lemma scan_int_dec: "n < 2 ^ 31 \<Longrightarrow> scan_int (dec n) = Some (int n)"
proof -
  assume n: "n < 2 ^ 31"
  obtain c cs where c: "dec n = c # cs" by (cases "dec n") auto
  have d: "is_digit c" "list_all is_digit cs" using dec_digits [of n] by (simp_all add: c)
  have t: "takeWhile is_digit cs = cs" using d by (simp add: list_all_iff takeWhile_eq_all_conv)
  have "dec_val (digit_val c) cs = n" using dec_val_dec [of n] by (simp add: c)
  moreover have "sint (word_of_int (int n) :: 32 word) = int n"
    using n by (intro signed_take_bit_int_eq_self [THEN trans [OF sint_sbintrunc']]) auto
  ultimately show ?thesis
    using d(1) digit_not_other [OF d(1)] by (simp add: scan_int_def c t Let_def)
qed

lemma dirn_name_plain [simp]: "plain_name (dirn_name d)"
  by (cases d) (simp_all add: plain_name_def is_space_def)

lemma sscanf_chardev_name:
  assumes "plain_name ifname" and "n < 2 ^ 31"
  shows "sscanf_name (map undash (ifname @ ''-'' @ dirn_name d @ ''-cpu-'' @ dec n))
    = \<lparr>sc_devname = Some ifname, sc_direct = Some (dirn_name d), sc_cpu = Some (int n)\<rparr>"
proof -
  note a = plain_nameD [OF assms(1)] and b = plain_nameD [OF dirn_name_plain [of d]]
    and c = plain_nameD [OF dec_plain [of n]]
  have u: "undash CHR ''-'' = CHR '' ''" "undash CHR ''c'' = CHR ''c''" "undash CHR ''p'' = CHR ''p''"
    "undash CHR ''u'' = CHR ''u''" by (simp_all add: undash_def)
  have m: "map undash (ifname @ ''-'' @ dirn_name d @ ''-cpu-'' @ dec n)
      = ifname @ CHR '' '' # dirn_name d @ CHR '' '' # ''cpu'' @ CHR '' '' # dec n"
    by (simp add: a(3) b(3) c(3) u)
  have 1: "scan_word (ifname @ CHR '' '' # r) = (ifname, CHR '' '' # r)" for r
    using a by (intro scan_word_blank)
  have 2: "scan_word (dirn_name d @ CHR '' '' # r) = (dirn_name d, CHR '' '' # r)" for r
    using b by (intro scan_word_blank)
  have 3: "skip_spaces (dirn_name d @ r) = dirn_name d @ r" for r
    using b by (intro skip_spaces_word)
  have 4: "skip_spaces (''cpu'' @ r) = ''cpu'' @ r" for r
    by (rule skip_spaces_word) (simp_all add: is_space_def)
  have 5: "skip_spaces (dec n) = dec n" using skip_spaces_word [OF c(1,2), of "[]"] by simp
  show ?thesis
    unfolding m sscanf_name_def
    by (simp add: a b 1 2 3 4 [simplified] 5 strip_prefix_def scan_int_dec [OF assms(2)])
qed

lemma mdev_name_fits:
  assumes "length ifname < IFNAMSIZ" and "n < 100"
  shows "mdev_name d ifname n = ''pval/'' @ ifname @ ''-'' @ dirn_name d @ ''-cpu-'' @ dec n"
    and "length (ifname @ ''-'' @ dirn_name d @ ''-cpu-'' @ dec n) < PVAL_NAME_MAX"
proof -
  have "length (dec n) \<le> 2" using assms(2) by (intro length_dec_le) simp_all
  moreover have "length (dirn_name d) = 2" by (cases d) simp_all
  ultimately have l: "length ifname \<le> 15" "length (dec n) \<le> 2" "length (dirn_name d) = 2"
    using assms(1) by (simp_all add: IFNAMSIZ_def)
  then show "mdev_name d ifname n = ''pval/'' @ ifname @ ''-'' @ dirn_name d @ ''-cpu-'' @ dec n"
    unfolding mdev_name_def by (intro take_all) (simp add: PVAL_NAME_MAX_def IFNAMSIZ_def)
  show "length (ifname @ ''-'' @ dirn_name d @ ''-cpu-'' @ dec n) < PVAL_NAME_MAX"
    using l by (simp add: PVAL_NAME_MAX_def IFNAMSIZ_def)
qed

lemma file_name_last:
  assumes "list_all (\<lambda>c. c \<noteq> CHR ''/'') s"
  shows "file_name (''pval/'' @ s) = s"
proof -
  have "takeWhile (\<lambda>c. c \<noteq> CHR ''/'') (rev s @ ''/lavp'') = rev s"
    using assms by (subst takeWhile_append2) (auto simp: list_all_iff)
  then show ?thesis by (simp add: file_name_def)
qed

text \<open>The file that \<open>pval_newlink\<close> makes appear for a direction and a CPU.\<close>

definition chardev_file :: "dirn \<Rightarrow> string \<Rightarrow> nat \<Rightarrow> string" where
  "chardev_file d ifname n = file_name (mdev_name d ifname n)"

lemma chardev_file_eq:
  assumes "plain_name ifname" and "length ifname < IFNAMSIZ" and "n < 100"
  shows "chardev_file d ifname n = ifname @ ''-'' @ dirn_name d @ ''-cpu-'' @ dec n"
  using plain_nameD(4) [OF assms(1)] plain_nameD(4) [OF dirn_name_plain [of d]]
    plain_nameD(4) [OF dec_plain [of n]]
  unfolding chardev_file_def mdev_name_fits(1) [OF assms(2,3)] by (intro file_name_last) simp

definition flush_open :: "pval_mdev \<Rightarrow> pval_mdev" where
  "flush_open md = md\<lparr>md_opened := True, md_ring := ring_zero (md_ring md)\<rparr>"

lemma file_open_plain:
  assumes "plain_name ifname" and "length ifname < IFNAMSIZ" and "n < 100"
    and "net ifname = Some (PvalDev pdev)" and "length (pmdevs d pdev) = PVAL_MAX_CPUS"
  shows "pval_file_open (chardev_file d ifname n) net =
    (if n > pd_num_cpus pdev then Inr (- EINVAL, net, None)
     else if PVAL_MAX_CPUS \<le> n then Inl OutOfBounds
     else if md_opened (pmdevs d pdev ! n) then Inr (- EBUSY, net, None)
     else Inr (0, net(ifname \<mapsto> PvalDev (set_pmdev d n (flush_open (pmdevs d pdev ! n)) pdev)),
               Some \<lparr>ref_if = ifname, ref_dir = d, ref_cpu = n\<rparr>))"
proof -
  have n: "n < 2 ^ 31" using assms(3) by simp
  have d: "length (dirn_name d) = 2" "take 2 (dirn_name d) = ''tx'' \<longleftrightarrow> d = TX"
    "take 2 (dirn_name d) = ''rx'' \<longleftrightarrow> d = RX" by (cases d; simp)+
  have l: "\<not> PVAL_NAME_MAX \<le> length (ifname @ ''-'' @ dirn_name d @ ''-cpu-'' @ dec n)"
    using mdev_name_fits(2) [OF assms(2,3), of d] by simp
  show ?thesis
    unfolding chardev_file_eq [OF assms(1-3)] pval_file_open_def Let_def undash_def [symmetric] sscanf_chardev_name [OF assms(1) n]
    using assms(2-5) l d
    by (cases d) (simp_all add: too_long_def flush_open_def Let_def)
qed

lemma deref_set:
  assumes "net (ref_if p) = Some (PvalDev pdev)" and "ref_cpu p < length (pmdevs (ref_dir p) pdev)"
  shows "deref (net(ref_if p \<mapsto> PvalDev (set_pmdev (ref_dir p) (ref_cpu p) md pdev))) p = Some md"
    and "deref net p = Some (pmdevs (ref_dir p) pdev ! ref_cpu p)"
  using assms by (cases "ref_dir p"; simp add: deref_def set_pmdev_def nth_opt_def)+

section \<open>Opening\<close>

lemma pmdevs_length: "pdev_inv pdev \<Longrightarrow> length (pmdevs d pdev) = PVAL_MAX_CPUS"
  by (cases d) (simp_all add: pdev_inv_def)

lemma set_pmdev_simps [simp]:
  "pd_num_cpus (set_pmdev d n md pdev) = pd_num_cpus pdev"
  "length (pmdevs d' (set_pmdev d n md pdev)) = length (pmdevs d' pdev)"
  "n < length (pmdevs d pdev) \<Longrightarrow> pmdevs d (set_pmdev d n md pdev) ! n = md"
  "set_pmdev d n md' (set_pmdev d n md pdev) = set_pmdev d n md' pdev"
  by (cases d; cases d'; simp add: set_pmdev_def)+

text \<open>
  C16. Every character device can be opened by its name. For an interface name without dash,
  the file of a direction and a CPU leads \<open>pval_file_open\<close> to that device of that
  interface: it is refused as busy if the device is open, and otherwise opened with an
  empty ring, with no other device changed and no buffer overflow in the scan.
\<close>

theorem open_finds_device:
  assumes "plain_name ifname" and "length ifname < IFNAMSIZ" and "pdev_inv pdev"
    and "net ifname = Some (PvalDev pdev)" and "n < pd_num_cpus pdev"
  shows "let md = pmdevs d pdev ! n; p = \<lparr>ref_if = ifname, ref_dir = d, ref_cpu = n\<rparr> in
    if md_opened md then pval_file_open (chardev_file d ifname n) net = Inr (- EBUSY, net, None)
    else pval_file_open (chardev_file d ifname n) net
           = Inr (0, net(ifname \<mapsto> PvalDev (set_pmdev d n (flush_open md) pdev)), Some p) \<and>
         ring_list (md_ring (flush_open md)) = []"
proof -
  have "n < PVAL_MAX_CPUS" using assms(3,5) by (simp add: pdev_inv_def)
  moreover from this have "n < 100" by (simp add: PVAL_MAX_CPUS_def)
  ultimately show ?thesis
    using file_open_plain [where net = net and d = d, OF assms(1,2) \<open>n < 100\<close> assms(4) pmdevs_length [OF assms(3)]] assms(5)
    by (simp add: Let_def flush_open_def ring_list_zero)
qed

definition example_net :: net where
  "example_net = [''pval0'' \<mapsto> PvalDev (example_pdev\<lparr>pd_txmdevs := replicate 16 (example_mdev\<lparr>md_opened := False\<rparr>)\<rparr>)]"

lemma example_closed_inv:
  "pdev_inv (example_pdev\<lparr>pd_txmdevs := replicate 16 (example_mdev\<lparr>md_opened := False\<rparr>)\<rparr>)"
  using example_pdev_inv example_ring_inv
  by (simp add: pdev_inv_def example_pdev_def example_mdev_def PVAL_MAX_CPUS_def)

lemma plain_pval0: "plain_name ''pval0''" and short_pval0: "length ''pval0'' < IFNAMSIZ"
  by (simp_all add: plain_name_def is_space_def IFNAMSIZ_def)

theorem open_finds_device_witness:
  "(\<exists>net' p. pval_file_open (chardev_file TX ''pval0'' 0) example_net = Inr (0, net', Some p)) \<and>
   pval_file_open (chardev_file RX ''pval0'' 0) example_net = Inr (- EBUSY, example_net, None)"
  using open_finds_device [OF plain_pval0 short_pval0 example_closed_inv, of example_net 0 TX]
    open_finds_device [OF plain_pval0 short_pval0 example_closed_inv, of example_net 0 RX]
  by (simp add: example_net_def example_pdev_def example_mdev_def Let_def)

text \<open>
  Exclusive use. While a device is open a second open of it fails and changes nothing;
  after the release it can be opened again, with an empty ring.
\<close>

lemma open_exclusive:
  assumes "plain_name ifname" and "length ifname < IFNAMSIZ" and "pdev_inv pdev"
    and "net ifname = Some (PvalDev pdev)" and "n < pd_num_cpus pdev"
    and "\<not> md_opened (pmdevs d pdev ! n)"
  shows "\<exists>net1 net2 net3 p md. pval_file_open (chardev_file d ifname n) net = Inr (0, net1, Some p) \<and>
    pval_file_open (chardev_file d ifname n) net1 = Inr (- EBUSY, net1, None) \<and>
    pval_file_release p net1 = Some (0, net2) \<and>
    pval_file_open (chardev_file d ifname n) net2 = Inr (0, net3, Some p) \<and>
    deref net3 p = Some md \<and> md_opened md \<and> ring_list (md_ring md) = []"
proof -
  let ?md = "pmdevs d pdev ! n" and ?p = "\<lparr>ref_if = ifname, ref_dir = d, ref_cpu = n\<rparr>"
  have n16: "n < PVAL_MAX_CPUS" using assms(3,5) by (simp add: pdev_inv_def)
  then have n100: "n < 100" by (simp add: PVAL_MAX_CPUS_def)
  note len = pmdevs_length [OF assms(3), of d]
  define md2 where "md2 = (flush_open ?md)\<lparr>md_ring := ring_zero (md_ring (flush_open ?md)), md_opened := False\<rparr>"
  define net1 where "net1 = net(ifname \<mapsto> PvalDev (set_pmdev d n (flush_open ?md) pdev))"
  define net2 where "net2 = net(ifname \<mapsto> PvalDev (set_pmdev d n md2 pdev))"
  define net3 where "net3 = net(ifname \<mapsto> PvalDev (set_pmdev d n (flush_open md2) pdev))"
  note opn = file_open_plain [OF assms(1,2) n100]
  have 1: "pval_file_open (chardev_file d ifname n) net = Inr (0, net1, Some ?p)"
    using opn [where net = net, OF assms(4) len] assms(5,6) n16 by (simp add: net1_def)
  have "md_opened (flush_open ?md)" "\<not> md_opened md2" by (simp_all add: flush_open_def md2_def)
  moreover have "net1 ifname = Some (PvalDev (set_pmdev d n (flush_open ?md) pdev))"
    "net2 ifname = Some (PvalDev (set_pmdev d n md2 pdev))" by (simp_all add: net1_def net2_def)
  ultimately have 2: "pval_file_open (chardev_file d ifname n) net1 = Inr (- EBUSY, net1, None)"
    and 4: "pval_file_open (chardev_file d ifname n) net2 = Inr (0, net3, Some ?p)"
    using opn [of net1 _ d] opn [of net2 _ d] len assms(5) n16 by (simp_all add: net2_def net3_def)
  have 3: "pval_file_release ?p net1 = Some (0, net2)"
    using len n16 by (simp add: pval_file_release_def deref_def update_ref_def net1_def net2_def
        nth_opt_def md2_def)
  have 5: "deref net3 ?p = Some (flush_open md2)"
    using len n16 by (simp add: deref_def net3_def nth_opt_def)
  with 1 2 3 4 show ?thesis by (auto simp: flush_open_def ring_list_zero)
qed

text \<open>The scan takes the part before the first dash for the interface name.\<close>

lemma open_dashed_name_fails:
  assumes "plain_name a" and "length a < IFNAMSIZ" and "net a = None"
    and "length (a @ ''-'' @ rest) < PVAL_NAME_MAX"
  shows "pval_file_open (a @ ''-'' @ rest) net = Inr (- ENODEV, net, None) \<or>
         pval_file_open (a @ ''-'' @ rest) net = Inl BufferOverflow"
proof -
  note pa = plain_nameD [OF assms(1)]
  have m: "map undash (a @ ''-'' @ rest) = a @ CHR '' '' # map undash rest"
    by (simp add: pa(3) undash_def)
  have "scan_word (map undash (a @ ''-'' @ rest)) = (a, CHR '' '' # map undash rest)"
    unfolding m using pa by (intro scan_word_blank)
  then have "sc_devname (sscanf_name (map undash (a @ ''-'' @ rest))) = Some a"
    by (simp add: sscanf_name_def Let_def split: prod.split)
  with assms(2-4) show ?thesis
    unfolding pval_file_open_def Let_def undash_def [symmetric] by simp
qed

lemma dec_0: "dec 0 = ''0''"
  by code_simp

text \<open>The number of CPUs itself is accepted as a CPU number.\<close>

lemma open_cpu_off_by_one:
  assumes "plain_name ifname" and "length ifname < IFNAMSIZ" and "pdev_inv pdev"
    and "net ifname = Some (PvalDev pdev)" and "n = pd_num_cpus pdev"
  shows "if n = PVAL_MAX_CPUS then pval_file_open (chardev_file d ifname n) net = Inl OutOfBounds
    else \<not> md_opened (pmdevs d pdev ! n) \<longrightarrow>
      (\<exists>net' p. pval_file_open (chardev_file d ifname n) net = Inr (0, net', Some p) \<and> ref_cpu p = n)"
proof -
  have "n \<le> PVAL_MAX_CPUS" using assms(3,5) by (simp add: pdev_inv_def)
  moreover from this have "n < 100" by (simp add: PVAL_MAX_CPUS_def)
  ultimately show ?thesis
    using file_open_plain [where net = net and d = d, OF assms(1,2) \<open>n < 100\<close> assms(4) pmdevs_length [OF assms(3)]] assms(5)
    by auto
qed

text \<open>
  C18. Names that are opened wrongly. An interface whose name has a dash cannot be read: the scan
  takes the part before the first dash for the interface name, so without an interface of that
  name every file of the interface fails to open. And the bound on the CPU is off by one: the
  number of CPUs itself is accepted as a CPU number; with fewer than sixteen CPUs an entry that
  was never initialised is opened, with sixteen the access is outside the array.
\<close>

theorem open_misread_names:
  assumes "plain_name a" and "length a < IFNAMSIZ"
  shows "(net a = None \<and> length (a @ ''-'' @ rest) < PVAL_NAME_MAX \<longrightarrow>
       pval_file_open (a @ ''-'' @ rest) net = Inr (- ENODEV, net, None) \<or>
       pval_file_open (a @ ''-'' @ rest) net = Inl BufferOverflow) \<and>
     (net a = Some (PvalDev pdev) \<and> pdev_inv pdev \<and> n = pd_num_cpus pdev \<longrightarrow>
       (if n = PVAL_MAX_CPUS then pval_file_open (chardev_file d a n) net = Inl OutOfBounds
        else \<not> md_opened (pmdevs d pdev ! n) \<longrightarrow>
          (\<exists>net' p. pval_file_open (chardev_file d a n) net = Inr (0, net', Some p) \<and> ref_cpu p = n)))"
  using open_dashed_name_fails [OF assms] open_cpu_off_by_one [OF assms] by blast

theorem open_misread_names_witness:
  "(pval_file_open (chardev_file TX ''pv-0'' 0) example_net = Inr (- ENODEV, example_net, None) \<or>
    pval_file_open (chardev_file TX ''pv-0'' 0) example_net = Inl BufferOverflow) \<and>
   (\<exists>net' p. pval_file_open (chardev_file TX ''pval0'' 1) example_net = Inr (0, net', Some p) \<and> ref_cpu p = 1)"
proof
  have "length ''pv-0'' < IFNAMSIZ" by (simp add: IFNAMSIZ_def)
  then have f: "chardev_file TX ''pv-0'' 0 = ''pv'' @ ''-'' @ ''0-tx-cpu-0''"
    unfolding chardev_file_def by (subst mdev_name_fits(1)) (simp_all add: file_name_def dec_0)
  show "pval_file_open (chardev_file TX ''pv-0'' 0) example_net = Inr (- ENODEV, example_net, None) \<or>
      pval_file_open (chardev_file TX ''pv-0'' 0) example_net = Inl BufferOverflow"
    unfolding f by (rule open_misread_names [THEN conjunct1, THEN mp])
      (simp_all add: plain_name_def is_space_def IFNAMSIZ_def PVAL_NAME_MAX_def example_net_def)
  show "\<exists>net' p. pval_file_open (chardev_file TX ''pval0'' 1) example_net = Inr (0, net', Some p) \<and> ref_cpu p = 1"
    using open_misread_names [OF plain_pval0 short_pval0, of example_net _
        "example_pdev\<lparr>pd_txmdevs := replicate 16 (example_mdev\<lparr>md_opened := False\<rparr>)\<rparr>" 1 TX] example_closed_inv
    by (simp add: example_net_def example_pdev_def example_mdev_def PVAL_MAX_CPUS_def)
qed

section \<open>Reading\<close>

text \<open>What the loop does to user memory: one slot per buffer, cut to the buffer's length.\<close>

definition copy_slots :: "('u \<Rightarrow> nat \<Rightarrow> bytes \<Rightarrow> 'u) \<Rightarrow> (iovec \<times> pval_slot) list \<Rightarrow> 'u \<Rightarrow> 'u" where
  "copy_slots cp = fold (\<lambda>(v, s) u. cp u (iov_base v) (take (min sizeof_pval_slot (iov_len v)) (slot_bytes s)))"

lemma read_loop_pops:
  "pops (\<lambda>r. ring_slot r (ring_tail r)) ring_read_next n r = Some (ss, r') \<Longrightarrow> n \<le> length iov \<Longrightarrow>
   read_loop cp n iov r u = Some (r', copy_slots cp (zip iov ss) u)"
proof (induction n arbitrary: iov r ss u)
  case (Suc n)
  then obtain v iov' where v: "iov = v # iov'" by (cases iov) auto
  from Suc.prems obtain s ss' where s: "ring_slot r (ring_tail r) = Some s" "ss = s # ss'"
      "pops (\<lambda>r. ring_slot r (ring_tail r)) ring_read_next n (ring_read_next r) = Some (ss', r')"
    by (auto split: option.splits)
  from Suc.IH [OF s(3)] Suc.prems(2) show ?case
    by (simp add: v s copy_slots_def min_def)
qed (simp add: copy_slots_def)

lemma read_iter_eq:
  assumes "ring_inv (md_ring md)" and n_def: "n = min (length iov) (length (ring_list (md_ring md)))"
  shows "\<exists>r'. pval_file_read_iter cp ITER_IOVEC iov md u
      = Some (int n, md\<lparr>md_ring := r'\<rparr>, copy_slots cp (zip iov (take n (ring_list (md_ring md)))) u) \<and>
    ring_inv r' \<and> ring_list r' = drop n (ring_list (md_ring md))"
proof (cases "ring_emtpy (md_ring md)")
  case True
  then have "ring_list (md_ring md) = []" using rq.is_empty_iff [OF assms(1)] by simp
  with True assms(1) show ?thesis
    by (intro exI [of _ "md_ring md"]) (simp add: pval_file_read_iter_def n_def copy_slots_def)
next
  case False
  obtain r' where r': "pops (\<lambda>r. ring_slot r (ring_tail r)) ring_read_next n (md_ring md)
      = Some (take n (ring_list (md_ring md)), r')" "ring_inv r'"
      "ring_list r' = drop n (ring_list (md_ring md))"
    using rq.pops_items [OF assms(1), of n] by (auto simp: n_def)
  have "(if unat (ring_read_avail (md_ring md)) > length iov then length iov
      else unat (ring_read_avail (md_ring md))) = n"
    by (simp add: n_def unat_ring_read_avail [OF assms(1)] length_ring_list [OF assms(1)])
  with False r' read_loop_pops [OF r'(1), of iov cp u] show ?thesis
    by (auto simp: pval_file_read_iter_def Let_def n_def)
qed

text \<open>
  \<open>pval_file_read_iter\<close> delivers the oldest slots. With any number of buffers it returns the
  smaller of the number of buffers and of queued slots, has copied that many of the oldest
  slots in order, one per buffer and cut to the buffer's length, and leaves exactly the
  others queued; \<open>pval_file_poll\<close> announces data exactly if at least one slot is queued.
\<close>

lemma read_iter_delivers:
  assumes "ring_inv (md_ring md)"
  shows "\<exists>r' n. n = min (length iov) (length (ring_list (md_ring md))) \<and>
    pval_file_read_iter cp ITER_IOVEC iov md u
      = Some (int n, md\<lparr>md_ring := r'\<rparr>, copy_slots cp (zip iov (take n (ring_list (md_ring md)))) u) \<and>
    ring_inv r' \<and> ring_list r' = drop n (ring_list (md_ring md)) \<and>
    (pval_file_poll md = 0 \<longleftrightarrow> ring_list (md_ring md) = [])"
proof -
  have "pval_file_poll md = 0 \<longleftrightarrow> ring_list (md_ring md) = []"
    using rq.is_empty_iff [OF assms] by (simp add: pval_file_poll_def POLLIN_def POLLRDNORM_def)
  with read_iter_eq [where iov = iov, OF assms refl, of cp u] show ?thesis by blast
qed

section \<open>From the packet to user space\<close>

text \<open>
  What \<open>copy_to_user\<close> does when no page fault cuts it short, with \<open>rd\<close> reading user
  memory: the bytes arrive, and memory elsewhere keeps its contents.
\<close>

definition copy_to_user_ok :: "('u \<Rightarrow> nat \<Rightarrow> bytes \<Rightarrow> 'u) \<Rightarrow> ('u \<Rightarrow> nat \<Rightarrow> nat \<Rightarrow> bytes) \<Rightarrow> bool" where
  "copy_to_user_ok cp rd \<longleftrightarrow> (\<forall>u a bs. rd (cp u a bs) a (length bs) = bs) \<and>
     (\<forall>u a bs b n. b + n \<le> a \<or> a + length bs \<le> b \<longrightarrow> rd (cp u a bs) b n = rd u b n)"

text \<open>Buffers of a slot's size that do not overlap.\<close>

definition disjoint_bufs :: "iovec list \<Rightarrow> bool" where
  "disjoint_bufs iov \<longleftrightarrow> list_all (\<lambda>v. iov_len v = sizeof_pval_slot) iov \<and>
     sorted_wrt (\<lambda>v w. iov_base v + sizeof_pval_slot \<le> iov_base w \<or>
                       iov_base w + sizeof_pval_slot \<le> iov_base v) iov"

definition decode_bufs :: "('u \<Rightarrow> nat \<Rightarrow> nat \<Rightarrow> bytes) \<Rightarrow> iovec list \<Rightarrow> 'u \<Rightarrow> pval_slot option list" where
  "decode_bufs rd iov u = map (\<lambda>v. slot_of_bytes (rd u (iov_base v) sizeof_pval_slot)) iov"

lemma copy_slots_frame:
  assumes "copy_to_user_ok cp rd" and "list_all slot_ok ss"
    and "list_all (\<lambda>w. iov_len w = sizeof_pval_slot \<and> (iov_base v + sizeof_pval_slot \<le> iov_base w \<or>
           iov_base w + sizeof_pval_slot \<le> iov_base v)) iov"
  shows "rd (copy_slots cp (zip iov ss) u) (iov_base v) sizeof_pval_slot = rd u (iov_base v) sizeof_pval_slot"
  using assms(2,3)
proof (induction iov arbitrary: ss u)
  case (Cons w iov)
  show ?case
  proof (cases ss)
    case (Cons s ss')
    have "rd (cp u (iov_base w) (slot_bytes s)) (iov_base v) sizeof_pval_slot
        = rd u (iov_base v) sizeof_pval_slot"
      using assms(1) Cons.prems Cons length_slot_bytes [of s] unfolding copy_to_user_ok_def by auto
    with Cons.IH [of ss'] Cons.prems Cons length_slot_bytes [of s] show ?thesis
      by (simp add: copy_slots_def)
  qed (simp add: copy_slots_def)
qed (simp add: copy_slots_def)

lemma copy_slots_decode:
  assumes "copy_to_user_ok cp rd"
  shows "disjoint_bufs iov \<Longrightarrow> list_all slot_ok ss \<Longrightarrow> length iov = length ss \<Longrightarrow>
    decode_bufs rd iov (copy_slots cp (zip iov ss) u) = map Some ss"
proof (induction iov arbitrary: ss u)
  case (Cons v iov)
  then obtain s ss' where s: "ss = s # ss'" "slot_ok s" "list_all slot_ok ss'" by (cases ss) auto
  let ?u = "cp u (iov_base v) (slot_bytes s)"
  have len: "length (slot_bytes s) = sizeof_pval_slot" using length_slot_bytes [OF s(2)] .
  have v: "iov_len v = sizeof_pval_slot" and d: "disjoint_bufs iov"
    and sep: "list_all (\<lambda>w. iov_len w = sizeof_pval_slot \<and> (iov_base v + sizeof_pval_slot \<le> iov_base w \<or>
           iov_base w + sizeof_pval_slot \<le> iov_base v)) iov"
    using Cons.prems(1) by (auto simp: disjoint_bufs_def list_all_iff)
  have c: "copy_slots cp (zip (v # iov) ss) u = copy_slots cp (zip iov ss') ?u"
    by (simp add: copy_slots_def s v len)
  have "rd ?u (iov_base v) sizeof_pval_slot = slot_bytes s"
    using assms len unfolding copy_to_user_ok_def by metis
  then have "slot_of_bytes (rd (copy_slots cp (zip iov ss') ?u) (iov_base v) sizeof_pval_slot) = Some s"
    using copy_slots_frame [OF assms s(3) sep] slot_of_bytes_slot_bytes [OF s(2)] by simp
  moreover have "decode_bufs rd iov (copy_slots cp (zip iov ss') ?u) = map Some ss'"
    using Cons.IH [OF d s(3)] Cons.prems(3) s(1) by simp
  ultimately show ?case unfolding c by (simp add: decode_bufs_def s(1))
qed (simp add: decode_bufs_def)

lemma ring_list_ok: "ring_inv r \<Longrightarrow> list_all slot_ok (ring_list r)"
  using ring_invD(4) [of r] by (auto simp: ring_list_def list_all_iff)

lemma disjoint_bufs_take: "disjoint_bufs iov \<Longrightarrow> disjoint_bufs (take n iov)"
  by (auto simp: disjoint_bufs_def list_all_iff sorted_wrt_take dest: in_set_takeD)

lemma zip_take_both: "zip xs (take n ys) = zip (take n xs) (take n ys)"
proof (induction xs arbitrary: n ys)
  case (Cons x xs)
  then show ?case by (cases n; cases ys) auto
qed simp

text \<open>Slots arrive intact: with disjoint buffers of a slot's size and user memory that can be
  written, decoding the first buffers gives the slots taken from the ring, in order.\<close>

lemma read_decode:
  assumes "ring_inv (md_ring md)" and "copy_to_user_ok cp rd" and "disjoint_bufs iov"
    and n_def: "n = min (length iov) (length (ring_list (md_ring md)))"
  shows "\<exists>md' u'. pval_file_read_iter cp ITER_IOVEC iov md u = Some (int n, md', u') \<and>
    decode_bufs rd (take n iov) u' = map Some (take n (ring_list (md_ring md)))"
proof -
  let ?l = "ring_list (md_ring md)"
  have z: "zip iov (take n ?l) = zip (take n iov) (take n ?l)" by (rule zip_take_both)
  have "list_all slot_ok (take n ?l)"
    using ring_list_ok [OF assms(1)] by (auto simp: list_all_iff dest: in_set_takeD)
  moreover have "length (take n iov) = length (take n ?l)" by (simp add: n_def)
  ultimately have "decode_bufs rd (take n iov) (copy_slots cp (zip iov (take n ?l)) u) = map Some (take n ?l)"
    unfolding z by (intro copy_slots_decode [OF assms(2) disjoint_bufs_take [OF assms(3)]])
  with read_iter_eq [OF assms(1) n_def, of cp u] show ?thesis by auto
qed

definition put_user :: "(nat \<Rightarrow> u8) \<Rightarrow> nat \<Rightarrow> bytes \<Rightarrow> nat \<Rightarrow> u8" where
  "put_user u a bs = (\<lambda>i. if a \<le> i \<and> i < a + length bs then bs ! (i - a) else u i)"

definition get_user :: "(nat \<Rightarrow> u8) \<Rightarrow> nat \<Rightarrow> nat \<Rightarrow> bytes" where
  "get_user u a n = map u [a..<a + n]"

lemma put_user_ok: "copy_to_user_ok put_user get_user"
  by (auto simp: copy_to_user_ok_def put_user_def get_user_def intro!: nth_equalityI)

definition example_bufs :: "iovec list" where
  "example_bufs = [\<lparr>iov_base = 0, iov_len = 272\<rparr>, \<lparr>iov_base = 4096, iov_len = 272\<rparr>]"

lemma example_bufs_disjoint: "disjoint_bufs example_bufs"
  by (simp add: disjoint_bufs_def example_bufs_def sizeof_pval_slot_def)

text \<open>A sequence of packets offered to one ring by the handlers.\<close>

fun write_all :: "pval_ring \<Rightarrow> sk_buff list \<Rightarrow> pval_ring option" where
  "write_all r [] = Some r"
| "write_all r (s # ss) = do { (n, r') \<leftarrow> write_to_ring r s; write_all r' ss }"

lemma md_ring_update_inject: "md\<lparr>md_ring := a\<rparr> = md\<lparr>md_ring := b\<rparr> \<longleftrightarrow> a = b" for md :: pval_mdev
  by (cases md) simp

lemma write_all_list:
  "ring_inv r \<Longrightarrow> list_all skb_linear skbs \<Longrightarrow> \<exists>r' ss. write_all r skbs = Some r' \<and> ring_inv r' \<and>
     ring_list r' = ring_list r @ ss \<and> list_all2 slot_holds (take (1023 - length (ring_list r)) skbs) ss"
proof (induction skbs arbitrary: r)
  case (Cons s skbs)
  let ?md = "example_mdev\<lparr>md_ring := r\<rparr>"
  obtain n r1 where r1: "write_to_ring r s = Some (n, r1)" "ring_inv r1"
      "ring_offer ?md s (?md\<lparr>md_ring := r1\<rparr>)"
    using write_to_ring_offer [of ?md s] Cons.prems by auto
  from Cons.IH [OF r1(2)] Cons.prems obtain r' ss where r': "write_all r1 skbs = Some r'" "ring_inv r'"
      "ring_list r' = ring_list r1 @ ss" "list_all2 slot_holds (take (1023 - length (ring_list r1)) skbs) ss"
    by auto
  show ?case
  proof (cases "length (ring_list r) = 1023")
    case True
    then have "r1 = r" using r1(3) by (auto simp: ring_offer_def md_ring_update_inject)
    with True r1(1) r' show ?thesis by auto
  next
    case False
    then obtain x where x: "ring_list r1 = ring_list r @ [x]" "slot_holds s x"
      using r1(3) by (auto simp: ring_offer_def md_ring_update_inject)
    have "length (ring_list r) < 1023"
      using False rq.items_cap [OF Cons.prems(1)] by simp
    then have "1023 - length (ring_list r) = Suc (1023 - length (ring_list r1))"
      by (simp add: x)
    then show ?thesis using r1(1) r' x by (auto intro!: exI [of _ "x # ss"])
  qed
qed simp

text \<open>
  C22. End to end. If packets are offered to the ring of a freshly opened device and then read
  with disjoint buffers, user space finds in its buffers, in the order of the packets,
  their length, hardware time stamp and first 256 bytes; the first 1023 packets are kept,
  limited by the number of buffers.
\<close>

theorem packets_reach_user_space:
  assumes "ring_inv (md_ring md)" and "list_all skb_linear skbs"
    and "copy_to_user_ok cp rd" and "disjoint_bufs iov"
  shows "\<exists>r n md' u' ss. write_all (md_ring (flush_open md)) skbs = Some r \<and>
    pval_file_read_iter cp ITER_IOVEC iov (md\<lparr>md_ring := r\<rparr>) u = Some (int n, md', u') \<and>
    n = min (length iov) (min 1023 (length skbs)) \<and>
    decode_bufs rd (take n iov) u' = map Some ss \<and> list_all2 slot_holds (take n skbs) ss"
proof -
  let ?r0 = "md_ring (flush_open md)"
  have e: "ring_inv ?r0" "ring_list ?r0 = []"
    using ring_inv_zero [OF assms(1)] by (simp_all add: flush_open_def ring_list_zero)
  obtain r ss where r: "write_all ?r0 skbs = Some r" "ring_inv r" "ring_list r = ss"
      "list_all2 slot_holds (take 1023 skbs) ss"
    using write_all_list [OF e(1) assms(2)] e(2) by auto
  have "length ss = min 1023 (length skbs)" using list_all2_lengthD [OF r(4)] by simp
  moreover define n where "n = min (length iov) (length ss)"
  moreover have "list_all2 slot_holds (take n (take 1023 skbs)) (take n ss)"
    using r(4) by (rule list_all2_takeI)
  moreover have "ring_inv (md_ring (md\<lparr>md_ring := r\<rparr>))" using r(2) by simp
  ultimately show ?thesis
    using read_decode [OF _ assms(3,4), of "md\<lparr>md_ring := r\<rparr>" n u] r(1,3)
    by (auto simp: min.assoc min.commute)
qed

theorem packets_reach_user_space_witness:
  "\<exists>r md' u' s. write_all (md_ring (flush_open example_mdev)) [example_tx_skb] = Some r \<and>
    pval_file_read_iter put_user ITER_IOVEC example_bufs (example_mdev\<lparr>md_ring := r\<rparr>) (\<lambda>_. 0)
      = Some (1, md', u') \<and>
    decode_bufs get_user (take 1 example_bufs) u' = [Some s] \<and> slot_holds example_tx_skb s"
proof -
  have inv: "ring_inv (md_ring example_mdev)" by (simp add: example_pdev_simps example_ring_inv)
  have lin: "list_all skb_linear [example_tx_skb]" by (simp add: example_tx_skb_linear)
  from packets_reach_user_space [OF inv lin put_user_ok example_bufs_disjoint, of "\<lambda>_. 0"]
  obtain r md' u' ss where o: "write_all (md_ring (flush_open example_mdev)) [example_tx_skb] = Some r"
      "pval_file_read_iter put_user ITER_IOVEC example_bufs (example_mdev\<lparr>md_ring := r\<rparr>) (\<lambda>_. 0) = Some (1, md', u')"
      "decode_bufs get_user (take 1 example_bufs) u' = map Some ss" "list_all2 slot_holds [example_tx_skb] ss"
    by (auto simp: example_bufs_def)
  from o(4) obtain s where "ss = [s]" "slot_holds example_tx_skb s" by (auto simp: list_all2_Cons1)
  with o show ?thesis by auto
qed

end
