(* ===== verification/Link.thy ===== *)
theory Link
  imports Chardev_Correct
begin

text \<open>
  Creation, configuration and removal of Pval interfaces (\<open>kmod/pval_main.c\<close> from
  \<open>netdev_ioctl\<close> to the module entry points). The state of the kernel these functions
  work on is the record \<open>kworld\<close>; what the kernel answers to their calls is the record
  \<open>kenv\<close>; \<open>None\<close> is an access through a missing pointer or outside an attribute.
\<close>

section \<open>The state of the kernel\<close>

datatype ioctl_cmd = SIOCGHWTSTAMP | SIOCSHWTSTAMP

text \<open>
  The \<open>ndo_do_ioctl\<close> of a driver: current configuration, command and argument to result,
  new configuration and what is in the argument afterwards.
\<close>

type_synonym ndo_do_ioctl =
  "hwtstamp_config \<Rightarrow> ioctl_cmd \<Rightarrow> hwtstamp_config \<Rightarrow> int \<times> hwtstamp_config \<times> hwtstamp_config"

record lower_dev =
  lo_ioctl :: "ndo_do_ioctl option"
  lo_hwtstamp :: hwtstamp_config
  lo_rx_handler :: "netdev_id option"
  lo_promiscuity :: int
  lo_refs :: int
  lo_uppers :: "netdev_id list"
  lo_needed_headroom :: u16

record net_device =
  nd_ifindex :: netdev_id
  nd_name :: string
  nd_needs_free_netdev :: bool
  nd_pval_ops :: bool
  nd_lltx :: bool
  nd_no_queue :: bool
  nd_tx_skb_sharing :: bool
  nd_min_mtu :: nat
  nd_max_mtu :: nat
  nd_needed_headroom :: u16
  nd_tstats :: bool

record kworld =
  kw_lower :: "netdev_id \<Rightarrow> lower_dev option"
  kw_registered :: "netdev_id list"
  kw_unreg_queue :: "netdev_id list"
  kw_held :: "netdev_id \<Rightarrow> dirn \<Rightarrow> nat \<Rightarrow> mdev_held"
  kw_dev_list :: "netdev_id list"
  kw_kernel_ds :: bool

record kenv =
  ke_register_rc :: int
  ke_upper_rc :: int
  ke_num_possible_cpus :: nat
  ke_kmalloc :: "dirn \<Rightarrow> nat \<Rightarrow> bool \<times> pval_slot list"
  ke_misc_rc :: "dirn \<Rightarrow> nat \<Rightarrow> int"
  ke_promisc_rc :: int

definition upd_lower :: "netdev_id \<Rightarrow> (lower_dev \<Rightarrow> lower_dev) \<Rightarrow> kworld \<Rightarrow> kworld" where
  "upd_lower i f w = w\<lparr>kw_lower := (kw_lower w)(i := map_option f (kw_lower w i))\<rparr>"

definition set_held :: "netdev_id \<Rightarrow> dirn \<Rightarrow> nat \<Rightarrow> mdev_held \<Rightarrow> kworld \<Rightarrow> kworld" where
  "set_held dev d n h w =
     w\<lparr>kw_held := (kw_held w)(dev := (kw_held w dev)(d := (kw_held w dev d)(n := h)))\<rparr>"

section \<open>Hardware time stamp configuration\<close>

definition HWTSTAMP_TX_ON :: int where "HWTSTAMP_TX_ON = 1"
definition HWTSTAMP_FILTER_ALL :: int where "HWTSTAMP_FILTER_ALL = 1"

definition netdev_ioctl ::
    "netdev_id \<Rightarrow> ioctl_cmd \<Rightarrow> hwtstamp_config \<Rightarrow> kworld \<Rightarrow> (int \<times> hwtstamp_config \<times> kworld) option" where
  "netdev_ioctl dev cmd arg w =
     (case kw_lower w dev of
        None \<Rightarrow> None
      | Some lo \<Rightarrow>
          (case lo_ioctl lo of
             None \<Rightarrow> Some (- ENOTSUPP, arg, w)
           | Some ndo \<Rightarrow>
               let fs = kw_kernel_ds w;
                   w1 = w\<lparr>kw_kernel_ds := True\<rparr>;
                   (rc, cur, arg') = ndo (lo_hwtstamp lo) cmd arg;
                   w2 = upd_lower dev (\<lambda>l. l\<lparr>lo_hwtstamp := cur\<rparr>) w1
               in Some (rc, arg', w2\<lparr>kw_kernel_ds := fs\<rparr>)))"

text \<open>\<open>stack\<close> is what the uninitialised local variable \<open>config\<close> holds before the call.\<close>

definition pval_save_tstamp_config ::
    "hwtstamp_config \<Rightarrow> pval_dev \<Rightarrow> kworld \<Rightarrow> (int \<times> pval_dev \<times> kworld) option" where
  "pval_save_tstamp_config stack pdev w = do {
     link \<leftarrow> pd_link pdev;
     (rc, config, w') \<leftarrow> netdev_ioctl link SIOCGHWTSTAMP stack w;
     if rc \<noteq> 0 then Some (rc, pdev, w')
     else Some (0, pdev\<lparr>pd_original_config := config\<rparr>, w')
   }"

definition pval_restore_tstamp_config ::
    "pval_dev \<Rightarrow> kworld \<Rightarrow> (int \<times> pval_dev \<times> kworld) option" where
  "pval_restore_tstamp_config pdev w = do {
     link \<leftarrow> pd_link pdev;
     (rc, config, w') \<leftarrow> netdev_ioctl link SIOCSHWTSTAMP (pd_original_config pdev) w;
     Some (rc, pdev\<lparr>pd_original_config := config\<rparr>, w')
   }"

definition tstamp_config :: "pval_dev \<Rightarrow> hwtstamp_config" where
  "tstamp_config pdev =
     \<lparr>hc_flags = 0, hc_tx_type = (if pd_txtstamp pdev then HWTSTAMP_TX_ON else 0),
      hc_rx_filter = (if pd_rxtstamp pdev then HWTSTAMP_FILTER_ALL else 0)\<rparr>"

definition pval_set_tstamp_config :: "pval_dev \<Rightarrow> kworld \<Rightarrow> (int \<times> kworld) option" where
  "pval_set_tstamp_config pdev w = do {
     link \<leftarrow> pd_link pdev;
     (rc, config, w') \<leftarrow> netdev_ioctl link SIOCSHWTSTAMP (tstamp_config pdev) w;
     Some (rc, w')
   }"

section \<open>The interface goes up and down\<close>

definition pval_init :: "bool \<Rightarrow> net_device \<Rightarrow> int \<times> net_device" where
  "pval_init alloc_ok dev =
     (let dev' = dev\<lparr>nd_tstats := alloc_ok\<rparr>
      in if \<not> nd_tstats dev' then (- ENOMEM, dev') else (0, dev'))"

definition pval_uninit :: "net_device \<Rightarrow> net_device" where
  "pval_uninit dev = dev\<lparr>nd_tstats := False\<rparr>"

definition dev_set_promiscuity :: "int \<Rightarrow> netdev_id \<Rightarrow> int \<Rightarrow> kworld \<Rightarrow> kworld" where
  "dev_set_promiscuity rc link inc w =
     (if rc < 0 then w else upd_lower link (\<lambda>l. l\<lparr>lo_promiscuity := lo_promiscuity l + inc\<rparr>) w)"

definition pval_open :: "kenv \<Rightarrow> pval_dev \<Rightarrow> kworld \<Rightarrow> (int \<times> pval_dev \<times> kworld) option" where
  "pval_open E pdev w = do {
     link \<leftarrow> pd_link pdev;
     lo \<leftarrow> kw_lower w link;
     if lo_rx_handler lo \<noteq> None then Some (- EBUSY, pdev, w)
     else do {
       let w1 = upd_lower link (\<lambda>l. l\<lparr>lo_rx_handler := Some (pd_dev pdev)\<rparr>) w;
       (rc', w2) \<leftarrow> pval_set_tstamp_config pdev w1;
       let rc = ke_promisc_rc E;
       let w3 = dev_set_promiscuity rc link 1 w2;
       if rc < 0 then do {
         (rc'', pdev', w4) \<leftarrow> pval_restore_tstamp_config pdev w3;
         Some (rc, pdev', upd_lower link (\<lambda>l. l\<lparr>lo_rx_handler := None\<rparr>) w4)
       } else Some (rc, pdev, w3)
     }
   }"

definition pval_stop :: "pval_dev \<Rightarrow> kworld \<Rightarrow> (int \<times> kworld) option" where
  "pval_stop pdev w = do {
     link \<leftarrow> pd_link pdev;
     let w1 = upd_lower link (\<lambda>l. l\<lparr>lo_rx_handler := None\<rparr>) w;
     Some (0, dev_set_promiscuity 0 link (- 1) w1)
   }"

definition ETH_MIN_MTU :: nat where "ETH_MIN_MTU = 68"
definition ETH_MAX_MTU :: nat where "ETH_MAX_MTU = 65535"

definition pval_setup :: "net_device \<Rightarrow> net_device" where
  "pval_setup dev = dev\<lparr>nd_needs_free_netdev := True, nd_pval_ops := True, nd_lltx := True,
     nd_no_queue := True, nd_tx_skb_sharing := False, nd_min_mtu := ETH_MIN_MTU,
     nd_max_mtu := ETH_MAX_MTU\<rparr>"

section \<open>Configuration over netlink\<close>

type_synonym attrs = "nat \<Rightarrow> bytes option"

datatype nla_type = NLA_U8 | NLA_U32

definition pval_policy :: "nat \<Rightarrow> nla_type option" where
  "pval_policy = [IFLA_PVAL_LINK \<mapsto> NLA_U32, IFLA_PVAL_IPOPT \<mapsto> NLA_U8, IFLA_PVAL_TXTSTAMP \<mapsto> NLA_U8,
     IFLA_PVAL_RXTSTAMP \<mapsto> NLA_U8, IFLA_PVAL_TXCOPY \<mapsto> NLA_U8, IFLA_PVAL_RXCOPY \<mapsto> NLA_U8,
     IFLA_PVAL_TXBUSYDROP \<mapsto> NLA_U8]"

text \<open>\<open>data[a]\<close>, where \<open>data\<close> itself may be a null pointer.\<close>

definition attr :: "attrs option \<Rightarrow> nat \<Rightarrow> bytes option" where
  "attr data a = (case data of None \<Rightarrow> None | Some d \<Rightarrow> d a)"

definition nla_get_u8 :: "bytes \<Rightarrow> u8 option" where
  "nla_get_u8 p = nth_opt p 0"

definition nla_get_u32 :: "bytes \<Rightarrow> nat option" where
  "nla_get_u32 p = map_option le_val (mem_read p 0 4)"

text \<open>One of the six blocks of \<open>pval_nl_config\<close>.\<close>

definition nl_switch :: "attrs option \<Rightarrow> nat \<Rightarrow> bool \<Rightarrow> bool option" where
  "nl_switch data a old =
     (case attr data a of None \<Rightarrow> Some old
      | Some p \<Rightarrow> map_option (\<lambda>v. v \<noteq> 0) (nla_get_u8 p))"

definition pval_nl_config :: "attrs option \<Rightarrow> pval_dev \<Rightarrow> pval_dev option" where
  "pval_nl_config data pdev = do {
     ipopt \<leftarrow> nl_switch data IFLA_PVAL_IPOPT (pd_ipopt pdev);
     txtstamp \<leftarrow> nl_switch data IFLA_PVAL_TXTSTAMP (pd_txtstamp pdev);
     rxtstamp \<leftarrow> nl_switch data IFLA_PVAL_RXTSTAMP (pd_rxtstamp pdev);
     txcopy \<leftarrow> nl_switch data IFLA_PVAL_TXCOPY (pd_txcopy pdev);
     rxcopy \<leftarrow> nl_switch data IFLA_PVAL_RXCOPY (pd_rxcopy pdev);
     txbusydrop \<leftarrow> nl_switch data IFLA_PVAL_TXBUSYDROP (pd_txbusydrop pdev);
     Some (pdev\<lparr>pd_ipopt := ipopt, pd_txtstamp := txtstamp, pd_rxtstamp := rxtstamp,
                pd_txcopy := txcopy, pd_rxcopy := rxcopy, pd_txbusydrop := txbusydrop\<rparr>)
   }"

section \<open>Creation\<close>

definition init_mdev :: "kenv \<Rightarrow> dirn \<Rightarrow> nat \<Rightarrow> pval_dev \<Rightarrow> kworld \<Rightarrow> (int \<times> pval_dev \<times> kworld) option" where
  "init_mdev E d n pdev w =
     (if length (pmdevs d pdev) \<le> n then None
      else let (kmalloc_ok, mem) = ke_kmalloc E d n;
               (rc, md, held) = pval_init_miscdevice kmalloc_ok mem (ke_misc_rc E d n)
                                  (mdev_name d (pd_name pdev) n) (int n) (pmdevs d pdev ! n)
           in Some (rc, set_pmdev d n md pdev, set_held (pd_dev pdev) d n held w))"

text \<open>The loop over the CPUs, from \<open>n\<close> on with \<open>k\<close> rounds to go.\<close>

fun init_mdevs :: "kenv \<Rightarrow> nat \<Rightarrow> nat \<Rightarrow> pval_dev \<Rightarrow> kworld \<Rightarrow> (int \<times> pval_dev \<times> kworld) option" where
  "init_mdevs E n 0 pdev w = Some (0, pdev, w)"
| "init_mdevs E n (Suc k) pdev w = do {
     (rc1, pdev1, w1) \<leftarrow> init_mdev E TX n pdev w;
     if rc1 < 0 then Some (rc1, pdev1, w1)
     else do {
       (rc2, pdev2, w2) \<leftarrow> init_mdev E RX n pdev1 w1;
       if rc2 < 0 then Some (rc2, pdev2, w2) else init_mdevs E (Suc n) k pdev2 w2
     }
   }"

definition unregister_netdevice :: "netdev_id \<Rightarrow> kworld \<Rightarrow> kworld" where
  "unregister_netdevice dev w = w\<lparr>kw_registered := removeAll dev (kw_registered w)\<rparr>"

definition zero_hwtstamp :: hwtstamp_config where
  "zero_hwtstamp = \<lparr>hc_flags = 0, hc_tx_type = 0, hc_rx_filter = 0\<rparr>"

definition pval_newlink :: "kenv \<Rightarrow> hwtstamp_config \<Rightarrow> net_device \<Rightarrow> attrs option \<Rightarrow> pval_dev \<Rightarrow> kworld \<Rightarrow>
    (int \<times> net_device \<times> pval_dev \<times> kworld) option" where
  "pval_newlink E stack dev data pdev0 w0 = do {
     let pdev1 = pdev0\<lparr>pd_dev := nd_ifindex dev, pd_name := nd_name dev, pd_ipopt := False,
       pd_txtstamp := False, pd_rxtstamp := False, pd_txcopy := False, pd_rxcopy := False,
       pd_txbusydrop := True, pd_original_config := zero_hwtstamp\<rparr>;
     link \<leftarrow> (case attr data IFLA_PVAL_LINK of
                None \<Rightarrow> Some None
              | Some p \<Rightarrow> map_option (\<lambda>i. if kw_lower w0 i = None then None else Some i) (nla_get_u32 p));
     (case link of
        None \<Rightarrow> Some (- ENODEV, dev, pdev1, w0)
      | Some i \<Rightarrow> do {
          let w1 = upd_lower i (\<lambda>l. l\<lparr>lo_refs := lo_refs l + 1\<rparr>) w0;
          lo \<leftarrow> kw_lower w1 i;
          pdev2 \<leftarrow> pval_nl_config data (pdev1\<lparr>pd_link := Some i\<rparr>);
          let dev1 = dev\<lparr>nd_needed_headroom :=
                           word_of_nat sizeof_ipopt_pval + lo_needed_headroom lo\<rparr>;
          if ke_register_rc E \<noteq> 0 then Some (ke_register_rc E, dev1, pdev2, w1)
          else do {
            let w2 = w1\<lparr>kw_registered := kw_registered w1 @ [nd_ifindex dev]\<rparr>;
            if ke_upper_rc E \<noteq> 0
            then Some (ke_upper_rc E, dev1, pdev2, unregister_netdevice (nd_ifindex dev) w2)
            else do {
              let w3 = upd_lower i (\<lambda>l. l\<lparr>lo_uppers := lo_uppers l @ [nd_ifindex dev]\<rparr>) w2;
              let cpus = (if PVAL_MAX_CPUS > ke_num_possible_cpus E
                          then ke_num_possible_cpus E else PVAL_MAX_CPUS);
              (err, pdev3, w4) \<leftarrow> init_mdevs E 0 cpus (pdev2\<lparr>pd_num_cpus := cpus\<rparr>) w3;
              if err < 0 then Some (err, dev1, pdev3, unregister_netdevice (nd_ifindex dev) w4)
              else do {
                (rc, pdev4, w5) \<leftarrow> pval_save_tstamp_config stack pdev3 w4;
                Some (0, dev1, pdev4, w5\<lparr>kw_dev_list := kw_dev_list w5 @ [nd_ifindex dev]\<rparr>)
              }
            }
          }
        })
   }"

definition pval_changelink :: "attrs option \<Rightarrow> pval_dev \<Rightarrow> kworld \<Rightarrow> (int \<times> pval_dev \<times> kworld) option" where
  "pval_changelink data pdev w =
     (if attr data IFLA_PVAL_LINK \<noteq> None then Some (- ENOTSUPP, pdev, w)
      else do {
        pdev' \<leftarrow> pval_nl_config data pdev;
        (rc, w') \<leftarrow> pval_set_tstamp_config pdev' w;
        Some (0, pdev', w')
      })"

section \<open>Removal\<close>

definition destroy_mdev :: "netdev_id \<Rightarrow> dirn \<Rightarrow> nat \<Rightarrow> kworld \<Rightarrow> kworld option" where
  "destroy_mdev dev d n w =
     map_option (\<lambda>h. set_held dev d n h w) (pval_destroy_miscdevice (kw_held w dev d n))"

fun destroy_mdevs :: "netdev_id \<Rightarrow> nat \<Rightarrow> nat \<Rightarrow> kworld \<Rightarrow> kworld option" where
  "destroy_mdevs dev n 0 w = Some w"
| "destroy_mdevs dev n (Suc k) w = do {
     w1 \<leftarrow> destroy_mdev dev TX n w;
     w2 \<leftarrow> destroy_mdev dev RX n w1;
     destroy_mdevs dev (Suc n) k w2
   }"

definition pval_dellink :: "pval_dev \<Rightarrow> kworld \<Rightarrow> (pval_dev \<times> kworld) option" where
  "pval_dellink pdev w = do {
     link \<leftarrow> pd_link pdev;
     (rc, pdev', w1) \<leftarrow> pval_restore_tstamp_config pdev w;
     let w2 = upd_lower link (\<lambda>l. l\<lparr>lo_refs := lo_refs l - 1\<rparr>) w1;
     let w3 = w2\<lparr>kw_dev_list := removeAll (pd_dev pdev) (kw_dev_list w2)\<rparr>;
     let w4 = w3\<lparr>kw_unreg_queue := kw_unreg_queue w3 @ [pd_dev pdev]\<rparr>;
     let w5 = upd_lower link (\<lambda>l. l\<lparr>lo_uppers := removeAll (pd_dev pdev) (lo_uppers l)\<rparr>) w4;
     w6 \<leftarrow> destroy_mdevs (pd_dev pdev) 0 (pd_num_cpus pdev) w5;
     Some (pdev', w6)
   }"

section \<open>Reporting\<close>

definition NLA_ALIGN :: "nat \<Rightarrow> nat" where "NLA_ALIGN n = (n + 3) div 4 * 4"
definition NLA_HDRLEN :: nat where "NLA_HDRLEN = 4"

definition nla_total_size :: "nat \<Rightarrow> nat" where
  "nla_total_size payload = NLA_ALIGN (NLA_HDRLEN + payload)"

definition pval_get_size :: nat where
  "pval_get_size = nla_total_size 4"

text \<open>An attribute in a message: length, type, payload and padding.\<close>

definition nlattr_bytes :: "nat \<Rightarrow> bytes \<Rightarrow> bytes" where
  "nlattr_bytes ty p =
     le_bytes 2 (NLA_HDRLEN + length p) @ le_bytes 2 ty @ p
     @ replicate (nla_total_size (length p) - (NLA_HDRLEN + length p)) 0"

text \<open>\<open>nla_put\<close> into a message with \<open>room\<close> bytes in total; \<open>None\<close> for \<open>-EMSGSIZE\<close>.\<close>

definition nla_put :: "nat \<Rightarrow> nat \<Rightarrow> bytes \<Rightarrow> bytes \<Rightarrow> bytes option" where
  "nla_put room ty p msg =
     (if length msg + nla_total_size (length p) \<le> room then Some (msg @ nlattr_bytes ty p) else None)"

definition flag_byte :: "bool \<Rightarrow> bytes" where
  "flag_byte b = [if b then 1 else 0]"

definition fill_switches :: "nat \<Rightarrow> pval_dev \<Rightarrow> bytes \<Rightarrow> bytes option" where
  "fill_switches room pdev m1 = do {
     m2 \<leftarrow> nla_put room IFLA_PVAL_IPOPT (flag_byte (pd_ipopt pdev)) m1;
     m3 \<leftarrow> nla_put room IFLA_PVAL_TXTSTAMP (flag_byte (pd_txtstamp pdev)) m2;
     m4 \<leftarrow> nla_put room IFLA_PVAL_RXTSTAMP (flag_byte (pd_rxtstamp pdev)) m3;
     m5 \<leftarrow> nla_put room IFLA_PVAL_TXCOPY (flag_byte (pd_txcopy pdev)) m4;
     m6 \<leftarrow> nla_put room IFLA_PVAL_RXCOPY (flag_byte (pd_rxcopy pdev)) m5;
     nla_put room IFLA_PVAL_TXBUSYDROP (flag_byte (pd_txbusydrop pdev)) m6
   }"

text \<open>The result is \<open>None\<close> without a lower link, whose index is read through a pointer.\<close>

definition pval_fill_info :: "nat \<Rightarrow> pval_dev \<Rightarrow> bytes \<Rightarrow> (int + bytes) option" where
  "pval_fill_info room pdev msg =
     (case pd_link pdev of
        None \<Rightarrow> None
      | Some link \<Rightarrow>
          Some (case Option.bind (nla_put room IFLA_PVAL_LINK (le_bytes 4 link) msg)
                       (fill_switches room pdev) of
                  None \<Rightarrow> Inl (- EMSGSIZE)
                | Some m \<Rightarrow> Inr m))"

definition pval_get_link_net :: "(netdev_id \<Rightarrow> 'net) \<Rightarrow> pval_dev \<Rightarrow> 'net option" where
  "pval_get_link_net dev_net pdev = map_option dev_net (pd_link pdev)"

section \<open>Name spaces and the module\<close>

definition pval_init_net :: "kworld \<Rightarrow> int \<times> kworld" where
  "pval_init_net w = (0, w\<lparr>kw_dev_list := []\<rparr>)"

definition pval_exit_net :: "kworld \<Rightarrow> kworld" where
  "pval_exit_net w = w\<lparr>kw_unreg_queue := kw_unreg_queue w @ kw_dev_list w\<rparr>"

record module_state =
  ms_pernet :: bool
  ms_link_ops :: bool

definition pval_init_module :: "int \<Rightarrow> int \<Rightarrow> int \<times> module_state" where
  "pval_init_module pernet_rc link_rc =
     (if pernet_rc \<noteq> 0 then (0, \<lparr>ms_pernet = False, ms_link_ops = False\<rparr>)
      else if link_rc \<noteq> 0 then (0, \<lparr>ms_pernet = False, ms_link_ops = False\<rparr>)
      else (0, \<lparr>ms_pernet = True, ms_link_ops = True\<rparr>))"

definition pval_exit_module :: "module_state \<Rightarrow> module_state" where
  "pval_exit_module m = m\<lparr>ms_link_ops := False, ms_pernet := False\<rparr>"

end
