(* ===== verification/Link_Correct.thy ===== *)
theory Link_Correct
  imports Link
begin

text \<open>
  Correctness of the life cycle of an interface: what \<open>pval_newlink\<close> establishes, what
  \<open>pval_dellink\<close> gives back, what a failed \<open>pval_newlink\<close> keeps, going up and down, and
  the size of the netlink report.
\<close>

section \<open>The character devices of a new interface\<close>

definition mdev_ready :: "pval_mdev \<Rightarrow> bool" where
  "mdev_ready md \<longleftrightarrow> ring_inv (md_ring md) \<and> ring_list (md_ring md) = [] \<and> \<not> md_opened md"

definition both_held :: mdev_held where
  "both_held = \<lparr>held_slots = True, held_misc = True\<rparr>"

text \<open>\<open>kmalloc\<close> gives memory of the requested size, and whether both calls succeed.\<close>

definition kmalloc_size :: "kenv \<Rightarrow> bool" where
  "kmalloc_size E \<longleftrightarrow> (\<forall>d n. length (snd (ke_kmalloc E d n)) = PVAL_SLOT_NUM \<and>
     list_all slot_ok (snd (ke_kmalloc E d n)))"

definition mdev_ok :: "kenv \<Rightarrow> nat \<Rightarrow> bool" where
  "mdev_ok E n \<longleftrightarrow> (\<forall>d. fst (ke_kmalloc E d n) \<and> 0 \<le> ke_misc_rc E d n)"

text \<open>Only the character devices, and only what is held for one interface, differ.\<close>

definition same_pdev :: "pval_dev \<Rightarrow> pval_dev \<Rightarrow> bool" where
  "same_pdev a b \<longleftrightarrow> b = a\<lparr>pd_txmdevs := pd_txmdevs b, pd_rxmdevs := pd_rxmdevs b\<rparr> \<and>
     length (pd_txmdevs b) = length (pd_txmdevs a) \<and> length (pd_rxmdevs b) = length (pd_rxmdevs a)"

definition same_world :: "netdev_id \<Rightarrow> kworld \<Rightarrow> kworld \<Rightarrow> bool" where
  "same_world dev a b \<longleftrightarrow> b = a\<lparr>kw_held := kw_held b\<rparr> \<and> (\<forall>x. x \<noteq> dev \<longrightarrow> kw_held b x = kw_held a x)"

lemma same_pdev_refl [simp]: "same_pdev a a"
  by (simp add: same_pdev_def)

lemma same_pdev_trans: "same_pdev a b \<Longrightarrow> same_pdev b c \<Longrightarrow> same_pdev a c"
  by (cases a; cases b; cases c) (simp add: same_pdev_def)

lemma same_pdev_set_pmdev: "same_pdev a (set_pmdev d n md a)"
  by (cases d) (simp_all add: same_pdev_def set_pmdev_def)

lemma same_pdevD:
  assumes "same_pdev a b"
  shows "pd_dev b = pd_dev a" "pd_link b = pd_link a" "pd_num_cpus b = pd_num_cpus a"
    "pd_name b = pd_name a" "pd_original_config b = pd_original_config a"
    "length (pmdevs d b) = length (pmdevs d a)"
  using assms by (cases a; cases b; cases d; simp add: same_pdev_def)+

lemma same_world_refl [simp]: "same_world dev a a"
  by (simp add: same_world_def)

lemma same_world_trans: "same_world dev a b \<Longrightarrow> same_world dev b c \<Longrightarrow> same_world dev a c"
  by (cases a; cases b; cases c) (simp add: same_world_def)

lemma same_world_set_held: "same_world dev w (set_held dev d n h w)"
  by (simp add: same_world_def set_held_def)

lemma set_held_apply [simp]:
  "kw_held (set_held dev d n h w) dev d' m = (if d' = d \<and> m = n then h else kw_held w dev d' m)"
  by (simp add: set_held_def)

lemma pmdevs_set_pmdev:
  "m < length (pmdevs d' pdev) \<Longrightarrow> pmdevs d' (set_pmdev d n md pdev) ! m =
     (if d' = d \<and> m = n then md else pmdevs d' pdev ! m)"
  by (cases d; cases d') (auto simp: set_pmdev_def nth_list_update)

lemma init_mdev_spec:
  assumes "length (pmdevs d pdev) = PVAL_MAX_CPUS" and "n < PVAL_MAX_CPUS" and "kmalloc_size E"
  shows "\<exists>rc md h. init_mdev E d n pdev w = Some (rc, set_pmdev d n md pdev, set_held (pd_dev pdev) d n h w) \<and>
    (if fst (ke_kmalloc E d n) \<and> 0 \<le> ke_misc_rc E d n then rc = 0 \<and> mdev_ready md \<and> h = both_held
     else rc < 0)"
proof -
  obtain ok mem where k: "ke_kmalloc E d n = (ok, mem)" by fastforce
  have mem: "length mem = PVAL_SLOT_NUM" "list_all slot_ok mem"
    using assms(3) k unfolding kmalloc_size_def by (metis snd_conv)+
  have n: "\<not> length (pmdevs d pdev) \<le> n" using assms(1,2) by simp
  let ?r = "snd (pval_init_ring True mem (word_of_int (int n)))"
  have r: "pval_init_ring True mem c = (0, snd (pval_init_ring True mem c))" for c
    by (simp add: pval_init_ring_def Let_def)
  have "ring_inv ?r \<and> ring_list ?r = []"
    using mem by (simp add: pval_init_ring_def ring_inv_def ring_list_def ring_count_def PVAL_SLOT_NUM_def)
  then show ?thesis
    using n k r
    by (cases ok)
       (auto simp: init_mdev_def pval_init_miscdevice_def Let_def mdev_ready_def both_held_def
         pval_init_ring_def errno_defs)
qed

text \<open>One round of the loop.\<close>

lemma init_pair_spec:
  assumes "\<And>d. length (pmdevs d pdev) = PVAL_MAX_CPUS" and "n < PVAL_MAX_CPUS" and "kmalloc_size E"
  shows "\<exists>rc pdev' w'. do {
      (rc1, pdev1, w1) \<leftarrow> init_mdev E TX n pdev w;
      if rc1 < 0 then Some (rc1, pdev1, w1) else init_mdev E RX n pdev1 w1 } = Some (rc, pdev', w') \<and>
    same_pdev pdev pdev' \<and> same_world (pd_dev pdev) w w' \<and>
    (\<forall>d m. m < PVAL_MAX_CPUS \<longrightarrow> m \<noteq> n \<longrightarrow> pmdevs d pdev' ! m = pmdevs d pdev ! m \<and>
       kw_held w' (pd_dev pdev) d m = kw_held w (pd_dev pdev) d m) \<and>
    (if mdev_ok E n then rc = 0 \<and> (\<forall>d. mdev_ready (pmdevs d pdev' ! n) \<and> kw_held w' (pd_dev pdev) d n = both_held)
     else rc < 0)"
proof -
  obtain rc1 md1 h1 where 1: "init_mdev E TX n pdev w = Some (rc1, set_pmdev TX n md1 pdev, set_held (pd_dev pdev) TX n h1 w)"
      "if fst (ke_kmalloc E TX n) \<and> 0 \<le> ke_misc_rc E TX n then rc1 = 0 \<and> mdev_ready md1 \<and> h1 = both_held else rc1 < 0"
    using init_mdev_spec [OF assms] by blast
  let ?p1 = "set_pmdev TX n md1 pdev" and ?w1 = "set_held (pd_dev pdev) TX n h1 w"
  have p1: "pd_dev ?p1 = pd_dev pdev" "length (pmdevs d ?p1) = PVAL_MAX_CPUS" for d
    using same_pdevD(1,6) [OF same_pdev_set_pmdev [of pdev TX n md1]] assms(1) by simp_all
  obtain rc2 md2 h2 where 2: "init_mdev E RX n ?p1 ?w1 = Some (rc2, set_pmdev RX n md2 ?p1, set_held (pd_dev pdev) RX n h2 ?w1)"
      "if fst (ke_kmalloc E RX n) \<and> 0 \<le> ke_misc_rc E RX n then rc2 = 0 \<and> mdev_ready md2 \<and> h2 = both_held else rc2 < 0"
    using init_mdev_spec [OF p1(2) assms(2,3)] p1(1) by metis
  have ok: "mdev_ok E n \<longleftrightarrow> (fst (ke_kmalloc E TX n) \<and> 0 \<le> ke_misc_rc E TX n) \<and>
      (fst (ke_kmalloc E RX n) \<and> 0 \<le> ke_misc_rc E RX n)"
    unfolding mdev_ok_def by (metis dirn.exhaust)
  show ?thesis
  proof (cases "rc1 < 0")
    case True
    then have "\<not> mdev_ok E n" using 1(2) ok by (auto split: if_splits)
    with True 1(1) assms(1) show ?thesis
      by (auto simp: same_pdev_set_pmdev same_world_set_held pmdevs_set_pmdev)
  next
    case False
    have sp: "same_pdev pdev (set_pmdev RX n md2 ?p1)"
      by (rule same_pdev_trans [OF same_pdev_set_pmdev same_pdev_set_pmdev])
    have sw: "same_world (pd_dev pdev) w (set_held (pd_dev pdev) RX n h2 ?w1)"
      by (rule same_world_trans [OF same_world_set_held same_world_set_held])
    have frame: "\<forall>d m. m < PVAL_MAX_CPUS \<longrightarrow> m \<noteq> n \<longrightarrow>
        pmdevs d (set_pmdev RX n md2 ?p1) ! m = pmdevs d pdev ! m"
      using assms(1) p1(2) by (simp add: pmdevs_set_pmdev)
    have new: "pmdevs d (set_pmdev RX n md2 ?p1) ! n = (if d = RX then md2 else md1)" for d
      using assms(1,2) p1(2) by (simp add: pmdevs_set_pmdev) (cases d; simp)
    have "rc1 = 0" "mdev_ready md1" "h1 = both_held" using False 1(2) by (auto split: if_splits)
    then show ?thesis
      using 1 2 sp sw frame new ok False
      by (intro exI [of _ rc2] exI [of _ "set_pmdev RX n md2 ?p1"]
            exI [of _ "set_held (pd_dev pdev) RX n h2 ?w1"])
         (auto intro: dirn.exhaust)
  qed
qed

lemma init_mdevs_Suc:
  "init_mdevs E n (Suc k) pdev w = do {
     (rc, pdev', w') \<leftarrow> do {
        (rc1, pdev1, w1) \<leftarrow> init_mdev E TX n pdev w;
        if rc1 < 0 then Some (rc1, pdev1, w1) else init_mdev E RX n pdev1 w1 };
     if rc < 0 then Some (rc, pdev', w') else init_mdevs E (Suc n) k pdev' w' }"
  by (auto split: Option.bind_splits)

definition mdevs_ready :: "pval_dev \<Rightarrow> kworld \<Rightarrow> nat \<Rightarrow> bool" where
  "mdevs_ready pdev w m \<longleftrightarrow> (\<forall>d. mdev_ready (pmdevs d pdev ! m) \<and> kw_held w (pd_dev pdev) d m = both_held)"

lemma init_mdevs_spec:
  assumes "kmalloc_size E"
  shows "(\<And>d. length (pmdevs d pdev) = PVAL_MAX_CPUS) \<Longrightarrow> n + k \<le> PVAL_MAX_CPUS \<Longrightarrow>
    \<exists>rc pdev' w'. init_mdevs E n k pdev w = Some (rc, pdev', w') \<and>
      same_pdev pdev pdev' \<and> same_world (pd_dev pdev) w w' \<and> rc \<le> 0 \<and>
      (rc = 0 \<longleftrightarrow> (\<forall>j. n \<le> j \<and> j < n + k \<longrightarrow> mdev_ok E j)) \<and>
      (\<forall>m < n. mdevs_ready pdev w m \<longrightarrow> mdevs_ready pdev' w' m) \<and>
      (\<forall>m. n \<le> m \<and> m < n + k \<and> (\<forall>j. n \<le> j \<and> j \<le> m \<longrightarrow> mdev_ok E j) \<longrightarrow> mdevs_ready pdev' w' m)"
proof (induction k arbitrary: n pdev w)
  case (Suc k)
  have n: "n < PVAL_MAX_CPUS" using Suc.prems(2) by simp
  obtain rc1 p1 w1 where 1: "do { (rc1, pdev1, w1) \<leftarrow> init_mdev E TX n pdev w;
        if rc1 < 0 then Some (rc1, pdev1, w1) else init_mdev E RX n pdev1 w1 } = Some (rc1, p1, w1)"
      "same_pdev pdev p1" "same_world (pd_dev pdev) w w1"
      and frame: "\<forall>d m. m < PVAL_MAX_CPUS \<longrightarrow> m \<noteq> n \<longrightarrow> pmdevs d p1 ! m = pmdevs d pdev ! m \<and>
        kw_held w1 (pd_dev pdev) d m = kw_held w (pd_dev pdev) d m"
      and new: "if mdev_ok E n then rc1 = 0 \<and> (\<forall>d. mdev_ready (pmdevs d p1 ! n) \<and>
        kw_held w1 (pd_dev pdev) d n = both_held) else rc1 < 0"
    using init_pair_spec [OF Suc.prems(1) n assms] by blast
  have dev: "pd_dev p1 = pd_dev pdev" using same_pdevD(1) [OF 1(2)] .
  have keep: "m < n \<Longrightarrow> mdevs_ready pdev w m \<Longrightarrow> mdevs_ready p1 w1 m" for m
    using frame n by (simp add: mdevs_ready_def dev)
  show ?case
  proof (cases "rc1 < 0")
    case True
    then have bad: "\<not> mdev_ok E n" using new by auto
    then have "\<not> (\<forall>j. n \<le> j \<and> j < n + Suc k \<longrightarrow> mdev_ok E j)" by auto
    with True 1 bad keep show ?thesis unfolding init_mdevs_Suc by auto
  next
    case False
    with new have ok: "mdev_ok E n" "mdevs_ready p1 w1 n" by (auto simp: mdevs_ready_def dev split: if_splits)
    have len: "length (pmdevs d p1) = PVAL_MAX_CPUS" for d using same_pdevD(6) [OF 1(2)] Suc.prems(1) by simp
    obtain rc p2 w2 where 2: "init_mdevs E (Suc n) k p1 w1 = Some (rc, p2, w2)" "same_pdev p1 p2"
        "same_world (pd_dev pdev) w1 w2" "rc \<le> 0" "rc = 0 \<longleftrightarrow> (\<forall>j. Suc n \<le> j \<and> j < Suc n + k \<longrightarrow> mdev_ok E j)"
        and old: "\<forall>m < Suc n. mdevs_ready p1 w1 m \<longrightarrow> mdevs_ready p2 w2 m"
        and later: "\<forall>m. Suc n \<le> m \<and> m < Suc n + k \<and> (\<forall>j. Suc n \<le> j \<and> j \<le> m \<longrightarrow> mdev_ok E j) \<longrightarrow> mdevs_ready p2 w2 m"
      using Suc.IH [OF len, of "Suc n" w1] Suc.prems(2) dev by auto
    have rc: "rc = 0 \<longleftrightarrow> (\<forall>j. n \<le> j \<and> j < n + Suc k \<longrightarrow> mdev_ok E j)"
      using 2(5) ok(1) by (metis Suc_leD Suc_leI add_Suc add_Suc_right le_neq_implies_less)
    have "mdevs_ready p2 w2 m" if "n \<le> m" "m < n + Suc k" "\<forall>j. n \<le> j \<and> j \<le> m \<longrightarrow> mdev_ok E j" for m
      using old later ok(2) that by (cases "m = n") auto
    then show ?thesis
      unfolding init_mdevs_Suc using 1 False 2 rc old keep
      by (auto intro: same_pdev_trans same_world_trans)
  qed
qed auto

section \<open>Drivers\<close>

text \<open>
  A driver with hardware time stamping, as the kernel documents it; \<open>supp\<close> are the
  configurations it can be in. A query reports the current one; a supported one is set as
  it is; any other is adjusted to a supported one, which is reported back, or refused.
\<close>

definition driver_ok :: "(hwtstamp_config \<Rightarrow> bool) \<Rightarrow> ndo_do_ioctl \<Rightarrow> bool" where
  "driver_ok supp ndo \<longleftrightarrow> (\<forall>cur. supp cur \<longrightarrow>
     (\<forall>a. ndo cur SIOCGHWTSTAMP a = (0, cur, cur)) \<and>
     (\<forall>c. supp c \<longrightarrow> ndo cur SIOCSHWTSTAMP c = (0, c, c)) \<and>
     (\<forall>c. case ndo cur SIOCSHWTSTAMP c of
            (rc, cur', c') \<Rightarrow> (rc = 0 \<and> cur' = c' \<and> supp c') \<or> (rc \<noteq> 0 \<and> cur' = cur \<and> c' = c)))"

lemma driver_okD:
  assumes "driver_ok supp ndo" and "supp cur"
  shows "ndo cur SIOCGHWTSTAMP a = (0, cur, cur)"
    and "supp c \<Longrightarrow> ndo cur SIOCSHWTSTAMP c = (0, c, c)"
    and "case ndo cur SIOCSHWTSTAMP c of
           (rc, cur', c') \<Rightarrow> (rc = 0 \<and> cur' = c' \<and> supp c') \<or> (rc \<noteq> 0 \<and> cur' = cur \<and> c' = c)"
proof -
  note d = assms(1) [unfolded driver_ok_def, THEN spec, THEN mp, OF assms(2)]
  show "ndo cur SIOCGHWTSTAMP a = (0, cur, cur)" by (rule d [THEN conjunct1, THEN spec])
  show "supp c \<Longrightarrow> ndo cur SIOCSHWTSTAMP c = (0, c, c)"
    by (rule d [THEN conjunct2, THEN conjunct1, THEN spec, THEN mp])
  show "case ndo cur SIOCSHWTSTAMP c of
      (rc, cur', c') \<Rightarrow> (rc = 0 \<and> cur' = c' \<and> supp c') \<or> (rc \<noteq> 0 \<and> cur' = cur \<and> c' = c)"
    by (rule d [THEN conjunct2, THEN conjunct2, THEN spec])
qed

definition lower_ok :: "(hwtstamp_config \<Rightarrow> bool) \<Rightarrow> lower_dev \<Rightarrow> bool" where
  "lower_ok supp lo \<longleftrightarrow> supp (lo_hwtstamp lo) \<and> (\<forall>ndo. lo_ioctl lo = Some ndo \<longrightarrow> driver_ok supp ndo)"

text \<open>
  The configuration of some links cannot change at all: they have no \<open>ndo_do_ioctl\<close>, or one
  that refuses both commands, as that of a driver without hardware time stamping.
\<close>

definition driver_refuses :: "ndo_do_ioctl \<Rightarrow> bool" where
  "driver_refuses ndo \<longleftrightarrow> (\<forall>cur cmd a. fst (ndo cur cmd a) \<noteq> 0 \<and> fst (snd (ndo cur cmd a)) = cur)"

definition tstamp_fixed :: "lower_dev \<Rightarrow> bool" where
  "tstamp_fixed lo \<longleftrightarrow> (\<forall>ndo. lo_ioctl lo = Some ndo \<longrightarrow> driver_refuses ndo)"

lemma upd_lower_apply [simp]:
  "kw_lower (upd_lower i f w) j = (if j = i then map_option f (kw_lower w i) else kw_lower w j)"
  "kw_held (upd_lower i f w) = kw_held w" "kw_dev_list (upd_lower i f w) = kw_dev_list w"
  "kw_registered (upd_lower i f w) = kw_registered w" "kw_unreg_queue (upd_lower i f w) = kw_unreg_queue w"
  "kw_kernel_ds (upd_lower i f w) = kw_kernel_ds w"
  by (simp_all add: upd_lower_def)

lemma upd_lower_same: "kw_lower w i = Some lo \<Longrightarrow> f lo = lo \<Longrightarrow> upd_lower i f w = w"
  by (simp add: upd_lower_def fun_upd_idem)

lemma netdev_ioctl_none:
  assumes "kw_lower w i = Some lo" and "lo_ioctl lo = None"
  shows "netdev_ioctl i cmd arg w
    = Some (- ENOTSUPP, arg, upd_lower i (\<lambda>l. l\<lparr>lo_hwtstamp := lo_hwtstamp lo\<rparr>) w)"
  using assms upd_lower_same [OF assms(1), of "\<lambda>l. l\<lparr>lo_hwtstamp := lo_hwtstamp lo\<rparr>"]
  by (simp add: netdev_ioctl_def)

text \<open>Every call leaves the address limit as it was and changes only the configuration.\<close>

lemma netdev_ioctl_total:
  assumes "kw_lower w i = Some lo"
  shows "\<exists>rc arg' cur. netdev_ioctl i cmd arg w
    = Some (rc, arg', upd_lower i (\<lambda>l. l\<lparr>lo_hwtstamp := cur\<rparr>) w) \<and>
      (tstamp_fixed lo \<longrightarrow> rc \<noteq> 0 \<and> cur = lo_hwtstamp lo) \<and>
      (\<forall>ndo. lo_ioctl lo = Some ndo \<longrightarrow> ndo (lo_hwtstamp lo) cmd arg = (rc, cur, arg'))"
proof (cases "lo_ioctl lo")
  case None
  then show ?thesis
    using netdev_ioctl_none [OF assms] by (intro exI [of _ "- ENOTSUPP"] exI [of _ arg] exI [of _ "lo_hwtstamp lo"])
      (simp add: errno_defs)
next
  case (Some ndo)
  obtain rc cur c' where n: "ndo (lo_hwtstamp lo) cmd arg = (rc, cur, c')" using prod_cases3 by blast
  have "tstamp_fixed lo \<longrightarrow> rc \<noteq> 0 \<and> cur = lo_hwtstamp lo"
    using Some n unfolding tstamp_fixed_def driver_refuses_def by (metis fst_conv snd_conv)
  with assms Some n show ?thesis by (auto simp: netdev_ioctl_def upd_lower_def Let_def)
qed

lemma netdev_ioctl_set:
  assumes "kw_lower w i = Some lo"
  shows "\<exists>rc arg' cur. netdev_ioctl i SIOCSHWTSTAMP arg w
    = Some (rc, arg', upd_lower i (\<lambda>l. l\<lparr>lo_hwtstamp := cur\<rparr>) w) \<and>
      (tstamp_fixed lo \<longrightarrow> cur = lo_hwtstamp lo) \<and>
      (lower_ok supp lo \<and> lo_ioctl lo \<noteq> None \<longrightarrow> supp cur \<and> (supp arg \<longrightarrow> arg' = arg \<and> cur = arg))"
proof -
  from netdev_ioctl_total [OF assms, of SIOCSHWTSTAMP arg] obtain rc arg' cur where n:
    "netdev_ioctl i SIOCSHWTSTAMP arg w = Some (rc, arg', upd_lower i (\<lambda>l. l\<lparr>lo_hwtstamp := cur\<rparr>) w)"
    "tstamp_fixed lo \<longrightarrow> cur = lo_hwtstamp lo"
    "\<And>ndo. lo_ioctl lo = Some ndo \<Longrightarrow> ndo (lo_hwtstamp lo) SIOCSHWTSTAMP arg = (rc, cur, arg')" by blast
  have "supp cur \<and> (supp arg \<longrightarrow> arg' = arg \<and> cur = arg)" if ok: "lower_ok supp lo" "lo_ioctl lo = Some ndo" for ndo
  proof -
    have d: "driver_ok supp ndo" "supp (lo_hwtstamp lo)" using ok by (auto simp: lower_ok_def)
    show ?thesis using driver_okD(2,3) [OF d, of arg] n(3) [OF ok(2)] d(2) by auto
  qed
  with n(1,2) show ?thesis by blast
qed

section \<open>Creation\<close>

text \<open>The attributes that have passed the policy: long enough for the type they have.\<close>

definition policy_ok :: "attrs option \<Rightarrow> bool" where
  "policy_ok data \<longleftrightarrow> (\<forall>a p. attr data a = Some p \<longrightarrow>
     (case pval_policy a of Some NLA_U8 \<Rightarrow> 1 \<le> length p | Some NLA_U32 \<Rightarrow> 4 \<le> length p | None \<Rightarrow> True))"

definition switch_of :: "attrs option \<Rightarrow> nat \<Rightarrow> bool \<Rightarrow> bool" where
  "switch_of data a old = (case attr data a of None \<Rightarrow> old | Some p \<Rightarrow> hd p \<noteq> 0)"

definition configured :: "attrs option \<Rightarrow> pval_dev \<Rightarrow> pval_dev" where
  "configured data pdev = pdev\<lparr>pd_ipopt := switch_of data IFLA_PVAL_IPOPT (pd_ipopt pdev),
     pd_txtstamp := switch_of data IFLA_PVAL_TXTSTAMP (pd_txtstamp pdev),
     pd_rxtstamp := switch_of data IFLA_PVAL_RXTSTAMP (pd_rxtstamp pdev),
     pd_txcopy := switch_of data IFLA_PVAL_TXCOPY (pd_txcopy pdev),
     pd_rxcopy := switch_of data IFLA_PVAL_RXCOPY (pd_rxcopy pdev),
     pd_txbusydrop := switch_of data IFLA_PVAL_TXBUSYDROP (pd_txbusydrop pdev)\<rparr>"

lemma nl_switch_ok:
  assumes "policy_ok data" and "pval_policy a = Some NLA_U8"
  shows "nl_switch data a old = Some (switch_of data a old)"
proof (cases "attr data a")
  case (Some p)
  have "1 \<le> length p"
    using assms(1) [unfolded policy_ok_def, THEN spec, THEN spec, THEN mp, OF Some] assms(2) by simp
  then obtain b p' where "p = b # p'" by (cases p) auto
  then show ?thesis by (simp add: nl_switch_def switch_of_def Some nla_get_u8_def nth_opt_def)
qed (simp add: nl_switch_def switch_of_def)

lemma nl_config_ok: "policy_ok data \<Longrightarrow> pval_nl_config data pdev = Some (configured data pdev)"
  by (simp add: pval_nl_config_def configured_def nl_switch_ok pval_policy_def ifla_pval_defs)

text \<open>A request for an interface on the lower link \<open>i\<close>, with memory for the sixteen devices.\<close>

definition link_request :: "kenv \<Rightarrow> attrs option \<Rightarrow> netdev_id \<Rightarrow> lower_dev \<Rightarrow> pval_dev \<Rightarrow> kworld \<Rightarrow> bool" where
  "link_request E data i lo pdev w \<longleftrightarrow> kmalloc_size E \<and> policy_ok data \<and>
     Option.bind (attr data IFLA_PVAL_LINK) nla_get_u32 = Some i \<and> kw_lower w i = Some lo \<and>
     (\<forall>d. length (pmdevs d pdev) = PVAL_MAX_CPUS)"

definition fresh_pdev :: "net_device \<Rightarrow> netdev_id \<Rightarrow> pval_dev \<Rightarrow> pval_dev" where
  "fresh_pdev dev i pdev = pdev\<lparr>pd_dev := nd_ifindex dev, pd_name := nd_name dev, pd_ipopt := False,
     pd_txtstamp := False, pd_rxtstamp := False, pd_txcopy := False, pd_rxcopy := False,
     pd_txbusydrop := True, pd_original_config := zero_hwtstamp, pd_link := Some i\<rparr>"

definition num_cpus_of :: "kenv \<Rightarrow> nat" where
  "num_cpus_of E = min PVAL_MAX_CPUS (ke_num_possible_cpus E)"

text \<open>The world and the device when the character devices are about to be made.\<close>

definition linked_world :: "net_device \<Rightarrow> netdev_id \<Rightarrow> kworld \<Rightarrow> kworld" where
  "linked_world dev i w = upd_lower i (\<lambda>l. l\<lparr>lo_uppers := lo_uppers l @ [nd_ifindex dev]\<rparr>)
     ((upd_lower i (\<lambda>l. l\<lparr>lo_refs := lo_refs l + 1\<rparr>) w)
       \<lparr>kw_registered := kw_registered w @ [nd_ifindex dev]\<rparr>)"

definition linked_pdev :: "kenv \<Rightarrow> net_device \<Rightarrow> netdev_id \<Rightarrow> attrs option \<Rightarrow> pval_dev \<Rightarrow> pval_dev" where
  "linked_pdev E dev i data pdev = (configured data (fresh_pdev dev i pdev))\<lparr>pd_num_cpus := num_cpus_of E\<rparr>"

lemma configured_frame [simp]:
  "pd_dev (configured data p) = pd_dev p" "pd_link (configured data p) = pd_link p"
  "pd_txmdevs (configured data p) = pd_txmdevs p" "pd_rxmdevs (configured data p) = pd_rxmdevs p"
  "pd_original_config (configured data p) = pd_original_config p"
  "pd_num_cpus (configured data p) = pd_num_cpus p"
  by (simp_all add: configured_def)

lemma linked_pdev_frame [simp]:
  "pd_dev (linked_pdev E dev i data p) = nd_ifindex dev" "pd_link (linked_pdev E dev i data p) = Some i"
  "pmdevs d (linked_pdev E dev i data p) = pmdevs d p"
  "pd_num_cpus (linked_pdev E dev i data p) = num_cpus_of E"
  by (cases d; simp add: linked_pdev_def fresh_pdev_def)+

lemma newlink_cases:
  fixes dev :: net_device
  assumes "link_request E data i lo pdev w"
  defines "dev' \<equiv> dev\<lparr>nd_needed_headroom := 12 + lo_needed_headroom lo\<rparr>"
    and "w1 \<equiv> upd_lower i (\<lambda>l. l\<lparr>lo_refs := lo_refs l + 1\<rparr>) w"
  shows "pval_newlink E stack dev data pdev w =
    (if ke_register_rc E \<noteq> 0 then Some (ke_register_rc E, dev', configured data (fresh_pdev dev i pdev), w1)
     else if ke_upper_rc E \<noteq> 0 then Some (ke_upper_rc E, dev', configured data (fresh_pdev dev i pdev),
        unregister_netdevice (nd_ifindex dev) (w1\<lparr>kw_registered := kw_registered w @ [nd_ifindex dev]\<rparr>))
     else do {
       (err, pdev3, w4) \<leftarrow> init_mdevs E 0 (num_cpus_of E) (linked_pdev E dev i data pdev) (linked_world dev i w);
       if err < 0 then Some (err, dev', pdev3, unregister_netdevice (nd_ifindex dev) w4)
       else do {
         (rc, pdev4, w5) \<leftarrow> pval_save_tstamp_config stack pdev3 w4;
         Some (0, dev', pdev4, w5\<lparr>kw_dev_list := kw_dev_list w5 @ [nd_ifindex dev]\<rparr>)
       }
     })"
proof -
  obtain p where p: "attr data IFLA_PVAL_LINK = Some p" "nla_get_u32 p = Some i"
    using assms(1) unfolding link_request_def by (auto simp: bind_eq_Some_conv)
  have lo: "kw_lower w i = Some lo" "policy_ok data" using assms(1) by (simp_all add: link_request_def)
  have cpus: "(if PVAL_MAX_CPUS > ke_num_possible_cpus E then ke_num_possible_cpus E else PVAL_MAX_CPUS)
      = num_cpus_of E" by (simp add: num_cpus_of_def)
  note defs = dev'_def w1_def fresh_pdev_def linked_pdev_def linked_world_def
  show ?thesis
    unfolding pval_newlink_def Let_def cpus defs
    using p lo by (simp add: nl_config_ok sizeof_ipopt_pval_def cong: if_cong)
qed

lemma save_tstamp_total:
  assumes "pd_link pdev = Some i" and "kw_lower w i = Some lo"
  shows "\<exists>rc c cur. pval_save_tstamp_config stack pdev w
    = Some (rc, pdev\<lparr>pd_original_config := c\<rparr>, upd_lower i (\<lambda>l. l\<lparr>lo_hwtstamp := cur\<rparr>) w) \<and>
      (tstamp_fixed lo \<longrightarrow> cur = lo_hwtstamp lo) \<and>
      (lower_ok supp lo \<and> lo_ioctl lo \<noteq> None \<longrightarrow> cur = lo_hwtstamp lo \<and> c = lo_hwtstamp lo)"
proof -
  from netdev_ioctl_total [OF assms(2), of SIOCGHWTSTAMP stack] obtain rc c cur where
    n: "netdev_ioctl i SIOCGHWTSTAMP stack w = Some (rc, c, upd_lower i (\<lambda>l. l\<lparr>lo_hwtstamp := cur\<rparr>) w)"
      "tstamp_fixed lo \<longrightarrow> cur = lo_hwtstamp lo"
      "\<And>ndo. lo_ioctl lo = Some ndo \<Longrightarrow> ndo (lo_hwtstamp lo) SIOCGHWTSTAMP stack = (rc, cur, c)" by blast
  have g: "rc = 0 \<and> cur = lo_hwtstamp lo \<and> c = lo_hwtstamp lo" if ok: "lower_ok supp lo" "lo_ioctl lo = Some ndo" for ndo
    using driver_okD(1) [of supp ndo "lo_hwtstamp lo" stack] n(3) [OF ok(2)] ok by (auto simp: lower_ok_def)
  show ?thesis
  proof (cases "rc = 0")
    case True
    with n(1,2) assms(1) g show ?thesis by (auto simp: pval_save_tstamp_config_def)
  next
    case False
    with n(1,2) assms(1) g show ?thesis
      by (intro exI [of _ rc] exI [of _ "pd_original_config pdev"] exI [of _ cur])
        (auto simp: pval_save_tstamp_config_def)
  qed
qed

lemma linked_world_lower:
  "kw_lower w i = Some lo \<Longrightarrow> kw_lower (linked_world dev i w) i
     = Some (lo\<lparr>lo_refs := lo_refs lo + 1, lo_uppers := lo_uppers lo @ [nd_ifindex dev]\<rparr>)"
  by (simp add: linked_world_def)

lemma same_worldD:
  assumes "same_world dev a b"
  shows "kw_lower b = kw_lower a" "kw_dev_list b = kw_dev_list a" "kw_registered b = kw_registered a"
    "kw_unreg_queue b = kw_unreg_queue a"
  using assms by (cases a; cases b; simp add: same_world_def)+

lemma pdev_inv_ready:
  assumes "\<And>d. length (pmdevs d pdev) = PVAL_MAX_CPUS" and "pd_num_cpus pdev \<le> PVAL_MAX_CPUS"
    and "\<forall>m < pd_num_cpus pdev. mdevs_ready pdev w m"
  shows "pdev_inv pdev"
proof -
  have "ring_inv (md_ring (pmdevs d pdev ! m))" if "m < pd_num_cpus pdev" for d m
    using assms(3) that by (simp add: mdevs_ready_def mdev_ready_def)
  from this [of _ TX] this [of _ RX] assms(1) [of TX] assms(1) [of RX] assms(2) show ?thesis
    by (simp add: pdev_inv_def)
qed

text \<open>The end of a creation without errors, and the device and the world it leaves.\<close>

lemma newlink_ok:
  assumes "link_request E data i lo pdev w" and "ke_register_rc E = 0" and "ke_upper_rc E = 0"
    and "\<forall>j < num_cpus_of E. mdev_ok E j"
  shows "\<exists>pdev3 w4 rc pdev4 w5. same_pdev (linked_pdev E dev i data pdev) pdev3 \<and>
    same_world (nd_ifindex dev) (linked_world dev i w) w4 \<and>
    (\<forall>m < num_cpus_of E. mdevs_ready pdev3 w4 m) \<and>
    pval_save_tstamp_config stack pdev3 w4 = Some (rc, pdev4, w5) \<and>
    pval_newlink E stack dev data pdev w = Some (0, dev\<lparr>nd_needed_headroom := 12 + lo_needed_headroom lo\<rparr>,
      pdev4, w5\<lparr>kw_dev_list := kw_dev_list w5 @ [nd_ifindex dev]\<rparr>)"
proof -
  let ?p = "linked_pdev E dev i data pdev" and ?w = "linked_world dev i w"
  have k: "kmalloc_size E" "length (pmdevs d ?p) = PVAL_MAX_CPUS" "kw_lower w i = Some lo" for d
    using assms(1) by (simp_all add: link_request_def)
  have n: "0 + num_cpus_of E \<le> PVAL_MAX_CPUS" by (simp add: num_cpus_of_def)
  obtain pdev3 w4 where 3: "init_mdevs E 0 (num_cpus_of E) ?p ?w = Some (0, pdev3, w4)"
      "same_pdev ?p pdev3" "same_world (nd_ifindex dev) ?w w4" "\<forall>m < num_cpus_of E. mdevs_ready pdev3 w4 m"
    using init_mdevs_spec [OF k(1,2) n, of ?w] assms(4) by fastforce
  have "pd_link pdev3 = Some i" using same_pdevD(2) [OF 3(2)] by simp
  moreover have "\<exists>l. kw_lower w4 i = Some l"
    using same_worldD(1) [OF 3(3)] linked_world_lower [OF k(3)] by simp
  ultimately obtain rc c cur where 4: "pval_save_tstamp_config stack pdev3 w4
      = Some (rc, pdev3\<lparr>pd_original_config := c\<rparr>, upd_lower i (\<lambda>l. l\<lparr>lo_hwtstamp := cur\<rparr>) w4)"
    using save_tstamp_total by blast
  with 3 assms(2,3) show ?thesis
    unfolding newlink_cases [OF assms(1)] by (intro exI conjI) auto
qed

text \<open>
  C23. What a successful creation establishes. If the lower link exists and no call into the
  kernel fails, \<open>pval_newlink\<close> returns success; the device then satisfies the invariant the
  data path relies on, is attached to the lower link with the switches of the request
  (all off but \<open>txbusydrop\<close> where the request says nothing), has one closed transmit and
  one closed receive device with an empty ring for each of at most sixteen CPUs, and asks
  for the headroom of the option on top of that of the lower link.
\<close>

theorem newlink_establishes:
  assumes "link_request E data i lo pdev w" and "ke_register_rc E = 0" and "ke_upper_rc E = 0"
    and "\<forall>j < num_cpus_of E. mdev_ok E j"
  shows "\<exists>dev' pdev' w'. pval_newlink E stack dev data pdev w = Some (0, dev', pdev', w') \<and>
    pdev_inv pdev' \<and> pd_link pdev' = Some i \<and> pd_num_cpus pdev' = min 16 (ke_num_possible_cpus E) \<and>
    (\<forall>m < pd_num_cpus pdev'. mdevs_ready pdev' w' m) \<and>
    pd_ipopt pdev' = switch_of data IFLA_PVAL_IPOPT False \<and>
    pd_txtstamp pdev' = switch_of data IFLA_PVAL_TXTSTAMP False \<and>
    pd_rxtstamp pdev' = switch_of data IFLA_PVAL_RXTSTAMP False \<and>
    pd_txcopy pdev' = switch_of data IFLA_PVAL_TXCOPY False \<and>
    pd_rxcopy pdev' = switch_of data IFLA_PVAL_RXCOPY False \<and>
    pd_txbusydrop pdev' = switch_of data IFLA_PVAL_TXBUSYDROP True \<and>
    nd_needed_headroom dev' = 12 + lo_needed_headroom lo \<and>
    nd_ifindex dev \<in> set (kw_registered w') \<and> nd_ifindex dev \<in> set (kw_dev_list w')"
proof -
  obtain pdev3 w4 rc pdev4 w5 where n: "same_pdev (linked_pdev E dev i data pdev) pdev3"
      "same_world (nd_ifindex dev) (linked_world dev i w) w4" "\<forall>m < num_cpus_of E. mdevs_ready pdev3 w4 m"
      "pval_save_tstamp_config stack pdev3 w4 = Some (rc, pdev4, w5)"
      and nl: "pval_newlink E stack dev data pdev w = Some (0, dev\<lparr>nd_needed_headroom := 12 + lo_needed_headroom lo\<rparr>,
        pdev4, w5\<lparr>kw_dev_list := kw_dev_list w5 @ [nd_ifindex dev]\<rparr>)"
    using newlink_ok [OF assms] by blast
  have "pd_link pdev3 = Some i" using same_pdevD(2) [OF n(1)] by simp
  moreover obtain l where "kw_lower w4 i = Some l"
    using same_worldD(1) [OF n(2)] linked_world_lower assms(1) by (auto simp: link_request_def)
  ultimately obtain c cur where s: "pdev4 = pdev3\<lparr>pd_original_config := c\<rparr>"
      "w5 = upd_lower i (\<lambda>l. l\<lparr>lo_hwtstamp := cur\<rparr>) w4"
    using save_tstamp_total [of pdev3 i w4 l stack "\<lambda>_. True"] n(4) by fastforce
  have p3: "pdev3 = (linked_pdev E dev i data pdev)\<lparr>pd_txmdevs := pd_txmdevs pdev3, pd_rxmdevs := pd_rxmdevs pdev3\<rparr>"
    using n(1) unfolding same_pdev_def by blast
  have pm: "pmdevs d pdev4 = pmdevs d pdev3" "pd_dev pdev4 = pd_dev pdev3" for d
    by (cases d; simp add: s)+
  have cpus: "pd_num_cpus pdev4 = num_cpus_of E" using same_pdevD(3) [OF n(1)] by (simp add: s)
  have ready: "\<forall>m < num_cpus_of E. mdevs_ready pdev4 (w5\<lparr>kw_dev_list := L\<rparr>) m" for L
    using n(3) by (simp add: mdevs_ready_def s(2) pm)
  have "length (pmdevs d pdev4) = PVAL_MAX_CPUS" for d
    using same_pdevD(6) [OF n(1)] assms(1) by (simp add: pm link_request_def)
  then have "pdev_inv pdev4"
    using ready cpus by (intro pdev_inv_ready) (simp_all add: num_cpus_of_def)
  moreover have "pd_ipopt pdev4 = switch_of data IFLA_PVAL_IPOPT False"
    "pd_txtstamp pdev4 = switch_of data IFLA_PVAL_TXTSTAMP False"
    "pd_rxtstamp pdev4 = switch_of data IFLA_PVAL_RXTSTAMP False"
    "pd_txcopy pdev4 = switch_of data IFLA_PVAL_TXCOPY False"
    "pd_rxcopy pdev4 = switch_of data IFLA_PVAL_RXCOPY False"
    "pd_txbusydrop pdev4 = switch_of data IFLA_PVAL_TXBUSYDROP True" "pd_link pdev4 = Some i"
    by (subst s(1), subst p3, simp add: linked_pdev_def configured_def fresh_pdev_def)+
  moreover have "nd_ifindex dev \<in> set (kw_registered w5)"
    using same_worldD(3) [OF n(2)] by (simp add: s(2) linked_world_def)
  ultimately show ?thesis
    using nl ready cpus by (simp add: num_cpus_of_def PVAL_MAX_CPUS_def)
qed


definition example_lower :: lower_dev where
  "example_lower = \<lparr>lo_ioctl = None, lo_hwtstamp = zero_hwtstamp, lo_rx_handler = None,
     lo_promiscuity = 0, lo_refs = 1, lo_uppers = [], lo_needed_headroom = 0\<rparr>"

definition example_world :: kworld where
  "example_world = \<lparr>kw_lower = [3 \<mapsto> example_lower], kw_registered = [], kw_unreg_queue = [],
     kw_held = (\<lambda>_ _ _. \<lparr>held_slots = False, held_misc = False\<rparr>), kw_dev_list = [], kw_kernel_ds = False\<rparr>"

definition example_kenv :: kenv where
  "example_kenv = \<lparr>ke_register_rc = 0, ke_upper_rc = 0, ke_num_possible_cpus = 4,
     ke_kmalloc = (\<lambda>_ _. (True, replicate 1024 zero_slot)), ke_misc_rc = (\<lambda>_ _. 0), ke_promisc_rc = 0\<rparr>"

definition example_attrs :: attrs where
  "example_attrs = [IFLA_PVAL_LINK \<mapsto> [3, 0, 0, 0], IFLA_PVAL_IPOPT \<mapsto> [1]]"

definition example_dev :: net_device where
  "example_dev = \<lparr>nd_ifindex = 7, nd_name = ''pval0'', nd_needs_free_netdev = True, nd_pval_ops = True,
     nd_lltx = True, nd_no_queue = True, nd_tx_skb_sharing = False, nd_min_mtu = 68, nd_max_mtu = 65535,
     nd_needed_headroom = 0, nd_tstats = True\<rparr>"

lemma example_request: "link_request example_kenv (Some example_attrs) 3 example_lower example_pdev example_world"
proof -
  have "kmalloc_size example_kenv"
    by (simp add: kmalloc_size_def example_kenv_def PVAL_SLOT_NUM_def list_all_iff slot_ok_def zero_slot_def
        PVAL_PKT_LEN_def)
  moreover have "policy_ok (Some example_attrs)"
    by (simp add: policy_ok_def attr_def example_attrs_def pval_policy_def ifla_pval_defs)
  moreover have "length (pmdevs d example_pdev) = PVAL_MAX_CPUS" for d
    by (rule pmdevs_length [OF example_pdev_inv])
  ultimately show ?thesis
    by (simp add: link_request_def attr_def example_attrs_def ifla_pval_defs nla_get_u32_def mem_read_def
        example_world_def)
qed

lemma example_kenv_ok:
  "ke_register_rc example_kenv = 0" "ke_upper_rc example_kenv = 0" "\<forall>j < num_cpus_of example_kenv. mdev_ok example_kenv j"
  by (simp_all add: example_kenv_def mdev_ok_def)

theorem newlink_establishes_witness:
  "\<exists>dev' pdev' w'. pval_newlink example_kenv zero_hwtstamp example_dev (Some example_attrs) example_pdev example_world
      = Some (0, dev', pdev', w') \<and> pdev_inv pdev' \<and> pd_link pdev' = Some 3 \<and> pd_num_cpus pdev' = 4 \<and>
     pd_ipopt pdev' \<and> \<not> pd_txcopy pdev' \<and> pd_txbusydrop pdev' \<and> nd_needed_headroom dev' = 12"
proof -
  have "switch_of (Some example_attrs) IFLA_PVAL_IPOPT False"
    "\<not> switch_of (Some example_attrs) IFLA_PVAL_TXCOPY False"
    "switch_of (Some example_attrs) IFLA_PVAL_TXBUSYDROP True"
    by (simp_all add: switch_of_def attr_def example_attrs_def ifla_pval_defs)
  moreover have "ke_num_possible_cpus example_kenv = 4" by (simp add: example_kenv_def)
  moreover have "lo_needed_headroom example_lower = 0" by (simp add: example_lower_def)
  ultimately show ?thesis
    using newlink_establishes [OF example_request example_kenv_ok, of zero_hwtstamp example_dev] by auto
qed

section \<open>From creation to removal\<close>

datatype link_op = OpOpen kenv | OpStop | OpChange "attrs option"

fun link_step :: "link_op \<Rightarrow> pval_dev \<times> kworld \<Rightarrow> (pval_dev \<times> kworld) option" where
  "link_step (OpOpen E) (pdev, w) = map_option snd (pval_open E pdev w)"
| "link_step OpStop (pdev, w) = map_option (\<lambda>(rc, w'). (pdev, w')) (pval_stop pdev w)"
| "link_step (OpChange data) (pdev, w) = map_option snd (pval_changelink data pdev w)"

fun link_run :: "link_op list \<Rightarrow> pval_dev \<times> kworld \<Rightarrow> (pval_dev \<times> kworld) option" where
  "link_run [] s = Some s"
| "link_run (op # ops) s = Option.bind (link_step op s) (link_run ops)"

definition op_ok :: "link_op \<Rightarrow> bool" where
  "op_ok op = (case op of OpChange data \<Rightarrow> policy_ok data | _ \<Rightarrow> True)"

text \<open>
  What holds of an interface in use: its lower link is there, referenced and linked; the
  character devices are held; the configuration to restore is known, or never changed, if
  the driver allows that.
\<close>

definition life_inv :: "(hwtstamp_config \<Rightarrow> bool) \<Rightarrow> netdev_id \<Rightarrow> nat \<Rightarrow> netdev_id \<Rightarrow> lower_dev \<Rightarrow>
    netdev_id list \<Rightarrow> pval_dev \<times> kworld \<Rightarrow> bool" where
  "life_inv supp dev N i lo0 L = (\<lambda>(pdev, w).
     pd_link pdev = Some i \<and> pd_dev pdev = dev \<and> pd_num_cpus pdev = N \<and> kw_dev_list w = L @ [dev] \<and>
     (\<exists>lo. kw_lower w i = Some lo \<and> lo_ioctl lo = lo_ioctl lo0 \<and> lo_refs lo = lo_refs lo0 + 1 \<and>
        lo_uppers lo = lo_uppers lo0 @ [dev] \<and>
        (tstamp_fixed lo0 \<longrightarrow> lo_hwtstamp lo = lo_hwtstamp lo0) \<and>
        (lower_ok supp lo0 \<and> lo_ioctl lo0 \<noteq> None \<longrightarrow>
           supp (lo_hwtstamp lo) \<and> pd_original_config pdev = lo_hwtstamp lo0)) \<and>
     (\<forall>d. \<forall>m < N. kw_held w dev d m = both_held))"

lemma same_ioctl:
  assumes "lo_ioctl lo = lo_ioctl lo0"
  shows "tstamp_fixed lo = tstamp_fixed lo0"
    and "lower_ok supp lo0 \<Longrightarrow> supp (lo_hwtstamp lo) \<Longrightarrow> lower_ok supp lo"
  using assms by (simp_all add: tstamp_fixed_def lower_ok_def)

lemma set_tstamp_life:
  assumes "life_inv supp dev N i lo0 L (pdev, w)"
  shows "\<exists>rc w'. pval_set_tstamp_config pdev w = Some (rc, w') \<and> life_inv supp dev N i lo0 L (pdev, w')"
proof -
  obtain lo where lo: "kw_lower w i = Some lo" "lo_ioctl lo = lo_ioctl lo0" and l: "pd_link pdev = Some i"
      and s: "lower_ok supp lo0 \<and> lo_ioctl lo0 \<noteq> None \<longrightarrow> supp (lo_hwtstamp lo)"
    using assms by (auto simp: life_inv_def)
  from netdev_ioctl_set [OF lo(1), of "tstamp_config pdev" supp] obtain rc arg cur where
    n: "netdev_ioctl i SIOCSHWTSTAMP (tstamp_config pdev) w
       = Some (rc, arg, upd_lower i (\<lambda>l. l\<lparr>lo_hwtstamp := cur\<rparr>) w)"
    and c: "tstamp_fixed lo \<longrightarrow> cur = lo_hwtstamp lo" "lower_ok supp lo \<and> lo_ioctl lo \<noteq> None \<longrightarrow> supp cur" by blast
  have "lower_ok supp lo0 \<and> lo_ioctl lo0 \<noteq> None \<longrightarrow> supp cur" using c(2) s lo(2) same_ioctl(2) [OF lo(2), of supp] by auto
  with assms lo c(1) same_ioctl(1) [OF lo(2)] have
    "life_inv supp dev N i lo0 L (pdev, upd_lower i (\<lambda>l. l\<lparr>lo_hwtstamp := cur\<rparr>) w)" by (auto simp: life_inv_def)
  with n l show ?thesis by (auto simp: pval_set_tstamp_config_def)
qed

lemma restore_tstamp_life:
  assumes "life_inv supp dev N i lo0 L (pdev, w)"
  shows "\<exists>rc pdev' w' lo'. pval_restore_tstamp_config pdev w = Some (rc, pdev', w') \<and>
    life_inv supp dev N i lo0 L (pdev', w') \<and> kw_lower w' i = Some lo' \<and>
    (tstamp_fixed lo0 \<or> lower_ok supp lo0 \<longrightarrow> lo_hwtstamp lo' = lo_hwtstamp lo0)"
proof -
  obtain lo where lo: "kw_lower w i = Some lo" "lo_ioctl lo = lo_ioctl lo0" and l: "pd_link pdev = Some i"
      and f: "tstamp_fixed lo0 \<longrightarrow> lo_hwtstamp lo = lo_hwtstamp lo0"
      and s: "lower_ok supp lo0 \<and> lo_ioctl lo0 \<noteq> None \<longrightarrow>
        supp (lo_hwtstamp lo) \<and> pd_original_config pdev = lo_hwtstamp lo0"
    using assms by (auto simp: life_inv_def)
  from netdev_ioctl_set [OF lo(1), of "pd_original_config pdev" supp] obtain rc arg cur where
    n: "netdev_ioctl i SIOCSHWTSTAMP (pd_original_config pdev) w
       = Some (rc, arg, upd_lower i (\<lambda>l. l\<lparr>lo_hwtstamp := cur\<rparr>) w)"
    and c: "tstamp_fixed lo \<longrightarrow> cur = lo_hwtstamp lo" "lower_ok supp lo \<and> lo_ioctl lo \<noteq> None \<longrightarrow> supp cur \<and>
      (supp (pd_original_config pdev) \<longrightarrow> arg = pd_original_config pdev \<and> cur = pd_original_config pdev)" by blast
  have a: "lower_ok supp lo0 \<and> lo_ioctl lo0 \<noteq> None \<longrightarrow> supp cur \<and> arg = lo_hwtstamp lo0 \<and> cur = lo_hwtstamp lo0"
    using c(2) s lo(2) same_ioctl(2) [OF lo(2), of supp] by (auto simp: lower_ok_def [of supp lo0])
  have b: "tstamp_fixed lo0 \<longrightarrow> cur = lo_hwtstamp lo0" using c(1) f same_ioctl(1) [OF lo(2)] by simp
  have none: "lo_ioctl lo0 = None \<Longrightarrow> tstamp_fixed lo0" by (simp add: tstamp_fixed_def)
  have "life_inv supp dev N i lo0 L (pdev\<lparr>pd_original_config := arg\<rparr>, upd_lower i (\<lambda>l. l\<lparr>lo_hwtstamp := cur\<rparr>) w)"
    using assms lo a b by (auto simp: life_inv_def)
  with n l lo(1) a b none show ?thesis by (auto simp: pval_restore_tstamp_config_def)
qed

lemma life_inv_upd:
  assumes "life_inv supp dev N i lo0 L (pdev, w)"
    and "\<And>l. lo_refs (f l) = lo_refs l" "\<And>l. lo_uppers (f l) = lo_uppers l"
      "\<And>l. lo_ioctl (f l) = lo_ioctl l" "\<And>l. lo_hwtstamp (f l) = lo_hwtstamp l"
  shows "life_inv supp dev N i lo0 L (pdev, upd_lower i f w)"
  using assms by (auto simp: life_inv_def)

lemma link_step_life:
  assumes "life_inv supp dev N i lo0 L s" and "op_ok op"
  shows "\<exists>s'. link_step op s = Some s' \<and> life_inv supp dev N i lo0 L s'"
proof -
  obtain pdev w where s: "s = (pdev, w)" by fastforce
  note inv = assms(1) [unfolded s]
  have l: "pd_link pdev = Some i" using inv by (simp add: life_inv_def)
  show ?thesis
  proof (cases op)
    case (OpOpen E)
    obtain lo where lo: "kw_lower w i = Some lo" using inv by (auto simp: life_inv_def)
    let ?w1 = "upd_lower i (\<lambda>l. l\<lparr>lo_rx_handler := Some (pd_dev pdev)\<rparr>) w"
    have "life_inv supp dev N i lo0 L (pdev, ?w1)" by (rule life_inv_upd [OF inv]) simp_all
    then obtain rc w2 where w2: "pval_set_tstamp_config pdev ?w1 = Some (rc, w2)"
        "life_inv supp dev N i lo0 L (pdev, w2)" using set_tstamp_life by blast
    let ?w3 = "dev_set_promiscuity (ke_promisc_rc E) i 1 w2"
    have w3: "life_inv supp dev N i lo0 L (pdev, ?w3)"
      unfolding dev_set_promiscuity_def using w2(2) by (auto intro!: life_inv_upd)
    obtain rc' p4 w4 where w4: "pval_restore_tstamp_config pdev ?w3 = Some (rc', p4, w4)"
        "life_inv supp dev N i lo0 L (p4, w4)" using restore_tstamp_life [OF w3] by blast
    have w5: "life_inv supp dev N i lo0 L (p4, upd_lower i (\<lambda>l. l\<lparr>lo_rx_handler := None\<rparr>) w4)"
      by (rule life_inv_upd [OF w4(2)]) simp_all
    show ?thesis
      using l lo w2 w3 w4 w5 inv by (auto simp: OpOpen s pval_open_def Let_def)
  next
    case OpStop
    have "life_inv supp dev N i lo0 L (pdev, upd_lower i (\<lambda>l. l\<lparr>lo_rx_handler := None\<rparr>) w)"
      by (rule life_inv_upd [OF inv]) simp_all
    then show ?thesis
      using l by (auto simp: OpStop s pval_stop_def dev_set_promiscuity_def Let_def intro!: life_inv_upd)
  next
    case (OpChange data)
    have "life_inv supp dev N i lo0 L (configured data pdev, w)"
      using inv unfolding life_inv_def prod.case configured_frame .
    from set_tstamp_life [OF this] assms(2) inv show ?thesis
      by (auto simp: OpChange s pval_changelink_def op_ok_def nl_config_ok)
  qed
qed

lemma link_run_life:
  "life_inv supp dev N i lo0 L s \<Longrightarrow> list_all op_ok ops \<Longrightarrow>
   \<exists>s'. link_run ops s = Some s' \<and> life_inv supp dev N i lo0 L s'"
proof (induction ops arbitrary: s)
  case (Cons op ops)
  then obtain s1 where "link_step op s = Some s1" "life_inv supp dev N i lo0 L s1"
    using link_step_life [OF Cons.prems(1), of op] by auto
  with Cons show ?case by auto
qed simp

definition none_held :: mdev_held where
  "none_held = \<lparr>held_slots = False, held_misc = False\<rparr>"

lemma destroy_mdev_held:
  "kw_held w dev d n = both_held \<Longrightarrow> destroy_mdev dev d n w = Some (set_held dev d n none_held w)"
  by (simp add: destroy_mdev_def pval_destroy_miscdevice_def both_held_def none_held_def)

lemma destroy_mdevs_spec:
  "\<forall>d m. n \<le> m \<and> m < n + k \<longrightarrow> kw_held w dev d m = both_held \<Longrightarrow>
   \<exists>w'. destroy_mdevs dev n k w = Some w' \<and> same_world dev w w' \<and>
     (\<forall>d m. kw_held w' dev d m = (if n \<le> m \<and> m < n + k then none_held else kw_held w dev d m))"
proof (induction k arbitrary: n w)
  case (Suc k)
  let ?w2 = "set_held dev RX n none_held (set_held dev TX n none_held w)"
  have w2: "destroy_mdevs dev n (Suc k) w = destroy_mdevs dev (Suc n) k ?w2"
    using Suc.prems by (simp add: destroy_mdev_held)
  have "\<forall>d m. Suc n \<le> m \<and> m < Suc n + k \<longrightarrow> kw_held ?w2 dev d m = both_held"
    using Suc.prems by auto
  from Suc.IH [OF this] obtain w' where w': "destroy_mdevs dev (Suc n) k ?w2 = Some w'" "same_world dev ?w2 w'"
      "\<forall>d m. kw_held w' dev d m = (if Suc n \<le> m \<and> m < Suc n + k then none_held else kw_held ?w2 dev d m)"
    by blast
  have "same_world dev w ?w2" by (rule same_world_trans [OF same_world_set_held same_world_set_held])
  moreover have "kw_held w' dev d m = (if n \<le> m \<and> m < n + Suc k then none_held else kw_held w dev d m)" for d m
    using w'(3) by (cases d; cases "m = n") auto
  ultimately show ?case using w2 w' same_world_trans by auto
qed auto

lemma dellink_life:
  assumes "life_inv supp dev N i lo0 L (pdev, w)" and "dev \<notin> set L" and "dev \<notin> set (lo_uppers lo0)"
  shows "\<exists>pdev' w' lo'. pval_dellink pdev w = Some (pdev', w') \<and> kw_lower w' i = Some lo' \<and>
    lo_refs lo' = lo_refs lo0 \<and> lo_uppers lo' = lo_uppers lo0 \<and>
    (tstamp_fixed lo0 \<or> lower_ok supp lo0 \<longrightarrow> lo_hwtstamp lo' = lo_hwtstamp lo0) \<and>
    kw_dev_list w' = L \<and> dev \<in> set (kw_unreg_queue w') \<and> (\<forall>d. \<forall>m < N. kw_held w' dev d m = none_held)"
proof -
  obtain rc p1 w1 lo1 where 1: "pval_restore_tstamp_config pdev w = Some (rc, p1, w1)"
      "life_inv supp dev N i lo0 L (p1, w1)" "kw_lower w1 i = Some lo1"
      "tstamp_fixed lo0 \<or> lower_ok supp lo0 \<longrightarrow> lo_hwtstamp lo1 = lo_hwtstamp lo0"
    using restore_tstamp_life [OF assms(1)] by blast
  define w5 where "w5 = upd_lower i (\<lambda>l. l\<lparr>lo_uppers := removeAll dev (lo_uppers l)\<rparr>)
     ((upd_lower i (\<lambda>l. l\<lparr>lo_refs := lo_refs l - 1\<rparr>) w1)
       \<lparr>kw_dev_list := removeAll dev (kw_dev_list w1), kw_unreg_queue := kw_unreg_queue w1 @ [dev]\<rparr>)"
  have held: "\<forall>d m. 0 \<le> m \<and> m < 0 + N \<longrightarrow> kw_held w5 dev d m = both_held"
    and lo: "lo_refs lo1 = lo_refs lo0 + 1" "lo_uppers lo1 = lo_uppers lo0 @ [dev]" "kw_dev_list w1 = L @ [dev]"
    using 1(2,3) by (auto simp: life_inv_def w5_def)
  from destroy_mdevs_spec [OF held] obtain w' where w': "destroy_mdevs dev 0 N w5 = Some w'" "same_world dev w5 w'"
      "\<forall>d m. kw_held w' dev d m = (if 0 \<le> m \<and> m < 0 + N then none_held else kw_held w5 dev d m)" by blast
  have "pval_dellink pdev w = Some (p1, w')"
    using assms(1) 1(1) w'(1) by (simp add: pval_dellink_def life_inv_def w5_def Let_def)
  moreover have "kw_lower w' i = Some (lo1\<lparr>lo_refs := lo_refs lo1 - 1, lo_uppers := removeAll dev (lo_uppers lo1)\<rparr>)"
    using same_worldD(1) [OF w'(2)] 1(3) by (simp add: w5_def)
  moreover have "kw_dev_list w' = L" "dev \<in> set (kw_unreg_queue w')"
    using same_worldD(2,4) [OF w'(2)] lo(3) assms(2) by (simp_all add: w5_def)
  ultimately show ?thesis using 1(4) lo assms(3) w'(3) by simp
qed

lemma newlink_life:
  assumes "link_request E data i lo pdev w" and "ke_register_rc E = 0" and "ke_upper_rc E = 0"
    and "\<forall>j < num_cpus_of E. mdev_ok E j"
  shows "\<exists>dev' pdev' w'. pval_newlink E stack dev data pdev w = Some (0, dev', pdev', w') \<and>
    life_inv supp (nd_ifindex dev) (num_cpus_of E) i lo (kw_dev_list w) (pdev', w')"
proof -
  obtain pdev3 w4 rc pdev4 w5 where n: "same_pdev (linked_pdev E dev i data pdev) pdev3"
      "same_world (nd_ifindex dev) (linked_world dev i w) w4" "\<forall>m < num_cpus_of E. mdevs_ready pdev3 w4 m"
      "pval_save_tstamp_config stack pdev3 w4 = Some (rc, pdev4, w5)"
      and nl: "pval_newlink E stack dev data pdev w = Some (0, dev\<lparr>nd_needed_headroom := 12 + lo_needed_headroom lo\<rparr>,
        pdev4, w5\<lparr>kw_dev_list := kw_dev_list w5 @ [nd_ifindex dev]\<rparr>)"
    using newlink_ok [OF assms(1-4)] by blast
  let ?lo = "lo\<lparr>lo_refs := lo_refs lo + 1, lo_uppers := lo_uppers lo @ [nd_ifindex dev]\<rparr>"
  have p3: "pd_link pdev3 = Some i" "pd_dev pdev3 = nd_ifindex dev" "pd_num_cpus pdev3 = num_cpus_of E"
    using same_pdevD [OF n(1)] by simp_all
  have lo: "kw_lower w4 i = Some ?lo" "tstamp_fixed ?lo = tstamp_fixed lo" "lower_ok supp ?lo = lower_ok supp lo"
    using same_worldD(1) [OF n(2)] linked_world_lower assms(1)
    by (simp_all add: link_request_def lower_ok_def tstamp_fixed_def)
  have L: "kw_dev_list w4 = kw_dev_list w" using same_worldD(2) [OF n(2)] by (simp add: linked_world_def)
  have held: "\<forall>d. \<forall>m < num_cpus_of E. kw_held w4 (nd_ifindex dev) d m = both_held"
    using n(3) by (simp add: mdevs_ready_def p3)
  from save_tstamp_total [OF p3(1) lo(1), of stack supp] obtain c cur where
    s: "pdev4 = pdev3\<lparr>pd_original_config := c\<rparr>" "w5 = upd_lower i (\<lambda>l. l\<lparr>lo_hwtstamp := cur\<rparr>) w4"
      "tstamp_fixed lo \<longrightarrow> cur = lo_hwtstamp lo"
      "lower_ok supp lo \<and> lo_ioctl lo \<noteq> None \<longrightarrow> cur = lo_hwtstamp lo \<and> c = lo_hwtstamp lo"
    using n(4) lo(2,3) by auto
  have "supp (lo_hwtstamp lo)" if "lower_ok supp lo" using that by (simp add: lower_ok_def)
  with s p3 lo(1) L held have
    "life_inv supp (nd_ifindex dev) (num_cpus_of E) i lo (kw_dev_list w)
       (pdev4, w5\<lparr>kw_dev_list := kw_dev_list w5 @ [nd_ifindex dev]\<rparr>)"
    by (auto simp: life_inv_def)
  with nl show ?thesis by blast
qed

text \<open>
  C24. Removal gives back what creation took. Suppose \<open>pval_newlink\<close> gets attributes that have
  passed the policy and name an existing lower link, the allocations and registrations it
  asks for succeed, and the index of the interface is not in use. Then creation succeeds, and
  after any sequence of going up (also when that fails), going down and changes of the
  configuration \<open>pval_dellink\<close> returns; the lower link has the reference count and the upper
  devices it had before, whatever its driver does; the interface is off the list and handed
  over for unregistration, and every ring and misc device has been released once. The lower
  link has its hardware time stamp configuration back if its driver has no \<open>ndo_do_ioctl\<close>,
  refuses both commands, or is one that reports its configuration, accepts the
  configurations it supports, and keeps its configuration when it refuses another; nothing
  is said for a driver that can be configured but not asked.
\<close>

theorem newlink_dellink_balanced:
  assumes "link_request E data i lo pdev w" and "ke_register_rc E = 0" and "ke_upper_rc E = 0"
    and "\<forall>j < num_cpus_of E. mdev_ok E j" and "list_all op_ok ops"
    and "nd_ifindex dev \<notin> set (kw_dev_list w)" and "nd_ifindex dev \<notin> set (lo_uppers lo)"
  shows "\<exists>dev' p1 w1 p2 w2 p3 w3 lo'. pval_newlink E stack dev data pdev w = Some (0, dev', p1, w1) \<and>
    link_run ops (p1, w1) = Some (p2, w2) \<and> pval_dellink p2 w2 = Some (p3, w3) \<and>
    kw_lower w3 i = Some lo' \<and> lo_refs lo' = lo_refs lo \<and> lo_uppers lo' = lo_uppers lo \<and>
    (tstamp_fixed lo \<or> lower_ok supp lo \<longrightarrow> lo_hwtstamp lo' = lo_hwtstamp lo) \<and> kw_dev_list w3 = kw_dev_list w \<and>
    nd_ifindex dev \<in> set (kw_unreg_queue w3) \<and>
    (\<forall>d. \<forall>m < num_cpus_of E. kw_held w3 (nd_ifindex dev) d m = none_held)"
proof -
  obtain dev' p1 w1 where 1: "pval_newlink E stack dev data pdev w = Some (0, dev', p1, w1)"
      "life_inv supp (nd_ifindex dev) (num_cpus_of E) i lo (kw_dev_list w) (p1, w1)"
    using newlink_life [OF assms(1-4)] by blast
  obtain p2 w2 where 2: "link_run ops (p1, w1) = Some (p2, w2)"
      "life_inv supp (nd_ifindex dev) (num_cpus_of E) i lo (kw_dev_list w) (p2, w2)"
    using link_run_life [OF 1(2) assms(5)] by fastforce
  from dellink_life [OF 2(2) assms(6,7)] 1(1) 2(1) show ?thesis by blast
qed

definition example_ndo :: ndo_do_ioctl where
  "example_ndo cur cmd a = (case cmd of SIOCGHWTSTAMP \<Rightarrow> (0, cur, cur) | SIOCSHWTSTAMP \<Rightarrow> (0, a, a))"

lemma example_ndo_ok: "lower_ok (\<lambda>_. True) (example_lower\<lparr>lo_ioctl := Some example_ndo\<rparr>)"
  by (simp add: lower_ok_def driver_ok_def example_ndo_def)

lemma example_request_ndo:
  "link_request example_kenv (Some example_attrs) 3 (example_lower\<lparr>lo_ioctl := Some example_ndo\<rparr>) example_pdev
     (example_world\<lparr>kw_lower := [3 \<mapsto> example_lower\<lparr>lo_ioctl := Some example_ndo\<rparr>]\<rparr>)"
  using example_request by (simp add: link_request_def)

theorem newlink_dellink_balanced_witness:
  "\<exists>dev' p1 w1 p2 w2 p3 w3 lo'. pval_newlink example_kenv zero_hwtstamp example_dev (Some example_attrs) example_pdev
      (example_world\<lparr>kw_lower := [3 \<mapsto> example_lower\<lparr>lo_ioctl := Some example_ndo\<rparr>]\<rparr>) = Some (0, dev', p1, w1) \<and>
    link_run [OpOpen example_kenv, OpChange (Some [IFLA_PVAL_TXTSTAMP \<mapsto> [1]]), OpStop] (p1, w1) = Some (p2, w2) \<and>
    pval_dellink p2 w2 = Some (p3, w3) \<and> kw_lower w3 3 = Some lo' \<and> lo_refs lo' = 1 \<and> lo_hwtstamp lo' = zero_hwtstamp"
proof -
  have ops: "list_all op_ok [OpOpen example_kenv, OpChange (Some [IFLA_PVAL_TXTSTAMP \<mapsto> [1]]), OpStop]"
    by (simp add: op_ok_def policy_ok_def attr_def pval_policy_def ifla_pval_defs)
  from newlink_dellink_balanced [OF example_request_ndo example_kenv_ok ops, of example_dev zero_hwtstamp "\<lambda>_. True"]
  show ?thesis using example_ndo_ok by (simp add: example_world_def example_lower_def) blast
qed

text \<open>
  C25. What a failed creation keeps. When \<open>pval_newlink\<close> fails after it found the lower link,
  the reference it took on the link is never given back; and when a character device
  cannot be made, those of the CPUs before it stay registered with their rings allocated,
  although the interface is unregistered and not on the list.
\<close>

theorem newlink_failure_leaks:
  assumes "link_request E data i lo pdev w" and "nd_ifindex dev \<notin> set (kw_dev_list w)"
    and "ke_register_rc E \<noteq> 0 \<or> ke_upper_rc E \<noteq> 0 \<or> (\<exists>j < num_cpus_of E. \<not> mdev_ok E j)"
  shows "\<exists>rc dev' pdev' w' lo'. pval_newlink E stack dev data pdev w = Some (rc, dev', pdev', w') \<and> rc \<noteq> 0 \<and>
    kw_lower w' i = Some lo' \<and> lo_refs lo' = lo_refs lo + 1 \<and> nd_ifindex dev \<notin> set (kw_dev_list w') \<and>
    (ke_register_rc E = 0 \<and> ke_upper_rc E = 0 \<longrightarrow> nd_ifindex dev \<notin> set (kw_registered w') \<and>
       (\<forall>m < num_cpus_of E. (\<forall>j \<le> m. mdev_ok E j) \<longrightarrow>
          (\<forall>d. kw_held w' (nd_ifindex dev) d m = both_held)))"
proof (cases "ke_register_rc E = 0 \<and> ke_upper_rc E = 0")
  case True
  let ?p = "linked_pdev E dev i data pdev" and ?w = "linked_world dev i w"
  have k: "kmalloc_size E" "length (pmdevs d ?p) = PVAL_MAX_CPUS" "kw_lower w i = Some lo" for d
    using assms(1) by (simp_all add: link_request_def)
  have n: "0 + num_cpus_of E \<le> PVAL_MAX_CPUS" by (simp add: num_cpus_of_def)
  obtain rc p3 w4 where 3: "init_mdevs E 0 (num_cpus_of E) ?p ?w = Some (rc, p3, w4)" "same_pdev ?p p3"
      "same_world (nd_ifindex dev) ?w w4" "rc \<le> 0" "rc = 0 \<longleftrightarrow> (\<forall>j. 0 \<le> j \<and> j < 0 + num_cpus_of E \<longrightarrow> mdev_ok E j)"
      and ready: "\<forall>m. 0 \<le> m \<and> m < 0 + num_cpus_of E \<and> (\<forall>j. 0 \<le> j \<and> j \<le> m \<longrightarrow> mdev_ok E j) \<longrightarrow> mdevs_ready p3 w4 m"
    using init_mdevs_spec [OF k(1,2) n, of ?w] by auto
  have "rc < 0" using 3(4,5) assms(3) True by auto
  moreover have "pd_dev p3 = nd_ifindex dev" using same_pdevD(1) [OF 3(2)] by simp
  moreover have "kw_lower w4 i = Some (lo\<lparr>lo_refs := lo_refs lo + 1, lo_uppers := lo_uppers lo @ [nd_ifindex dev]\<rparr>)"
    "kw_dev_list w4 = kw_dev_list w"
    using same_worldD [OF 3(3)] linked_world_lower [OF k(3)] by (simp_all add: linked_world_def)
  ultimately show ?thesis
    unfolding newlink_cases [OF assms(1)] using True 3(1) assms(2) ready
    by (auto simp: unregister_netdevice_def mdevs_ready_def)
next
  case False
  have "kw_lower w i = Some lo" using assms(1) by (simp add: link_request_def)
  with False assms(2) show ?thesis
    unfolding newlink_cases [OF assms(1)] by (auto simp: unregister_netdevice_def)
qed

theorem newlink_failure_leaks_witness:
  "\<exists>rc dev' pdev' w' lo'. pval_newlink (example_kenv\<lparr>ke_misc_rc := \<lambda>d n. if n = 2 then - 16 else 0\<rparr>) zero_hwtstamp
      example_dev (Some example_attrs) example_pdev example_world = Some (rc, dev', pdev', w') \<and> rc \<noteq> 0 \<and>
    kw_lower w' 3 = Some lo' \<and> lo_refs lo' = 2 \<and> kw_held w' 7 TX 1 = both_held"
proof -
  let ?E = "example_kenv\<lparr>ke_misc_rc := \<lambda>d n. if n = 2 then - 16 else 0\<rparr>"
  have r: "link_request ?E (Some example_attrs) 3 example_lower example_pdev example_world"
    using example_request by (simp add: link_request_def kmalloc_size_def)
  have e: "num_cpus_of ?E = 4" "ke_register_rc ?E = 0" "ke_upper_rc ?E = 0"
    by (simp_all add: num_cpus_of_def PVAL_MAX_CPUS_def example_kenv_def)
  have ok: "mdev_ok ?E j \<longleftrightarrow> j \<noteq> 2" for j by (auto simp: mdev_ok_def example_kenv_def)
  then have f: "ke_register_rc ?E \<noteq> 0 \<or> ke_upper_rc ?E \<noteq> 0 \<or> (\<exists>j < num_cpus_of ?E. \<not> mdev_ok ?E j)"
    using e by auto
  have "nd_ifindex example_dev \<notin> set (kw_dev_list example_world)" "nd_ifindex example_dev = 7"
    "lo_refs example_lower = 1" by (simp_all add: example_world_def example_dev_def example_lower_def)
  with newlink_failure_leaks [OF r _ f, of example_dev zero_hwtstamp] show ?thesis
    using e ok by fastforce
qed

section \<open>Up and down\<close>



section \<open>The report\<close>

definition link_info :: "netdev_id \<Rightarrow> pval_dev \<Rightarrow> bytes" where
  "link_info link pdev = nlattr_bytes IFLA_PVAL_LINK (le_bytes 4 link)
     @ nlattr_bytes IFLA_PVAL_IPOPT (flag_byte (pd_ipopt pdev))
     @ nlattr_bytes IFLA_PVAL_TXTSTAMP (flag_byte (pd_txtstamp pdev))
     @ nlattr_bytes IFLA_PVAL_RXTSTAMP (flag_byte (pd_rxtstamp pdev))
     @ nlattr_bytes IFLA_PVAL_TXCOPY (flag_byte (pd_txcopy pdev))
     @ nlattr_bytes IFLA_PVAL_RXCOPY (flag_byte (pd_rxcopy pdev))
     @ nlattr_bytes IFLA_PVAL_TXBUSYDROP (flag_byte (pd_txbusydrop pdev))"

lemma nla_align_ge: "n \<le> NLA_ALIGN n"
  unfolding NLA_ALIGN_def by linarith

lemma length_nlattr_bytes [simp, bytes_simps]: "length (nlattr_bytes ty p) = nla_total_size (length p)"
  using nla_align_ge [of "NLA_HDRLEN + length p"]
  by (simp add: nlattr_bytes_def nla_total_size_def NLA_HDRLEN_def)

lemma nla_total_size_small [simp]: "nla_total_size 1 = 8" "nla_total_size (Suc 0) = 8" "nla_total_size 4 = 8"
  by (simp_all add: nla_total_size_def NLA_ALIGN_def NLA_HDRLEN_def)

lemma length_flag_byte [simp]: "length (flag_byte b) = 1"
  by (simp add: flag_byte_def)

text \<open>
  C27. The report and its size. \<open>pval_fill_info\<close> needs 56 bytes and then appends the seven
  attributes; with less room it fails. The size that \<open>pval_get_size\<close> announces, from which
  the kernel computes the room, is 8 bytes: with just that room the report always fails.
\<close>

theorem fill_info_size:
  assumes "pd_link pdev = Some link"
  shows "pval_fill_info room pdev msg =
      Some (if length msg + 56 \<le> room then Inr (msg @ link_info link pdev) else Inl (- EMSGSIZE)) \<and>
    pval_fill_info (length msg + pval_get_size) pdev msg = Some (Inl (- EMSGSIZE))"
  using assms
  by (simp add: pval_fill_info_def fill_switches_def nla_put_def link_info_def pval_get_size_def)

theorem fill_info_size_witness:
  "pval_fill_info 8 example_pdev [] = Some (Inl (- EMSGSIZE)) \<and>
   pval_fill_info 4096 example_pdev [] = Some (Inr (link_info 3 example_pdev))"
  using fill_info_size [of example_pdev 3 8 "[]"] fill_info_size [of example_pdev 3 4096 "[]"]
  by (simp add: example_pdev_simps)

end
