(* ===== verification/Iplink_Pval.thy ===== *)
theory Iplink_Pval
  imports Ll_Map Link_Correct
begin

text \<open>
  The link type \<open>pval\<close> of \<open>ip link\<close>, \<open>iproute2-4.18.0/ip/iplink_pval.c\<close>: the options of the
  command line become attributes of the request, and the attributes of a report become text.
\<close>

section \<open>Options\<close>

definition PVAL_ATTRSET :: "u64 \<Rightarrow> nat \<Rightarrow> bool" where
  "PVAL_ATTRSET attrs ty \<longleftrightarrow> attrs AND push_bit ty 1 \<noteq> 0"

definition check_duparg :: "u64 \<Rightarrow> nat \<Rightarrow> string \<Rightarrow> string \<Rightarrow> u64 exits" where
  "check_duparg attrs ty key argv =
     (if \<not> PVAL_ATTRSET attrs ty then Ret (attrs OR push_bit ty 1) else duparg2 key argv)"

text \<open>The result of the parser: \<open>None\<close> is a store outside the memory of the message, and
  otherwise the program ends or the function returns a code and leaves the message.\<close>

type_synonym parse_result = "(int \<times> nlmsg) exits option"

text \<open>The value of one of the six switches. What \<open>addattr8\<close> returns is not looked at.\<close>

definition switch_value :: "nlmsg \<Rightarrow> nat \<Rightarrow> string \<Rightarrow> nlmsg exits option" where
  "switch_value n ty arg =
     (if matches arg ''on'' then map_option (\<lambda>(rc, n'). Ret n') (addattr8 n 1024 ty 1)
      else if matches arg ''off'' then map_option (\<lambda>(rc, n'). Ret n') (addattr8 n 1024 ty 0)
      else Some (invarg ''invalid parameter'' arg))"

definition link_value :: "(string \<Rightarrow> u32) \<Rightarrow> nlmsg \<Rightarrow> string \<Rightarrow> nlmsg exits option" where
  "link_value nametoindex n arg =
     (let link = nametoindex arg in
      if link = 0 then Some (invarg ''invalid device'' arg)
      else map_option (\<lambda>(rc, n'). Ret n') (addattr32 n 1024 IFLA_PVAL_LINK link))"

text \<open>The keywords in the order in which they are tried; any prefix of a keyword matches it.\<close>

definition keywords_opt :: "(string \<times> nat) list" where
  "keywords_opt = [(''link'', IFLA_PVAL_LINK), (''ipopt'', IFLA_PVAL_IPOPT),
     (''txtstamp'', IFLA_PVAL_TXTSTAMP), (''rxtstamp'', IFLA_PVAL_RXTSTAMP), (''txcopy'', IFLA_PVAL_TXCOPY),
     (''rxcopy'', IFLA_PVAL_RXCOPY), (''txbusydrop'', IFLA_PVAL_TXBUSYDROP)]"

definition keyword :: "string \<Rightarrow> (string \<times> nat) option" where
  "keyword a = List.find (\<lambda>(key, ty). matches a key) keywords_opt"

definition opt_value :: "(string \<Rightarrow> u32) \<Rightarrow> nlmsg \<Rightarrow> nat \<Rightarrow> string \<Rightarrow> nlmsg exits option" where
  "opt_value nametoindex n ty arg =
     (if ty = IFLA_PVAL_LINK then link_value nametoindex n arg else switch_value n ty arg)"

text \<open>
  The loop of \<open>pval_parse_opt\<close>. A keyword at the end of the line lacks its value
  (\<open>NEXT_ARG\<close>); \<open>help\<close> and an unknown word print the explanation and return \<open>-1\<close>, with
  the attributes so far in the message.
\<close>

fun parse_opts :: "(string \<Rightarrow> u32) \<Rightarrow> u64 \<Rightarrow> string list \<Rightarrow> nlmsg \<Rightarrow> parse_result" where
  "parse_opts nametoindex attrs [] n = Some (Ret (0, n))"
| "parse_opts nametoindex attrs [a] n =
     (case keyword a of None \<Rightarrow> Some (Ret (- 1, n)) | Some k \<Rightarrow> Some incomplete_command)"
| "parse_opts nametoindex attrs (a # arg # rest) n =
     (case keyword a of
        None \<Rightarrow> Some (Ret (- 1, n))
      | Some (key, ty) \<Rightarrow>
          (case check_duparg attrs ty key arg of
             Exit c e \<Rightarrow> Some (Exit c e)
           | Ret attrs' \<Rightarrow>
               (case opt_value nametoindex n ty arg of
                  None \<Rightarrow> None
                | Some (Exit c e) \<Rightarrow> Some (Exit c e)
                | Some (Ret n') \<Rightarrow> parse_opts nametoindex attrs' rest n')))"

definition pval_parse_opt :: "(string \<Rightarrow> u32) \<Rightarrow> string list \<Rightarrow> nlmsg \<Rightarrow> parse_result" where
  "pval_parse_opt nametoindex argv n = parse_opts nametoindex 0 argv n"

definition NL :: string where "NL = [CHR 0x0A]"

definition print_explain :: string where
  "print_explain = ''Usage: ... pval link PHYS_DEV'' @ NL @
     concat (map (\<lambda>s. replicate 17 (CHR '' '') @ ''[ '' @ s @ '' { on | off } ]'' @ NL)
       [''ipopt'', ''txtstamp'', ''rxtstamp'', ''txcopy'', ''rxcopy'', ''txbusydrop''])"

section \<open>Reports\<close>

text \<open>
  \<open>pval_print_opt\<close>, with plain text as the output format. \<open>indextoname\<close> is \<open>if_indextoname\<close>;
  \<open>None\<close> is a read behind the payload of an attribute.
\<close>

definition rta_getattr_u8 :: "bytes \<Rightarrow> u8 option" where
  "rta_getattr_u8 p = nth_opt p 0"

definition rta_getattr_u32 :: "bytes \<Rightarrow> u32 option" where
  "rta_getattr_u32 p = map_option (\<lambda>b. word_of_nat (le_val b)) (mem_read p 0 4)"

definition print_switch :: "(nat \<Rightarrow> bytes option) \<Rightarrow> string \<times> nat \<Rightarrow> string option" where
  "print_switch tb kt =
     (case tb (snd kt) of
        None \<Rightarrow> Some []
      | Some p \<Rightarrow> map_option (\<lambda>v. fst kt @ '' '' @ (if v \<noteq> 0 then ''on'' else ''off'') @ '' '')
                   (rta_getattr_u8 p))"

fun print_switches :: "(nat \<Rightarrow> bytes option) \<Rightarrow> (string \<times> nat) list \<Rightarrow> string option" where
  "print_switches tb [] = Some []"
| "print_switches tb (k # ks) = do {
     s \<leftarrow> print_switch tb k;
     t \<leftarrow> print_switches tb ks;
     Some (s @ t)
   }"

definition print_link :: "(u32 \<Rightarrow> string option) \<Rightarrow> ll_map \<Rightarrow> (nat \<Rightarrow> bytes option) \<Rightarrow> string option" where
  "print_link indextoname m tb =
     (case tb IFLA_PVAL_LINK of
        None \<Rightarrow> Some []
      | Some p \<Rightarrow> do {
          link \<leftarrow> rta_getattr_u32 p;
          Some (if indextoname link \<noteq> None then ''link '' @ ll_index_to_name indextoname m link @ '' '' else [])
        })"

definition pval_print_opt ::
    "(u32 \<Rightarrow> string option) \<Rightarrow> ll_map \<Rightarrow> (nat \<Rightarrow> bytes option) option \<Rightarrow> string option" where
  "pval_print_opt indextoname m tb =
     (case tb of
        None \<Rightarrow> Some []
      | Some t \<Rightarrow> do {
          l \<leftarrow> print_link indextoname m t;
          s \<leftarrow> print_switches t (tl keywords_opt);
          Some (l @ s)
        })"

end
