(* ===== verification/Iplink_Correct.thy ===== *)
theory Iplink_Correct
  imports Iplink_Pval
begin

text \<open>
  From the command line of \<open>ip link ... type pval\<close> to the switches of the device, and from the
  report of the device back to a command line.
\<close>

section \<open>Command lines\<close>

datatype opt = OLink string | OSwitch nat bool

definition key_of :: "nat \<Rightarrow> string" where
  "key_of ty = (case List.find (\<lambda>(k, t). t = ty) keywords_opt of None \<Rightarrow> [] | Some (k, t) \<Rightarrow> k)"

fun opt_type :: "opt \<Rightarrow> nat" where
  "opt_type (OLink d) = IFLA_PVAL_LINK"
| "opt_type (OSwitch ty b) = ty"

fun opt_arg :: "opt \<Rightarrow> string" where
  "opt_arg (OLink d) = d"
| "opt_arg (OSwitch ty b) = (if b then ''on'' else ''off'')"

definition opt_words :: "opt \<Rightarrow> string list" where
  "opt_words opt = [key_of (opt_type opt), opt_arg opt]"

fun opt_attr :: "(string \<Rightarrow> u32) \<Rightarrow> opt \<Rightarrow> nat \<times> bytes" where
  "opt_attr f (OLink d) = (IFLA_PVAL_LINK, le_bytes 4 (unat (f d)))"
| "opt_attr f (OSwitch ty b) = (ty, flag_byte b)"

fun opt_ok :: "(string \<Rightarrow> u32) \<Rightarrow> opt \<Rightarrow> bool" where
  "opt_ok f (OLink d) \<longleftrightarrow> f d \<noteq> 0"
| "opt_ok f (OSwitch ty b) \<longleftrightarrow> IFLA_PVAL_IPOPT \<le> ty \<and> ty \<le> IFLA_PVAL_TXBUSYDROP"

lemma opt_attr_type [simp]: "fst (opt_attr f opt) = opt_type opt"
  by (cases opt) auto

lemma keyword_key_of: "1 \<le> ty \<Longrightarrow> ty \<le> 7 \<Longrightarrow> keyword (key_of ty) = Some (key_of ty, ty)"
proof -
  have "list_all (\<lambda>ty. keyword (key_of ty) = Some (key_of ty, ty)) [1..<8]" by code_simp
  then show "1 \<le> ty \<Longrightarrow> ty \<le> 7 \<Longrightarrow> ?thesis" by (simp add: list_all_iff)
qed

lemma opt_type_bounds: "opt_ok f opt \<Longrightarrow> 1 \<le> opt_type opt \<and> opt_type opt \<le> 7"
  by (cases opt) (auto simp: ifla_pval_defs)

lemma on_off_matches: "matches ''on'' ''on''" "\<not> matches ''off'' ''on''" "matches ''off'' ''off''"
  by code_simp+

lemma opt_value_attr:
  assumes "opt_ok f opt"
  shows "opt_value f n (opt_type opt) (opt_arg opt) =
     map_option (\<lambda>(rc, n'). Ret n') (addattr_l n 1024 (opt_type opt) (snd (opt_attr f opt)))"
  using assms
  by (cases opt) (auto simp: opt_value_def link_value_def switch_value_def on_off_matches addattr8_def
      addattr32_def flag_byte_def ifla_pval_defs)

section \<open>The duplicate check\<close>

text \<open>The bits of the types seen.\<close>

definition seen :: "nat list \<Rightarrow> u64" where
  "seen tys = foldr (\<lambda>ty a. a OR push_bit ty 1) tys 0"

lemma bit_seen: "i < 64 \<Longrightarrow> bit (seen tys) i \<longleftrightarrow> i \<in> set tys"
  by (induction tys) (auto simp: seen_def bit_simps)

lemma attrset_bit: "ty < 64 \<Longrightarrow> PVAL_ATTRSET attrs ty \<longleftrightarrow> bit attrs ty"
  by (simp add: PVAL_ATTRSET_def push_bit_of_1 and_exp_eq_0_iff_not_bit)

lemma seen_cong:
  assumes "set a = set b" "\<forall>ty \<in> set a. ty < 64"
  shows "seen a = seen b"
  by (rule bit_word_eqI) (simp add: bit_seen assms)

lemma check_duparg_seen:
  assumes "ty < 64"
  shows "check_duparg (seen tys) ty key arg =
     (if ty \<in> set tys then duparg2 key arg else Ret (seen (ty # tys)))"
  using assms by (simp add: check_duparg_def attrset_bit bit_seen) (simp add: seen_def)

section \<open>Parsing\<close>

lemma opt_size:
  assumes "opt_ok f opt"
  shows "RTA_ALIGN (4 + length (snd (opt_attr f opt))) = 8" "length (snd (opt_attr f opt)) \<le> 4"
  by (cases opt; simp add: RTA_ALIGN_def flag_byte_def)+

lemma parse_opts_prefix:
  assumes "list_all (opt_ok f) os" "distinct (map opt_type os)"
    and "\<forall>o' \<in> set os. opt_type o' \<notin> set tys" "\<forall>ty \<in> set tys. ty < 64"
    and "msg_attrs base n as" "nm_len n + 8 * length os \<le> 1024" "1024 \<le> length (nm_buf n)"
  shows "\<exists>n'. parse_opts f (seen tys) (concat (map opt_words os) @ tail) n =
        parse_opts f (seen (map opt_type os @ tys)) tail n' \<and>
      msg_attrs base n' (as @ map (opt_attr f) os)"
  using assms
proof (induction os arbitrary: tys n as)
  case Nil
  then show ?case by auto
next
  case (Cons opt os)
  have ok: "opt_ok f opt" and b: "1 \<le> opt_type opt" "opt_type opt \<le> 7"
    using Cons.prems(1) opt_type_bounds [of f opt] by auto
  have fits: "attr_fits 1024 n (snd (opt_attr f opt))"
    using Cons.prems(6) opt_size(1) [OF ok] by (simp add: attr_fits_def)
  obtain n' where n': "addattr_l n 1024 (opt_type opt) (snd (opt_attr f opt)) = Some (0, n')"
      "msg_attrs base n' (as @ [opt_attr f opt])" "length (nm_buf n') = length (nm_buf n)" "nm_len n' = nm_len n + 8"
  proof -
    have "(opt_type opt, snd (opt_attr f opt)) = opt_attr f opt" using opt_attr_type [of f opt] by (cases "opt_attr f opt") simp
    moreover have "opt_type opt < 65536" "4 + length (snd (opt_attr f opt)) < 65536"
      using b opt_size(2) [OF ok] by simp_all
    note addattr_l_msg [OF Cons.prems(5,7) this]
    ultimately show ?thesis using that fits opt_size(1) [OF ok] by (elim exE conjE) simp
  qed
  have "check_duparg (seen tys) (opt_type opt) (key_of (opt_type opt)) (opt_arg opt) = Ret (seen (opt_type opt # tys))"
    using Cons.prems(3) b by (simp add: check_duparg_seen)
  then have step: "parse_opts f (seen tys) (concat (map opt_words (opt # os)) @ tail) n =
      parse_opts f (seen (opt_type opt # tys)) (concat (map opt_words os) @ tail) n'"
    using keyword_key_of [OF b] opt_value_attr [OF ok, of n] n'(1) by (simp add: opt_words_def)
  have "\<exists>n''. parse_opts f (seen (opt_type opt # tys)) (concat (map opt_words os) @ tail) n' =
        parse_opts f (seen (map opt_type os @ opt_type opt # tys)) tail n'' \<and>
      msg_attrs base n'' ((as @ [opt_attr f opt]) @ map (opt_attr f) os)"
  proof (rule Cons.IH)
    show "\<forall>o' \<in> set os. opt_type o' \<notin> set (opt_type opt # tys)"
      using Cons.prems(2,3) by (simp add: image_iff) metis
  qed (use Cons.prems n' b in auto)
  moreover have "seen (map opt_type os @ opt_type opt # tys) = seen (map opt_type (opt # os) @ tys)"
    using Cons.prems(1,4) opt_type_bounds by (intro seen_cong) (fastforce simp: list_all_iff)+
  ultimately show ?case using step by simp
qed

text \<open>A line of valid options of different types on a message with room for them.\<close>

definition line_ok :: "(string \<Rightarrow> u32) \<Rightarrow> nat \<Rightarrow> nlmsg \<Rightarrow> opt list \<Rightarrow> bool" where
  "line_ok f base n os \<longleftrightarrow> list_all (opt_ok f) os \<and> distinct (map opt_type os) \<and> msg_attrs base n [] \<and>
     nm_len n + 8 * length os \<le> 1024 \<and> 1024 \<le> length (nm_buf n)"

lemma parse_line:
  assumes "line_ok f base n os"
  shows "\<exists>n'. pval_parse_opt f (concat (map opt_words os) @ tail) n =
        parse_opts f (seen (map opt_type os)) tail n' \<and> msg_attrs base n' (map (opt_attr f) os)"
proof -
  have "seen [] = 0" by (simp add: seen_def)
  then show ?thesis
    using assms parse_opts_prefix [of f os "[]" base n "[]" tail] by (simp add: line_ok_def pval_parse_opt_def)
qed

section \<open>From the command line to the device\<close>

definition opt_switch :: "opt list \<Rightarrow> nat \<Rightarrow> bool \<Rightarrow> bool" where
  "opt_switch os ty old =
     (if OSwitch ty True \<in> set os then True else if OSwitch ty False \<in> set os then False else old)"

definition apply_opts :: "opt list \<Rightarrow> pval_dev \<Rightarrow> pval_dev" where
  "apply_opts os pdev = pdev\<lparr>pd_ipopt := opt_switch os IFLA_PVAL_IPOPT (pd_ipopt pdev),
     pd_txtstamp := opt_switch os IFLA_PVAL_TXTSTAMP (pd_txtstamp pdev),
     pd_rxtstamp := opt_switch os IFLA_PVAL_RXTSTAMP (pd_rxtstamp pdev),
     pd_txcopy := opt_switch os IFLA_PVAL_TXCOPY (pd_txcopy pdev),
     pd_rxcopy := opt_switch os IFLA_PVAL_RXCOPY (pd_rxcopy pdev),
     pd_txbusydrop := opt_switch os IFLA_PVAL_TXBUSYDROP (pd_txbusydrop pdev)\<rparr>"

lemma map_of_opts:
  assumes "distinct (map opt_type os)" "opt \<in> set os"
  shows "map_of (map (opt_attr f) os) (opt_type opt) = Some (snd (opt_attr f opt))"
proof (rule map_of_is_SomeI)
  show "distinct (map fst (map (opt_attr f) os))" using assms(1) by (simp add: comp_def)
  show "(opt_type opt, snd (opt_attr f opt)) \<in> set (map (opt_attr f) os)"
    using assms(2) opt_attr_type [of f opt] by (metis image_eqI list.set_map prod.collapse)
qed

lemma map_of_opts_None: "ty \<notin> opt_type ` set os \<Longrightarrow> map_of (map (opt_attr f) os) ty = None"
  by (auto simp: map_of_eq_None_iff image_iff)

lemma opts_switch_of:
  assumes "distinct (map opt_type os)" "list_all (opt_ok f) os" "IFLA_PVAL_IPOPT \<le> ty"
  shows "switch_of (Some (map_of (map (opt_attr f) os))) ty old = opt_switch os ty old"
proof (cases "ty \<in> opt_type ` set os")
  case True
  then obtain opt where o: "opt \<in> set os" "opt_type opt = ty" by auto
  have "\<exists>b. OSwitch ty b \<in> set os"
  proof (cases opt)
    case (OLink d)
    with o assms(3) show ?thesis by (auto simp: ifla_pval_defs)
  next
    case (OSwitch t b)
    with o show ?thesis by auto
  qed
  then obtain b where b: "OSwitch ty b \<in> set os" ..
  have inj: "inj_on opt_type (set os)" using assms(1) by (simp add: distinct_map)
  have "OSwitch ty (\<not> b) \<notin> set os"
    using inj_onD [OF inj, of "OSwitch ty b" "OSwitch ty (\<not> b)"] b by auto
  moreover have "map_of (map (opt_attr f) os) ty = Some (flag_byte b)"
    using map_of_opts [OF assms(1) b, of f] by simp
  ultimately show ?thesis using b
    by (cases b) (simp_all add: switch_of_def attr_def opt_switch_def flag_byte_def)
next
  case False
  have "OSwitch ty b \<notin> set os" for b
    using False imageI [of "OSwitch ty b" "set os" opt_type] by auto
  with map_of_opts_None [OF False, of f] show ?thesis
    by (simp add: switch_of_def attr_def opt_switch_def)
qed

lemma opts_policy_ok:
  assumes "distinct (map opt_type os)" "list_all (opt_ok f) os"
  shows "policy_ok (Some (map_of (map (opt_attr f) os)))"
  unfolding policy_ok_def
proof (intro allI impI)
  fix a p assume "attr (Some (map_of (map (opt_attr f) os))) a = Some p"
  then have "map_of (map (opt_attr f) os) a = Some p" by (simp add: attr_def)
  then have "(a, p) \<in> set (map (opt_attr f) os)" by (rule map_of_SomeD)
  then obtain opt where o: "opt \<in> set os" "opt_attr f opt = (a, p)" by auto
  show "case pval_policy a of Some NLA_U8 \<Rightarrow> 1 \<le> length p | Some NLA_U32 \<Rightarrow> 4 \<le> length p | None \<Rightarrow> True"
  proof (cases opt)
    case (OLink d)
    with o show ?thesis by (auto simp: pval_policy_def ifla_pval_defs)
  next
    case (OSwitch t b)
    moreover from this o(1) assms(2) have "IFLA_PVAL_IPOPT \<le> t" by (auto simp: list_all_iff)
    ultimately show ?thesis using o
      by (auto simp: pval_policy_def ifla_pval_defs flag_byte_def split: option.split nla_type.split)
  qed
qed

lemma opts_configure:
  assumes "distinct (map opt_type os)" "list_all (opt_ok f) os"
  shows "pval_nl_config (Some (map_of (map (opt_attr f) os))) pdev = Some (apply_opts os pdev)"
  using nl_config_ok [OF opts_policy_ok [OF assms]] opts_switch_of [OF assms]
  by (simp add: configured_def apply_opts_def ifla_pval_defs)

text \<open>
  The kernel reads the attributes with \<open>nla_parse\<close> for the types up to \<open>IFLA_PVAL_MAX\<close>. What is
  needed of it: in a stream of attributes of these types, without the type zero and without
  duplicates, that the policy accepts, it finds each one.
\<close>

definition nla_parse_ok :: "(bytes \<Rightarrow> attrs) \<Rightarrow> bool" where
  "nla_parse_ok rd \<longleftrightarrow> (\<forall>as bss. list_all2 attr_enc as bss \<longrightarrow> distinct (map fst as) \<longrightarrow>
     list_all (\<lambda>a. 1 \<le> fst a \<and> fst a \<le> IFLA_PVAL_MAX) as \<longrightarrow> policy_ok (Some (map_of as)) \<longrightarrow>
     rd (concat bss) = map_of as)"

lemma msg_attrs_read:
  assumes "msg_attrs base n (map (opt_attr f) os)" "distinct (map opt_type os)" "list_all (opt_ok f) os"
    and "nla_parse_ok rd"
  shows "rd (drop base (take (nm_len n) (nm_buf n))) = map_of (map (opt_attr f) os)"
proof -
  have "list_all (\<lambda>a. 1 \<le> fst a \<and> fst a \<le> IFLA_PVAL_MAX) (map (opt_attr f) os)"
    using assms(3) opt_type_bounds by (fastforce simp: list_all_iff IFLA_PVAL_MAX_def)
  moreover have "distinct (map fst (map (opt_attr f) os))" using assms(2) by (simp add: comp_def)
  ultimately show ?thesis
    using assms(1,4) opts_policy_ok [OF assms(2,3)] by (auto simp: msg_attrs_def nla_parse_ok_def)
qed

text \<open>
  C35. The command line configures the device. Let the options on the line be valid and of
  different types, and let the message have room for them below the 1024 bytes that
  \<open>pval_parse_opt\<close> allows. Let the kernel's reader find each attribute of a stream that the
  policy accepts, whose types are between 1 and \<open>IFLA_PVAL_MAX\<close> and have no duplicates. Then
  \<open>pval_parse_opt\<close> succeeds, and configuring any device with the attributes
  of the resulting message sets exactly the switches named on the line, to the values given,
  and leaves the others alone; a \<open>link\<close> option arrives as the index of the named interface.
\<close>

theorem cmdline_configures:
  assumes "line_ok f base n os" and "nla_parse_ok rd"
  shows "\<exists>n'. pval_parse_opt f (concat (map opt_words os)) n = Some (Ret (0, n')) \<and>
    (let tb = rd (drop base (take (nm_len n') (nm_buf n'))) in
     pval_nl_config (Some tb) pdev = Some (apply_opts os pdev) \<and>
     (\<forall>d. OLink d \<in> set os \<longrightarrow> Option.bind (tb IFLA_PVAL_LINK) nla_get_u32 = Some (unat (f d))))"
proof -
  have ok: "list_all (opt_ok f) os" and d: "distinct (map opt_type os)" using assms(1) by (auto simp: line_ok_def)
  obtain n' where n': "pval_parse_opt f (concat (map opt_words os)) n = Some (Ret (0, n'))"
      "msg_attrs base n' (map (opt_attr f) os)"
    using parse_line [OF assms(1), of "[]"] by auto
  note tb = msg_attrs_read [OF n'(2) d ok assms(2)]
  have "Option.bind (map_of (map (opt_attr f) os) IFLA_PVAL_LINK) nla_get_u32 = Some (unat (f dv))"
    if "OLink dv \<in> set os" for dv
  proof -
    have "unat (f dv) < 256 ^ 4" using unsigned_less [of "f dv"] by simp
    then show ?thesis using map_of_opts [OF d that, of f]
      by (simp add: nla_get_u32_def mem_read_def le_val_le_bytes)
  qed
  with n'(1) tb opts_configure [OF d ok] show ?thesis by (auto simp: Let_def)
qed

definition example_opts :: "opt list" where
  "example_opts = [OLink ''eth0'', OSwitch IFLA_PVAL_IPOPT True, OSwitch IFLA_PVAL_TXBUSYDROP False]"

lemma example_line_ok: "line_ok (\<lambda>_. 2) 32 example_msg example_opts"
  using example_msg_attrs by (simp add: line_ok_def example_opts_def example_msg_def ifla_pval_defs)

text \<open>
  A reader like the kernel's: the two flags above the type are masked, the type zero and the
  types above the largest are skipped.
\<close>

definition example_nla_parse :: "bytes \<Rightarrow> attrs" where
  "example_nla_parse bs = (fst (parse_rtattr_flags IFLA_PVAL_MAX bs 0xC000))(0 := None)"

lemma flags_masked:
  assumes "1 \<le> ty" "ty \<le> 7"
  shows "unat (word_of_nat ty AND NOT 0xC000 :: u16) = ty"
proof -
  have "ty \<in> {1, 2, 3, 4, 5, 6, 7}" using assms by auto
  then show ?thesis by auto
qed

interpretation nla: attr_reader "\<lambda>a bs. attr_enc a bs \<and> 1 \<le> fst a \<and> fst a \<le> IFLA_PVAL_MAX" example_nla_parse
proof unfold_locales
  show "example_nla_parse [] = Map.empty"
    by (simp add: example_nla_parse_def parse_rtattr_flags_def parse_loop.simps)
next
  fix a :: "nat \<times> bytes" and bs rest
  assume e: "attr_enc a bs \<and> 1 \<le> fst a \<and> fst a \<le> IFLA_PVAL_MAX"
  then have e': "attr_enc (fst a, snd a) bs" and b: "1 \<le> fst a" "fst a \<le> 7" by (simp_all add: IFLA_PVAL_MAX_def)
  let ?tb = "[fst a \<mapsto> snd a]"
  have "parse_rtattr_flags IFLA_PVAL_MAX (bs @ rest) 0xC000 =
      parse_loop IFLA_PVAL_MAX 0xC000 ?tb rest (int (length rest))"
    unfolding parse_rtattr_flags_def
    using parse_step [OF e', of rest] attr_encD(2,3) [OF e', of rest] flags_masked [OF b] e
    by (subst parse_loop.simps) (simp add: Let_def)
  also have "\<dots> = (fst (parse_rtattr_flags IFLA_PVAL_MAX rest 0xC000) ++ ?tb, snd (parse_rtattr_flags IFLA_PVAL_MAX rest 0xC000))"
    unfolding parse_rtattr_flags_def by (rule parse_loop_table)
  finally show "example_nla_parse (bs @ rest) = (example_nla_parse rest)(fst a \<mapsto> snd a)"
    using b by (auto simp: example_nla_parse_def)
qed

lemma example_nla_parse_ok: "nla_parse_ok example_nla_parse"
  unfolding nla_parse_ok_def
proof (intro allI impI)
  fix as :: "(nat \<times> bytes) list" and bss
  assume "list_all2 attr_enc as bss" and "list_all (\<lambda>a. 1 \<le> fst a \<and> fst a \<le> IFLA_PVAL_MAX) as"
  then have "list_all2 (\<lambda>a bs. attr_enc a bs \<and> 1 \<le> fst a \<and> fst a \<le> IFLA_PVAL_MAX) as bss"
    by (auto simp: list_all2_conv_all_nth list_all_length)
  then show "example_nla_parse (concat bss) = map_of as" by (rule nla.parse_stream)
qed

theorem cmdline_configures_witness:
  "\<exists>n'. pval_parse_opt (\<lambda>_. 2) [''link'', ''eth0'', ''ipopt'', ''on'', ''txbusydrop'', ''off''] example_msg
     = Some (Ret (0, n')) \<and>
   pval_nl_config (Some (example_nla_parse (drop 32 (take (nm_len n') (nm_buf n'))))) example_pdev =
     Some (apply_opts example_opts example_pdev)"
proof -
  have w: "concat (map opt_words example_opts) = [''link'', ''eth0'', ''ipopt'', ''on'', ''txbusydrop'', ''off'']"
    by code_simp
  from cmdline_configures [OF example_line_ok example_nla_parse_ok, of example_pdev]
  show ?thesis unfolding w Let_def by blast
qed

text \<open>
  C36. What the parser refuses. Behind any valid line: a second option of a type that was on
  the line ends the program, whatever its value; so do a keyword without a value and a
  switch whose value is no abbreviation of \<open>on\<close> or \<open>off\<close>; an unknown word makes it return
  \<open>-1\<close> with the attributes so far left in the message.
\<close>

theorem cmdline_errors:
  assumes "line_ok f base n os" "1 \<le> ty" "ty \<le> 7"
  shows "(ty \<in> opt_type ` set os \<longrightarrow>
      pval_parse_opt f (concat (map opt_words os) @ key_of ty # arg # rest) n = Some (duparg2 (key_of ty) arg)) \<and>
    pval_parse_opt f (concat (map opt_words os) @ [key_of ty]) n = Some incomplete_command \<and>
    (ty \<notin> opt_type ` set os \<longrightarrow> ty \<noteq> IFLA_PVAL_LINK \<longrightarrow> \<not> matches arg ''on'' \<longrightarrow> \<not> matches arg ''off'' \<longrightarrow>
      pval_parse_opt f (concat (map opt_words os) @ key_of ty # arg # rest) n =
        Some (invarg ''invalid parameter'' arg)) \<and>
    (keyword w = None \<longrightarrow> (\<exists>n'. pval_parse_opt f (concat (map opt_words os) @ w # rest) n = Some (Ret (- 1, n')) \<and>
      msg_attrs base n' (map (opt_attr f) os)))"
proof -
  note k = keyword_key_of [OF assms(2,3)]
  have t: "ty < 64" using assms(3) by simp
  have "\<exists>n'. pval_parse_opt f (concat (map opt_words os) @ tail) n =
      parse_opts f (seen (map opt_type os)) tail n' \<and> msg_attrs base n' (map (opt_attr f) os)" for tail
    by (rule parse_line [OF assms(1)])
  note P = this
  have 1: "pval_parse_opt f (concat (map opt_words os) @ key_of ty # arg # rest) n = Some (duparg2 (key_of ty) arg)"
    if "ty \<in> opt_type ` set os"
    using P [of "key_of ty # arg # rest"] that k t by (auto simp: check_duparg_seen duparg2_def)
  have 2: "pval_parse_opt f (concat (map opt_words os) @ [key_of ty]) n = Some incomplete_command"
    using P [of "[key_of ty]"] k by auto
  have 3: "pval_parse_opt f (concat (map opt_words os) @ key_of ty # arg # rest) n =
      Some (invarg ''invalid parameter'' arg)"
    if "ty \<notin> opt_type ` set os" "ty \<noteq> IFLA_PVAL_LINK" "\<not> matches arg ''on''" "\<not> matches arg ''off''"
    using P [of "key_of ty # arg # rest"] that k t
    by (auto simp: check_duparg_seen opt_value_def switch_value_def invarg_def)
  have 4: "\<exists>n'. pval_parse_opt f (concat (map opt_words os) @ w # rest) n = Some (Ret (- 1, n')) \<and>
      msg_attrs base n' (map (opt_attr f) os)" if "keyword w = None"
    using P [of "w # rest"] that by (cases rest) auto
  from 1 2 3 4 show ?thesis by blast
qed

theorem cmdline_errors_witness:
  "pval_parse_opt (\<lambda>_. 2) [''link'', ''eth0'', ''ipopt'', ''on'', ''txbusydrop'', ''off'', ''ipopt'', ''off''] example_msg
     = Some (duparg2 ''ipopt'' ''off'')"
proof -
  have w: "concat (map opt_words example_opts) @ [key_of 2, ''off''] =
      [''link'', ''eth0'', ''ipopt'', ''on'', ''txbusydrop'', ''off'', ''ipopt'', ''off'']" "key_of 2 = ''ipopt''"
    by code_simp+
  have "2 \<in> opt_type ` set example_opts" by (simp add: example_opts_def ifla_pval_defs)
  then show ?thesis using cmdline_errors [OF example_line_ok, of 2 "''off''" "[]"] w by simp
qed

end
