(* ===== verification/Iplink_Report.thy ===== *)
theory Iplink_Report
  imports Iplink_Correct
begin

text \<open>
  The report of a device, read by \<open>libnetlink\<close>, printed by \<open>pval_print_opt\<close>, split into words
  by \<open>makeargs\<close> and given back to \<open>pval_parse_opt\<close>.
\<close>

section \<open>Splitting lines\<close>

definition word_ok :: "string \<Rightarrow> bool" where
  "word_ok w \<longleftrightarrow> w \<noteq> [] \<and> list_all (\<lambda>c. \<not> is_ws c) w \<and> hd w \<noteq> CHR 0x27 \<and> hd w \<noteq> CHR 0x22"

definition spaced :: "string list \<Rightarrow> string" where
  "spaced ws = concat (map (\<lambda>w. w @ '' '') ws)"

lemma makeargs_spaced:
  "list_all word_ok ws \<Longrightarrow> argc + length ws < maxargs \<Longrightarrow> makeargs_loop maxargs argc (spaced ws) = Ret ws"
proof (induction ws arbitrary: argc)
  case Nil
  then show ?case by (subst makeargs_loop.simps) (simp add: spaced_def)
next
  case (Cons w ws)
  then obtain c cs where w: "w = c # cs" "\<not> is_ws c" "c \<noteq> CHR 0x27" "c \<noteq> CHR 0x22" "list_all (\<lambda>c. \<not> is_ws c) cs"
    by (cases w) (auto simp: word_ok_def)
  have sp: "spaced (w # ws) = c # cs @ CHR '' '' # spaced ws" by (simp add: spaced_def w)
  have "is_ws (CHR '' '')" by (simp add: is_ws_def)
  then have tw: "takeWhile (\<lambda>x. \<not> is_ws x) (cs @ CHR '' '' # spaced ws) = cs"
    using w(5) by (subst takeWhile_append2) (auto simp: list_all_iff)
  have "makeargs_loop maxargs (Suc argc) (spaced ws) = Ret ws"
    using Cons.prems by (intro Cons.IH) simp_all
  then show ?case using Cons.prems(2) w(2-4)
    unfolding sp by (subst makeargs_loop.simps) (simp add: tw w(1))
qed

section \<open>The report\<close>

definition report_opts :: "string \<Rightarrow> pval_dev \<Rightarrow> opt list" where
  "report_opts name pdev = [OLink name, OSwitch IFLA_PVAL_IPOPT (pd_ipopt pdev),
     OSwitch IFLA_PVAL_TXTSTAMP (pd_txtstamp pdev), OSwitch IFLA_PVAL_RXTSTAMP (pd_rxtstamp pdev),
     OSwitch IFLA_PVAL_TXCOPY (pd_txcopy pdev), OSwitch IFLA_PVAL_RXCOPY (pd_rxcopy pdev),
     OSwitch IFLA_PVAL_TXBUSYDROP (pd_txbusydrop pdev)]"

lemma attr_enc_nlattr:
  assumes "ty < 65536" "length p < 65000"
  shows "attr_enc (ty, p) (nlattr_bytes ty p)"
  using assms
  by (auto simp: attr_enc_def nlattr_bytes_def rtattr_hdr_def nla_total_size_def NLA_ALIGN_def RTA_ALIGN_def
      NLA_HDRLEN_def)

lemma report_read:
  assumes "f name = word_of_nat link" "link < 2 ^ 32"
  shows "fst (parse_rtattr 7 (link_info link pdev)) = map_of (map (opt_attr f) (report_opts name pdev))"
proof -
  let ?as = "map (opt_attr f) (report_opts name pdev)"
  have "unat (f name) = link" using assms by (simp add: unat_u32_of_nat)
  then have "link_info link pdev = concat (map (\<lambda>(ty, p). nlattr_bytes ty p) ?as)"
    by (simp add: link_info_def report_opts_def)
  moreover have "list_all2 (\<lambda>a bs. attr_enc a bs \<and> fst a \<le> 7) ?as (map (\<lambda>(ty, p). nlattr_bytes ty p) ?as)"
    by (simp add: report_opts_def attr_enc_nlattr ifla_pval_defs flag_byte_def)
  ultimately show ?thesis using rtt.parse_stream [of 7 ?as] by simp
qed

lemma report_distinct: "distinct (map opt_type (report_opts name pdev))"
  by (simp add: report_opts_def ifla_pval_defs)

lemma report_words:
  "concat (map opt_words (report_opts name pdev)) =
     [''link'', name, ''ipopt'', opt_arg (OSwitch 2 (pd_ipopt pdev)), ''txtstamp'', opt_arg (OSwitch 3 (pd_txtstamp pdev)),
      ''rxtstamp'', opt_arg (OSwitch 4 (pd_rxtstamp pdev)), ''txcopy'', opt_arg (OSwitch 5 (pd_txcopy pdev)),
      ''rxcopy'', opt_arg (OSwitch 6 (pd_rxcopy pdev)), ''txbusydrop'', opt_arg (OSwitch 7 (pd_txbusydrop pdev))]"
  by (simp add: report_opts_def opt_words_def key_of_def keywords_opt_def ifla_pval_defs)

lemma report_map_of:
  "opt \<in> set (report_opts name pdev) \<Longrightarrow>
   map_of (map (opt_attr f) (report_opts name pdev)) (opt_type opt) = Some (snd (opt_attr f opt))"
  by (rule map_of_opts [OF report_distinct])

lemma print_report:
  assumes "f name = word_of_nat link" "link < 2 ^ 32" "indextoname (word_of_nat link) \<noteq> None"
    and "ll_index_to_name indextoname m (word_of_nat link) = name"
  shows "pval_print_opt indextoname m (Some (map_of (map (opt_attr f) (report_opts name pdev)))) =
     Some (spaced (concat (map opt_words (report_opts name pdev))))"
proof -
  have "unat (f name) < 256 ^ 4" using unsigned_less [of "f name"] by simp
  then have l: "rta_getattr_u32 (le_bytes 4 (unat (f name))) = Some (word_of_nat link)"
    using assms(1) by (simp add: rta_getattr_u32_def mem_read_def le_val_le_bytes)
  show ?thesis
    unfolding report_words using assms(3,4) l
    by (simp add: pval_print_opt_def print_link_def keywords_opt_def print_switch_def report_opts_def
        ifla_pval_defs rta_getattr_u8_def nth_opt_def flag_byte_def spaced_def)
qed

text \<open>
  C37. The report can be given back. For a device on a lower link whose name has no blanks or
  quotes at its start, with room for the report: the report of the kernel module, read and
  printed by \<open>ip\<close>, and split into words, is a line that \<open>pval_parse_opt\<close> accepts, and the
  message it builds carries exactly the attributes of the report.
\<close>

theorem report_given_back:
  assumes "pd_link pdev = Some link" "link < 2 ^ 32" "56 \<le> room"
    and "f name = word_of_nat link" "f name \<noteq> 0" "word_ok name"
    and "indextoname (word_of_nat link) \<noteq> None" "ll_index_to_name indextoname m (word_of_nat link) = name"
    and "msg_attrs base n []" "nm_len n + 56 \<le> 1024" "1024 \<le> length (nm_buf n)"
  shows "\<exists>msg t argv n' as. pval_fill_info room pdev [] = Some (Inr msg) \<and>
    pval_print_opt indextoname m (Some (fst (parse_rtattr IFLA_PVAL_MAX msg))) = Some t \<and>
    makeargs t 64 = Ret argv \<and> pval_parse_opt f argv n = Some (Ret (0, n')) \<and>
    msg_attrs base n' as \<and> map_of as = fst (parse_rtattr IFLA_PVAL_MAX msg)"
proof -
  let ?os = "report_opts name pdev"
  let ?argv = "concat (map opt_words ?os)"
  have fill: "pval_fill_info room pdev [] = Some (Inr (link_info link pdev))"
    using assms(1,3) by (simp add: pval_fill_info_def fill_switches_def nla_put_def link_info_def)
  have max: "IFLA_PVAL_MAX = 7" by (simp add: ifla_pval_defs)
  have read: "fst (parse_rtattr IFLA_PVAL_MAX (link_info link pdev)) = map_of (map (opt_attr f) ?os)"
    unfolding max by (rule report_read) (rule assms)+
  have "list_all word_ok ?argv"
    unfolding report_words using assms(6) by (simp add: word_ok_def is_ws_def)
  then have split: "makeargs (spaced ?argv) 64 = Ret ?argv"
    unfolding makeargs_def by (rule makeargs_spaced) (simp add: report_words)
  have "line_ok f base n ?os"
    using assms(5,9,10,11) report_distinct [of name pdev]
    by (simp add: line_ok_def report_opts_def ifla_pval_defs)
  from parse_line [OF this, of "[]"] obtain n' where
    "pval_parse_opt f ?argv n = Some (Ret (0, n'))" "msg_attrs base n' (map (opt_attr f) ?os)" by auto
  with fill print_report [where f = f and name = name and pdev = pdev, OF assms(4,2,7,8)] read split show ?thesis by auto
qed

theorem report_given_back_witness:
  "\<exists>msg t argv n'. pval_fill_info 4096 example_pdev [] = Some (Inr msg) \<and>
    pval_print_opt (\<lambda>_. Some ''eth0'') ll_empty (Some (fst (parse_rtattr IFLA_PVAL_MAX msg))) = Some t \<and>
    makeargs t 64 = Ret argv \<and> pval_parse_opt (\<lambda>_. 3) argv example_msg = Some (Ret (0, n'))"
proof -
  have "word_ok ''eth0''" by code_simp
  moreover have "ll_index_to_name (\<lambda>_. Some ''eth0'') ll_empty (word_of_nat 3) = ''eth0''"
    by (simp add: ll_index_to_name_def ll_get_by_index_def chain_find_def ll_empty_def)
  ultimately show ?thesis
    using report_given_back [of example_pdev 3 4096 "\<lambda>_. 3" "''eth0''" "\<lambda>_. Some ''eth0''" ll_empty 32 example_msg]
      example_msg_attrs
    by (simp add: example_pdev_simps example_msg_def) blast
qed

end
