(* ===== verification/In_Cksum.thy ===== *)
theory In_Cksum
  imports Inet_Sum
begin

text \<open>
  The checksum routine of tcpdump, \<open>tcpdump/in_cksum.c\<close>. The data are given in several pieces
  at any addresses; words are read in host order from even addresses only. The result is the
  complement of the Internet checksum, with its bytes in network order.
\<close>

section \<open>in\_cksum\<close>

text \<open>\<open>REDUCE\<close> on the sum, an \<open>int\<close>. The sum only grows between two reductions, so it has
  overflowed exactly if it is too large for an \<open>int\<close> here (\<open>None\<close>).\<close>

definition REDUCE :: "nat \<Rightarrow> nat option" where
  "REDUCE acc = (if acc \<ge> 2 ^ 31 then None
     else let s = acc mod 65536 + acc div 65536 in Some (if s > 65535 then s - 65535 else s))"

text \<open>The sum of \<open>k\<close> words read in little-endian order.\<close>

fun words_sum :: "nat \<Rightarrow> bytes \<Rightarrow> nat" where
  "words_sum (Suc k) (a # b # bs) = unat a + 256 * unat b + words_sum k bs"
| "words_sum _ _ = 0"

text \<open>A loop that adds \<open>k\<close> words per round, as long as there are so many.\<close>

function add_loop :: "nat \<Rightarrow> nat \<Rightarrow> bytes \<Rightarrow> nat \<times> bytes" where
  "add_loop k acc w =
     (if 0 < k \<and> 2 * k \<le> length w then add_loop k (acc + words_sum k w) (drop (2 * k) w) else (acc, w))"
  by pat_completeness auto
termination
  by (relation "measure (\<lambda>(k, acc, w). length w)") auto

declare add_loop.simps [simp del]

text \<open>Between two pieces: the sum, and the first byte of a word that is not complete
  (\<open>mlen = -1\<close>).\<close>

record cksum_state =
  ck_acc :: nat
  ck_c0 :: "u8 option"

text \<open>One piece of memory: whether its address is odd, and the bytes.\<close>

type_synonym cksum_vec = "bool \<times> bytes"

fun join_byte :: "cksum_vec \<Rightarrow> cksum_state \<Rightarrow> nat \<times> bool \<times> bytes" where
  "join_byte (odd_ptr, w) st =
     (case (ck_c0 st, w) of
        (Some c0, c1 # r) \<Rightarrow> (ck_acc st + unat c0 + 256 * unat c1, \<not> odd_ptr, r)
      | _ \<Rightarrow> (ck_acc st, odd_ptr, w))"

definition sum_even :: "nat \<Rightarrow> bytes \<Rightarrow> cksum_state option" where
  "sum_even acc w =
     (let (acc1, w1) = add_loop 16 acc w; (acc2, w2) = add_loop 4 acc1 w1 in
      if w2 = [] then Some \<lparr>ck_acc = acc2, ck_c0 = None\<rparr>
      else map_option (\<lambda>r. let (acc3, w3) = add_loop 1 r w2 in
             \<lparr>ck_acc = acc3, ck_c0 = (case w3 of [] \<Rightarrow> None | b # _ \<Rightarrow> Some b)\<rparr>) (REDUCE acc2))"

definition sum_swapped :: "u8 \<Rightarrow> nat \<Rightarrow> bytes \<Rightarrow> cksum_state option" where
  "sum_swapped c0 acc w =
     (let (acc1, w1) = add_loop 16 acc w; (acc2, w2) = add_loop 4 acc1 w1 in
      Option.bind (REDUCE acc2) (\<lambda>r. let (acc3, w3) = add_loop 1 r w2 in
        map_option (\<lambda>s. case w3 of
            [] \<Rightarrow> \<lparr>ck_acc = 256 * s, ck_c0 = Some c0\<rparr>
          | b # _ \<Rightarrow> \<lparr>ck_acc = 256 * s + unat c0 + 256 * unat b, ck_c0 = None\<rparr>) (REDUCE acc3)))"

definition in_cksum_chunk :: "cksum_vec \<Rightarrow> cksum_state \<Rightarrow> cksum_state option" where
  "in_cksum_chunk vec st =
     (if snd vec = [] then Some st
      else let (acc, odd_ptr, w) = join_byte vec st in
        case w of
          c # r \<Rightarrow> if odd_ptr then Option.bind (REDUCE acc) (\<lambda>s. sum_swapped c (256 * s) r)
                   else sum_even acc w
        | [] \<Rightarrow> sum_even acc w)"

fun in_cksum_loop :: "cksum_vec list \<Rightarrow> cksum_state \<Rightarrow> cksum_state option" where
  "in_cksum_loop [] st = Some st"
| "in_cksum_loop (v # vs) st = Option.bind (in_cksum_chunk v st) (in_cksum_loop vs)"

definition in_cksum :: "cksum_vec list \<Rightarrow> u16 option" where
  "in_cksum vec = Option.bind (in_cksum_loop vec \<lparr>ck_acc = 0, ck_c0 = None\<rparr>) (\<lambda>st.
     map_option (\<lambda>s. word_of_nat (65535 - s))
       (REDUCE (ck_acc st + (case ck_c0 st of None \<Rightarrow> 0 | Some c0 \<Rightarrow> unat c0))))"

definition in_cksum_shouldbe :: "u16 \<Rightarrow> u16 \<Rightarrow> u16" where
  "in_cksum_shouldbe acc computed_sum =
     (let s = unat acc + unat (bswap16 computed_sum);
          s1 = s mod 65536 + s div 65536;
          s2 = s1 mod 65536 + s1 div 65536
      in word_of_nat s2)"

section \<open>Sums modulo 65535\<close>

text \<open>Equal as one's complement numbers, with the two zeros told apart.\<close>

definition ones_eq :: "nat \<Rightarrow> nat \<Rightarrow> bool" where
  "ones_eq a b \<longleftrightarrow> a mod 65535 = b mod 65535 \<and> (a = 0 \<longleftrightarrow> b = 0)"

lemma ones_eq_refl [simp]: "ones_eq a a" by (simp add: ones_eq_def)

lemma ones_eq_trans [trans]: "ones_eq a b \<Longrightarrow> ones_eq b c \<Longrightarrow> ones_eq a c" by (simp add: ones_eq_def)

lemma ones_eq_add: "ones_eq a b \<Longrightarrow> ones_eq c d \<Longrightarrow> ones_eq (a + c) (b + d)"
  by (auto simp: ones_eq_def intro: mod_add_cong)

lemma ones_eq_mult: "ones_eq a b \<Longrightarrow> ones_eq (k * a) (k * b)"
  by (auto simp: ones_eq_def intro: mod_mult_cong)

lemma ones_eq_swap: "ones_eq (256 * (256 * a)) a"
proof -
  have "256 * (256 * a) mod 65535 = (a + 65535 * a) mod 65535" by simp
  also have "\<dots> = a mod 65535" by (rule mod_mult_self2)
  finally show ?thesis by (simp add: ones_eq_def)
qed

lemma REDUCE_eq:
  assumes "REDUCE a = Some r"
  shows "ones_eq r a" "r \<le> 65535"
proof -
  define q m where "q = a div 65536" and "m = a mod 65536"
  have a: "a < 2 ^ 31" and r: "r = (if m + q > 65535 then m + q - 65535 else m + q)"
    using assms by (auto simp: REDUCE_def Let_def q_def m_def split: if_splits)
  have "a = 65536 * q + m" by (simp add: q_def m_def)
  then have d: "a = (m + q) + 65535 * q" by simp
  have b: "q < 32768" "m < 65536" using a by (auto simp: q_def m_def)
  show "r \<le> 65535" using b unfolding r by auto
  have "a mod 65535 = (m + q) mod 65535" unfolding d by (rule mod_mult_self2)
  moreover have "r mod 65535 = (m + q) mod 65535" unfolding r by (simp add: le_mod_geq)
  moreover have "r = 0 \<longleftrightarrow> a = 0" using b unfolding r d by auto
  ultimately show "ones_eq r a" by (simp add: ones_eq_def)
qed

lemma REDUCE_total: "a < 2 ^ 31 \<Longrightarrow> \<exists>r. REDUCE a = Some r"
  by (simp add: REDUCE_def Let_def)

lemma REDUCE_le: "REDUCE a = Some r \<Longrightarrow> r \<le> a"
proof -
  have "a mod 65536 + a div 65536 \<le> a mod 65536 + 65536 * (a div 65536)" by simp
  then have "a mod 65536 + a div 65536 \<le> a" by simp
  then show "REDUCE a = Some r \<Longrightarrow> r \<le> a" by (auto simp: REDUCE_def Let_def split: if_splits)
qed

section \<open>Little-endian sums\<close>

fun le_sum :: "bytes \<Rightarrow> nat" where
  "le_sum [] = 0"
| "le_sum [a] = unat a"
| "le_sum (a # b # bs) = unat a + 256 * unat b + le_sum bs"

lemma le_sum_even: "even (length xs) \<Longrightarrow> le_sum (xs @ ys) = le_sum xs + le_sum ys"
  by (induction xs rule: le_sum.induct) auto

lemma le_sum_odd: "odd (length xs) \<Longrightarrow> le_sum (xs @ b # ys) = le_sum xs + 256 * unat b + le_sum ys"
  by (induction xs rule: le_sum.induct) auto

lemma le_sum_shift: "ones_eq (le_sum (c # w)) (unat c + 256 * le_sum w)"
proof (induction w arbitrary: c rule: le_sum.induct)
  case (3 a b bs)
  have "ones_eq (le_sum (b # bs)) (unat b + 256 * le_sum bs)" by (rule 3)
  then have "ones_eq (unat c + 256 * unat a + le_sum (b # bs)) (unat c + 256 * unat a + (unat b + 256 * le_sum bs))"
    by (intro ones_eq_add) simp_all
  also have "ones_eq \<dots> (unat c + 256 * unat a + (256 * (256 * unat b) + 256 * le_sum bs))"
    using ones_eq_swap [of "unat b"] by (intro ones_eq_add) (simp_all add: ones_eq_def)
  finally show ?case by (simp add: algebra_simps)
qed simp_all

lemma ones_sum_le_sum: "ones_eq (ones_sum bs) (256 * le_sum bs)"
proof (induction bs rule: ones_sum.induct)
  case (3 a b bs)
  have "ones_eq (256 * unat a + unat b + ones_sum bs) (256 * unat a + 256 * (256 * unat b) + 256 * le_sum bs)"
    using ones_eq_swap [of "unat b"] 3 by (intro ones_eq_add) (simp_all add: ones_eq_def)
  then show ?case by (simp add: algebra_simps)
qed simp_all

lemma words_sum_le_sum: "2 * k \<le> length w \<Longrightarrow> le_sum w = words_sum k w + le_sum (drop (2 * k) w)"
proof (induction k arbitrary: w)
  case (Suc k)
  then obtain a b bs where "w = a # b # bs" by (cases w; cases "tl w") auto
  with Suc show ?case by simp
qed simp

lemma words_sum_bound: "2 * words_sum k w \<le> 65536 * (2 * k)"
proof (induction k w rule: words_sum.induct)
  case (1 k a b bs)
  have "unat a < 256" "unat b < 256" by (rule unat_u8_less)+
  with 1 show ?case by simp
qed simp_all

lemma add_loop_sum:
  "add_loop k acc w = (acc', w') \<Longrightarrow> 0 < k \<Longrightarrow>
   acc' + le_sum w' = acc + le_sum w \<and> length w' < 2 * k \<and> even (length w') = even (length w) \<and>
   2 * acc' + 65536 * length w' \<le> 2 * acc + 65536 * length w"
proof (induction k acc w rule: add_loop.induct)
  case (1 k acc w)
  show ?case
  proof (cases "2 * k \<le> length w")
    case True
    with "1.prems" have "add_loop k (acc + words_sum k w) (drop (2 * k) w) = (acc', w')"
      using add_loop.simps [of k acc w] by simp
    with 1 True words_sum_le_sum [OF True] words_sum_bound [of k w] show ?thesis by auto
  next
    case False
    with "1.prems" show ?thesis using add_loop.simps [of k acc w] by auto
  qed
qed

section \<open>One piece\<close>

definition ck_val :: "cksum_state \<Rightarrow> nat" where
  "ck_val st = ck_acc st + (case ck_c0 st of None \<Rightarrow> 0 | Some c \<Rightarrow> unat c)"

definition ck_room :: "cksum_state \<Rightarrow> nat" where
  "ck_room st = 2 * ck_acc st + (if ck_c0 st = None then 0 else 65536)"

lemma two_loops:
  assumes "add_loop 16 acc w = (a1, w1)" "add_loop 4 a1 w1 = (a2, w2)"
  shows "a2 + le_sum w2 = acc + le_sum w" "even (length w2) = even (length w)"
    "2 * a2 + 65536 * length w2 \<le> 2 * acc + 65536 * length w"
  using add_loop_sum [OF assms(1)] add_loop_sum [OF assms(2)] by auto

lemma sum_even_ok:
  assumes "2 * acc + 65536 * length w < 2 ^ 32"
  shows "\<exists>st. sum_even acc w = Some st \<and> ones_eq (ck_val st) (acc + le_sum w) \<and>
    (ck_c0 st = None \<longleftrightarrow> even (length w)) \<and> ck_room st \<le> 2 * acc + 65536 * length w"
proof -
  obtain a1 w1 a2 w2 where l: "add_loop 16 acc w = (a1, w1)" "add_loop 4 a1 w1 = (a2, w2)"
    by (metis surj_pair)
  note t = two_loops [OF l]
  show ?thesis
  proof (cases "w2 = []")
    case True
    with t show ?thesis by (simp add: sum_even_def l ck_val_def ck_room_def)
  next
    case False
    have "a2 < 2 ^ 31" using t(3) assms by simp
    then obtain r where r: "REDUCE a2 = Some r" using REDUCE_total by blast
    obtain a3 w3 where l3: "add_loop 1 r w2 = (a3, w3)" by fastforce
    note t3 = add_loop_sum [OF l3]
    have "ones_eq (r + le_sum w2) (a2 + le_sum w2)" using REDUCE_eq(1) [OF r] by (intro ones_eq_add) simp_all
    then have v: "ones_eq (a3 + le_sum w3) (acc + le_sum w)" using t3 t(1) by simp
    have "length w3 < 2" using t3 by simp
    then consider "w3 = []" | b where "w3 = [b]" by (cases w3) auto
    then show ?thesis using False t t3 v l l3 r REDUCE_le [OF r]
      by cases (auto simp: sum_even_def ck_val_def ck_room_def)
  qed
qed

lemma sum_swapped_ok:
  assumes "2 * acc + 65536 * length w < 2 ^ 32"
  shows "\<exists>st. sum_swapped c acc w = Some st \<and> ones_eq (ck_val st) (256 * acc + unat c + 256 * le_sum w) \<and>
    (ck_c0 st = None \<longleftrightarrow> odd (length w)) \<and> ck_room st \<le> 2 ^ 25 + 65536 * Suc (length w)"
proof -
  obtain a1 w1 a2 w2 where l: "add_loop 16 acc w = (a1, w1)" "add_loop 4 a1 w1 = (a2, w2)"
    by (metis surj_pair)
  note t = two_loops [OF l]
  have "a2 < 2 ^ 31" using t(3) assms by simp
  then obtain r where r: "REDUCE a2 = Some r" using REDUCE_total by blast
  obtain a3 w3 where l3: "add_loop 1 r w2 = (a3, w3)" by fastforce
  note t3 = add_loop_sum [OF l3]
  have "a3 < 2 ^ 31" using t(3) t3 REDUCE_le [OF r] assms by simp
  then obtain q where q: "REDUCE a3 = Some q" using REDUCE_total by blast
  have "ones_eq (q + le_sum w3) (a3 + le_sum w3)" using REDUCE_eq(1) [OF q] by (intro ones_eq_add) simp_all
  also have "a3 + le_sum w3 = r + le_sum w2" using t3 by simp
  also have "ones_eq \<dots> (a2 + le_sum w2)" using REDUCE_eq(1) [OF r] by (intro ones_eq_add) simp_all
  also have "a2 + le_sum w2 = acc + le_sum w" using t(1) .
  finally have "ones_eq (256 * (q + le_sum w3)) (256 * (acc + le_sum w))" by (rule ones_eq_mult)
  from ones_eq_add [OF this ones_eq_refl [of "unat c"]]
  have v: "ones_eq (256 * q + 256 * le_sum w3 + unat c) (256 * acc + 256 * le_sum w + unat c)"
    by (simp only: distrib_left)
  have c: "unat c < 256" by (rule unat_u8_less)
  have "length w3 < 2" using t3 by simp
  then consider "w3 = []" | b where "w3 = [b]" by (cases w3) auto
  then show ?thesis
  proof cases
    case 1
    then have "sum_swapped c acc w = Some \<lparr>ck_acc = 256 * q, ck_c0 = Some c\<rparr>"
      by (simp add: sum_swapped_def l r l3 q del: One_nat_def)
    moreover have "even (length w)" using 1 t(2) t3 by simp
    ultimately show ?thesis using 1 v REDUCE_eq(2) [OF q]
      by (simp add: ck_val_def ck_room_def add.commute add.left_commute)
  next
    case (2 b)
    then have "sum_swapped c acc w = Some \<lparr>ck_acc = 256 * q + unat c + 256 * unat b, ck_c0 = None\<rparr>"
      by (simp add: sum_swapped_def l r l3 q del: One_nat_def)
    moreover have "odd (length w)" using 2 t(2) t3 by simp
    moreover from this have "1 \<le> length w" by (cases w) auto
    moreover have "unat b < 256" by (rule unat_u8_less)
    ultimately show ?thesis using 2 v REDUCE_eq(2) [OF q] c
      by (simp add: ck_val_def ck_room_def add.commute add.left_commute)
  qed
qed

text \<open>What holds between the pieces, when the bytes \<open>xs\<close> have been added.\<close>

definition ck_inv :: "bytes \<Rightarrow> cksum_state \<Rightarrow> bool" where
  "ck_inv xs st \<longleftrightarrow> ones_eq (ck_val st) (le_sum xs) \<and> (ck_c0 st = None \<longleftrightarrow> even (length xs)) \<and>
     ck_room st \<le> 2 ^ 25 + 65536 * length xs"

lemma join_byte_ok:
  assumes "ck_inv xs st" "w \<noteq> []" "join_byte (o', w) st = (acc, o'', w')"
  shows "\<exists>ys. xs @ w = ys @ w' \<and> even (length ys) \<and> ones_eq acc (le_sum ys) \<and>
    2 * acc \<le> 2 ^ 25 + 65536 * length ys"
proof (cases "ck_c0 st")
  case None
  with assms show ?thesis by (intro exI [of _ xs]) (auto simp: ck_inv_def ck_val_def ck_room_def)
next
  case (Some c)
  then obtain d r where w: "w = d # r" using assms(2) by (cases w) auto
  have odd: "odd (length xs)" using assms(1) Some by (simp add: ck_inv_def)
  have a: "acc = ck_acc st + unat c + 256 * unat d" "w' = r" using assms(3) Some w by auto
  have "unat d < 256" "unat c < 256" by (rule unat_u8_less)+
  moreover have "ones_eq (ck_acc st + unat c + 256 * unat d) (le_sum xs + 256 * unat d)"
    using assms(1) Some by (intro ones_eq_add) (simp_all add: ck_inv_def ck_val_def)
  ultimately show ?thesis using assms(1) Some odd a w le_sum_odd [OF odd, of d "[]"]
    by (intro exI [of _ "xs @ [d]"]) (auto simp: ck_inv_def ck_room_def)
qed

lemma chunk_ok:
  assumes "ck_inv xs st" "length xs + length w \<le> 60000"
  shows "\<exists>st'. in_cksum_chunk (o', w) st = Some st' \<and> ck_inv (xs @ w) st'"
proof (cases "w = []")
  case True
  with assms show ?thesis by (simp add: in_cksum_chunk_def)
next
  case False
  obtain acc o'' w' where j: "join_byte (o', w) st = (acc, o'', w')" by (metis surj_pair)
  obtain ys where ys: "xs @ w = ys @ w'" "even (length ys)" "ones_eq acc (le_sum ys)"
      "2 * acc \<le> 2 ^ 25 + 65536 * length ys"
    using join_byte_ok [OF assms(1) False j] by blast
  have len: "length ys + length w' \<le> 60000" using assms(2) arg_cong [OF ys(1), of length] by simp
  have inv: "ck_inv (xs @ w) st'"
    if "ones_eq (ck_val st') (acc + le_sum w')" "ck_c0 st' = None \<longleftrightarrow> even (length w')"
      "ck_room st' \<le> 2 ^ 25 + 65536 * (length ys + length w')" for st'
  proof -
    have "ones_eq (acc + le_sum w') (le_sum ys + le_sum w')" using ys(3) by (intro ones_eq_add) simp_all
    with that(1) have "ones_eq (ck_val st') (le_sum ys + le_sum w')" by (rule ones_eq_trans)
    then show ?thesis using that ys by (simp add: ck_inv_def le_sum_even)
  qed
  show ?thesis
  proof (cases "o'' \<and> w' \<noteq> []")
    case False
    obtain st' where st': "sum_even acc w' = Some st'" "ones_eq (ck_val st') (acc + le_sum w')"
        "ck_c0 st' = None \<longleftrightarrow> even (length w')" "ck_room st' \<le> 2 * acc + 65536 * length w'"
      using sum_even_ok [of acc w'] ys(4) len by auto
    then have "ck_inv (xs @ w) st'" using inv [of st'] ys(4) by simp
    moreover have "in_cksum_chunk (o', w) st = Some st'"
      using False \<open>w \<noteq> []\<close> j st'(1) by (cases w') (auto simp: in_cksum_chunk_def)
    ultimately show ?thesis by blast
  next
    case True
    then obtain c r where w': "w' = c # r" by (cases w') auto
    have "acc < 2 ^ 31" using ys(4) len by simp
    then obtain s where s: "REDUCE acc = Some s" using REDUCE_total by blast
    have "2 * (256 * s) + 65536 * length r < 2 ^ 32" using REDUCE_eq(2) [OF s] len w' by simp
    from sum_swapped_ok [OF this, of c] obtain st' where st': "sum_swapped c (256 * s) r = Some st'"
        "ones_eq (ck_val st') (256 * (256 * s) + unat c + 256 * le_sum r)"
        "ck_c0 st' = None \<longleftrightarrow> odd (length r)" "ck_room st' \<le> 2 ^ 25 + 65536 * Suc (length r)"
      by (elim exE conjE) (rule that)
    have "ones_eq (256 * (256 * s) + (unat c + 256 * le_sum r)) (acc + le_sum w')"
    proof (rule ones_eq_add)
      show "ones_eq (256 * (256 * s)) acc" using ones_eq_swap [of s] REDUCE_eq(1) [OF s] by (rule ones_eq_trans)
      show "ones_eq (unat c + 256 * le_sum r) (le_sum w')"
        using le_sum_shift [of c r] unfolding w' by (simp add: ones_eq_def)
    qed
    with st'(2) have "ones_eq (ck_val st') (acc + le_sum w')"
      unfolding add.assoc by (rule ones_eq_trans)
    then have "ck_inv (xs @ w) st'" using inv [of st'] st'(3,4) w' by simp
    moreover have "in_cksum_chunk (o', w) st = Some st'"
      using True \<open>w \<noteq> []\<close> j s st'(1) w' by (simp add: in_cksum_chunk_def)
    ultimately show ?thesis by blast
  qed
qed

lemma in_cksum_loop_ok:
  "ck_inv xs st \<Longrightarrow> length xs + length (concat (map snd vs)) \<le> 60000 \<Longrightarrow>
   \<exists>st'. in_cksum_loop vs st = Some st' \<and> ck_inv (xs @ concat (map snd vs)) st'"
proof (induction vs arbitrary: xs st)
  case (Cons v vs)
  obtain o' w where v: "v = (o', w)" by (cases v)
  obtain st' where st': "in_cksum_chunk (o', w) st = Some st'" "ck_inv (xs @ w) st'"
    using chunk_ok [OF Cons.prems(1), of w o'] Cons.prems(2) v by auto
  with Cons.IH [OF st'(2)] Cons.prems(2) v show ?case by simp
qed simp

text \<open>The sum before the complement, in host order.\<close>

lemma in_cksum_sum:
  assumes "length (concat (map snd vec)) \<le> 60000"
  shows "\<exists>s. in_cksum vec = Some (word_of_nat (65535 - s)) \<and> s \<le> 65535 \<and> ones_eq s (le_sum (concat (map snd vec)))"
proof -
  have "ck_inv [] \<lparr>ck_acc = 0, ck_c0 = None\<rparr>" by (simp add: ck_inv_def ck_val_def ck_room_def)
  from in_cksum_loop_ok [OF this] assms obtain st where
    st: "in_cksum_loop vec \<lparr>ck_acc = 0, ck_c0 = None\<rparr> = Some st" "ck_inv (concat (map snd vec)) st" by auto
  have "ck_val st < 2 ^ 31"
  proof (cases "ck_c0 st")
    case None
    then show ?thesis using st(2) assms by (simp add: ck_inv_def ck_val_def ck_room_def)
  next
    case (Some c)
    moreover have "unat c < 256" by (rule unat_u8_less)
    ultimately show ?thesis using st(2) assms by (simp add: ck_inv_def ck_val_def ck_room_def)
  qed
  then obtain s where s: "REDUCE (ck_val st) = Some s" using REDUCE_total by blast
  then have "in_cksum vec = Some (word_of_nat (65535 - s))"
    using st(1) by (simp add: in_cksum_def ck_val_def)
  moreover have "ones_eq s (le_sum (concat (map snd vec)))"
    using REDUCE_eq(1) [OF s] st(2) ones_eq_trans by (auto simp: ck_inv_def)
  ultimately show ?thesis using REDUCE_eq(2) [OF s] by blast
qed

section \<open>The result in network order\<close>

lemma swap_bytes:
  assumes "s \<le> 65535" "t = (s mod 256) * 256 + s div 256"
  shows "t \<le> 65535" "ones_eq t (256 * s)" "le_bytes 2 (65535 - s) = be_bytes 2 (65535 - t)"
proof -
  define h l where "h = s div 256" and "l = s mod 256"
  have b: "h < 256" "l < 256" and s: "s = h * 256 + l" and t: "t = l * 256 + h"
    using assms by (auto simp: h_def l_def)
  show "t \<le> 65535" using b t by simp
  have e: "256 * s = t + 65535 * h" unfolding s t by simp
  have "256 * s mod 65535 = t mod 65535" unfolding e by (rule mod_mult_self2)
  moreover have "t = 0 \<longleftrightarrow> 256 * s = 0" using s t by auto
  ultimately show "ones_eq t (256 * s)" by (simp add: ones_eq_def)
  have c: "65535 - s = (255 - h) * 256 + (255 - l)" "65535 - t = (255 - l) * 256 + (255 - h)"
    using b s t by simp_all
  have two: "le_bytes 2 (x * 256 + y) = [word_of_nat y, word_of_nat x]" if "y < 256" for x y
  proof -
    have "word_of_nat (x * 256 + y) = (word_of_nat y :: u8)"
      by (rule unsigned_word_eqI [where ?'a = nat]) (simp only: unat_u8_of_nat, simp)
    then show ?thesis using that by (simp add: numeral_2_eq_2 del: One_nat_def)
  qed
  have "255 - l < 256" "255 - h < 256" by simp_all
  then show "le_bytes 2 (65535 - s) = be_bytes 2 (65535 - t)"
    unfolding c be_bytes_def by (simp only: two rev.simps append.simps)
qed

lemma in_cksum_bytes:
  assumes "length (concat (map snd vec)) \<le> 60000"
  shows "\<exists>c. in_cksum vec = Some c \<and>
    le_bytes 2 (unat c) = be_bytes 2 (65535 - ones_fold (ones_sum (concat (map snd vec))))"
proof -
  let ?d = "concat (map snd vec)"
  obtain s where s: "in_cksum vec = Some (word_of_nat (65535 - s))" "s \<le> 65535" "ones_eq s (le_sum ?d)"
    using in_cksum_sum [OF assms] by blast
  let ?t = "(s mod 256) * 256 + s div 256"
  have "ones_eq ?t (256 * s)" by (rule swap_bytes(2) [OF s(2) refl])
  also have "ones_eq (256 * s) (256 * le_sum ?d)" using s(3) by (rule ones_eq_mult)
  finally have "ones_eq ?t (ones_sum ?d)" using ones_sum_le_sum [of ?d] by (simp add: ones_eq_def)
  then have "?t = ones_fold (ones_sum ?d)"
    using swap_bytes(1) [OF s(2) refl] by (intro ones_fold_unique) (simp_all add: ones_eq_def)
  moreover have "unat (word_of_nat (65535 - s) :: u16) = 65535 - s" by (simp add: unat_u16_of_nat)
  ultimately show ?thesis using s(1) swap_bytes(3) [OF s(2) refl] by auto
qed

lemma bswap_bytes: "le_bytes 2 (unat c) = be_bytes 2 v \<Longrightarrow> v \<le> 65535 \<Longrightarrow> unat (bswap16 c) = v"
  by (simp add: bswap16_def be_val_be_bytes unat_u16_of_nat)

lemma be2_zero: "v \<le> 65535 \<Longrightarrow> be_bytes 2 v = le_bytes 2 (unat (c :: u16)) \<Longrightarrow> c = 0 \<longleftrightarrow> v = 0"
proof -
  assume v: "v \<le> 65535" and e: "be_bytes 2 v = le_bytes 2 (unat c)"
  have c: "unat c < 65536" using unsigned_less [of c] by simp
  have "be_val (be_bytes 2 v) = v" "le_val (le_bytes 2 (unat c)) = unat c"
    using v c by (simp_all add: be_val_be_bytes le_val_le_bytes)
  moreover have "be_val xs = 0 \<longleftrightarrow> le_val xs = 0" for xs
  proof -
    have "le_val ys = 0 \<longleftrightarrow> (\<forall>b \<in> set ys. b = 0)" for ys
      by (induction ys) (auto simp: unat_eq_0)
    then show ?thesis by (simp add: be_val_def)
  qed
  ultimately show ?thesis using e by (metis unat_eq_zero)
qed

lemma shouldbe_sum:
  assumes "unat f + v \<le> 131070" "unat (bswap16 c) = v"
  shows "ones_eq (unat (in_cksum_shouldbe f c)) (unat f + v)"
proof -
  define n where "n = unat f + v"
  define s1 where "s1 = n mod 65536 + n div 65536"
  have q: "n div 65536 \<le> 1" using assms(1) by (simp add: n_def)
  have "n = s1 + 65535 * (n div 65536)" unfolding s1_def by simp
  then have e1: "n mod 65535 = s1 mod 65535" "n = 0 \<longleftrightarrow> s1 = 0" by (metis mod_mult_self2) (use s1_def in auto)
  have s1: "s1 \<le> 65535"
  proof (cases "n div 65536 = 0")
    case True
    then have "n < 65536" by simp
    then show ?thesis using True by (simp add: s1_def)
  next
    case False
    with q have "n div 65536 = 1" by simp
    moreover have "n mod 65536 = n - 65536"
      using \<open>n div 65536 = 1\<close> by (metis minus_div_mult_eq_mod mult_1)
    ultimately show ?thesis using assms(1) by (simp add: s1_def n_def)
  qed
  then have "s1 mod 65536 + s1 div 65536 = s1" by simp
  then have "in_cksum_shouldbe f c = word_of_nat s1"
    using assms(2) by (simp only: in_cksum_shouldbe_def Let_def s1_def n_def)
  then have "unat (in_cksum_shouldbe f c) = s1" using s1 by (simp only: unat_u16_of_nat) simp
  with e1 show ?thesis by (auto simp: ones_eq_def n_def)
qed

text \<open>
  C38. tcpdump's checksum. For data of at most 60000 bytes, given in any pieces at any
  addresses, \<open>in_cksum\<close> does not overflow and its bytes in memory are the complement of the
  Internet checksum of the whole data, so that it is zero exactly if the sum is all ones. If
  the data hold a checksum field at an even offset, the field value that
  \<open>in_cksum_shouldbe\<close> computes from the old one and from the result makes the sum right.
\<close>

theorem in_cksum_is_internet_checksum:
  assumes "length (concat (map snd vec)) \<le> 60000"
    and "concat (map snd vec) = pre @ be_bytes 2 (unat (f :: u16)) @ post" "even (length pre)"
  shows "\<exists>c. in_cksum vec = Some c \<and>
    le_bytes 2 (unat c) = be_bytes 2 (65535 - ones_fold (ones_sum (concat (map snd vec)))) \<and>
    (c = 0 \<longleftrightarrow> ones_fold (ones_sum (concat (map snd vec))) = 65535) \<and>
    in_cksum [(odd_ptr, pre @ be_bytes 2 (unat (in_cksum_shouldbe f c)) @ post)] = Some 0"
proof -
  define R where "R = ones_sum pre + ones_sum post"
  have total: "ones_sum (pre @ be_bytes 2 (unat x) @ post) = R + unat x" for x :: u16
  proof -
    have "unat x < 65536" using unsigned_less [of x] by simp
    then show ?thesis using assms(3) by (simp add: R_def ones_sum_append ones_sum_be2)
  qed
  define T where "T = ones_fold (R + unat f)"
  have T: "T \<le> 65535" "ones_eq T (R + unat f)"
    using ones_fold_le ones_fold_mod by (simp_all add: T_def ones_eq_def)
  obtain c where c: "in_cksum vec = Some c" "le_bytes 2 (unat c) = be_bytes 2 (65535 - T)"
    using in_cksum_bytes [OF assms(1)] by (auto simp: assms(2) total T_def)
  define g where "g = in_cksum_shouldbe f c"
  have "unat f < 65536" using unsigned_less [of f] by simp
  then have f: "unat f \<le> 65535" by simp
  have "unat (bswap16 c) = 65535 - T" using bswap_bytes [OF c(2)] by simp
  then have g: "ones_eq (unat g) (unat f + (65535 - T))"
    using f by (auto simp: g_def intro: shouldbe_sum)
  then have "ones_eq (R + unat g) (R + unat f + (65535 - T))"
    using ones_eq_add [OF ones_eq_refl [of R] g] by (simp add: add.assoc)
  also have "ones_eq \<dots> (T + (65535 - T))"
    using T(2) by (intro ones_eq_add) (simp_all add: ones_eq_def)
  also have "T + (65535 - T) = 65535" using T(1) by simp
  finally have "ones_fold (R + unat g) = 65535"
    by (intro ones_fold_full) (auto simp: ones_eq_def)
  moreover have "length (concat (map snd [(odd_ptr, pre @ be_bytes 2 (unat g) @ post)])) \<le> 60000"
    using assms(1) by (simp add: assms(2))
  ultimately obtain d where d: "in_cksum [(odd_ptr, pre @ be_bytes 2 (unat g) @ post)] = Some d"
      "le_bytes 2 (unat d) = be_bytes 2 0"
    using in_cksum_bytes [of "[(odd_ptr, pre @ be_bytes 2 (unat g) @ post)]"] by (auto simp: total)
  then have "d = 0" using be2_zero [of 0 d] by simp
  moreover have "c = 0 \<longleftrightarrow> T = 65535" using be2_zero [of "65535 - T" c] c(2) T(1) by auto
  ultimately show ?thesis using c d by (auto simp: assms(2) total T_def g_def)
qed

theorem in_cksum_is_internet_checksum_witness:
  "\<exists>c. in_cksum [(True, [1, 2, 3]), (False, [4, 5, 6, 7])] = Some c \<and>
     in_cksum [(True, [1, 2] @ be_bytes 2 (unat (in_cksum_shouldbe 0x304 c)) @ [5, 6, 7])] = Some 0"
proof -
  let ?v = "[(True, [1, 2, 3]), (False, [4, 5, 6, 7])] :: cksum_vec list"
  have "be_bytes 2 (unat (0x304 :: u16)) = [3, 4]" by code_simp
  then have e: "concat (map snd ?v) = [1, 2] @ be_bytes 2 (unat (0x304 :: u16)) @ [5, 6, 7]" by simp
  have "length (concat (map snd ?v)) \<le> 60000" "even (length [1, 2 :: u8])" by simp_all
  from in_cksum_is_internet_checksum [OF this(1) e this(2), of True] show ?thesis by blast
qed

end
