(* ===== verification/Print_Ip.thy ===== *)
theory Print_Ip
  imports In_Cksum Xmit_Correct C_Numbers
begin

text \<open>
  The IP option printer of the modified tcpdump, \<open>tcpdump/print-ip.c\<close>, with the Pval option,
  and the header checksum it reports. Captured memory from a pointer to the end of the capture
  is a list of bytes; a bounds check that fails makes a printer return \<open>-1\<close>, and a read behind
  the capture is \<open>None\<close>. \<open>ipaddr\<close> is \<open>ipaddr_string\<close>, which asks the
  name service.
\<close>

section \<open>Routes and time stamps\<close>

definition IPOPT_EOL :: nat where "IPOPT_EOL = 0"
definition IPOPT_NOP :: nat where "IPOPT_NOP = 1"
definition IPOPT_RR :: nat where "IPOPT_RR = 7"
definition IPOPT_TS :: nat where "IPOPT_TS = 68"
definition IPOPT_RFC1393 :: nat where "IPOPT_RFC1393 = 82"
definition IPOPT_SECURITY :: nat where "IPOPT_SECURITY = 130"
definition IPOPT_LSRR :: nat where "IPOPT_LSRR = 131"
definition IPOPT_SSRR :: nat where "IPOPT_SSRR = 137"
definition IPOPT_RA :: nat where "IPOPT_RA = 148"

definition byte_at :: "bytes \<Rightarrow> nat \<Rightarrow> nat" where
  "byte_at cp i = unat (cp ! i)"

text \<open>An unsigned subtraction of one.\<close>

definition pred32 :: "nat \<Rightarrow> nat" where
  "pred32 n = (n + 2 ^ 32 - 1) mod 2 ^ 32"

definition prepend :: "string \<Rightarrow> string \<times> int \<Rightarrow> string \<times> int" where
  "prepend s r = (s @ fst r, snd r)"

definition u1_at :: "bytes \<Rightarrow> nat \<Rightarrow> nat option" where
  "u1_at p i = map_option unat (nth_opt p i)"

definition be2_at :: "bytes \<Rightarrow> nat \<Rightarrow> nat option" where
  "be2_at p i = map_option be_val (mem_read p i 2)"

definition be4_at :: "bytes \<Rightarrow> nat \<Rightarrow> nat option" where
  "be4_at p i = map_option be_val (mem_read p i 4)"

function route_loop :: "(bytes \<Rightarrow> string) \<Rightarrow> bytes \<Rightarrow> nat \<Rightarrow> nat \<Rightarrow> nat \<Rightarrow> (string \<times> int) option" where
  "route_loop ipaddr cp len len_opt ptr =
     (if len < len_opt then
        if len + 4 \<le> length cp then
          case mem_read cp len 4 of
            None \<Rightarrow> None
          | Some a \<Rightarrow> map_option (prepend ('' '' @ ipaddr a @ (if ptr > len then '','' else [])))
                       (route_loop ipaddr cp (len + 4) len_opt ptr)
        else Some ([], - 1)
      else Some ([], 0))"
  by pat_completeness auto
termination
  by (relation "measure (\<lambda>(f, cp, len, len_opt, ptr). len_opt - len)") auto

declare route_loop.simps [simp del]

definition bad_length :: "nat \<Rightarrow> string" where
  "bad_length n = ''[bad length '' @ dec n @ '']''"

definition ip_printroute :: "(bytes \<Rightarrow> string) \<Rightarrow> bytes \<Rightarrow> nat \<Rightarrow> (string \<times> int) option" where
  "ip_printroute ipaddr cp len_opt =
     (if len_opt < 3 then Some ('' '' @ bad_length len_opt, 0)
      else map_option (prepend (if (len_opt + 1) mod 4 \<noteq> 0 then '' '' @ bad_length len_opt else []))
        (if length cp < 3 then Some ([], - 1)
         else do {
           b \<leftarrow> u1_at cp 2;
           let ptr = pred32 b;
           map_option (prepend (if ptr < 3 \<or> (ptr + 1) mod 4 \<noteq> 0 \<or> ptr > len_opt + 1
                    then '' [bad ptr '' @ dec b @ '']'' else []))
             (route_loop ipaddr cp 3 len_opt ptr)
         }))"

text \<open>\<open>ip_finddst\<close>: the options behind the fixed header, as captured; the result is the last
  address of a source route, or \<open>None\<close> for the destination of the header.\<close>

function finddst_loop :: "bytes \<Rightarrow> nat \<Rightarrow> bytes option" where
  "finddst_loop cp n =
     (if n = 0 \<or> length cp < 1 then None
      else let tt = byte_at cp 0 in
        if tt = IPOPT_EOL then None
        else if tt \<noteq> IPOPT_NOP \<and> (length cp < 2 \<or> byte_at cp 1 < 2) then None
        else let len = (if tt = IPOPT_NOP then 1 else byte_at cp 1) in
          if n < len \<or> length cp < len then None
          else if (tt = IPOPT_SSRR \<or> tt = IPOPT_LSRR) \<and> 7 \<le> len then Some (take 4 (drop (len - 4) cp))
          else finddst_loop (drop len cp) (n - len))"
  by pat_completeness auto
termination
  by (relation "measure snd") (auto simp: IPOPT_NOP_def)

declare finddst_loop.simps [simp del]

definition ip_finddst :: "bytes \<Rightarrow> bytes" where
  "ip_finddst ip =
     (let dst = take 4 (drop 16 ip); hl = (byte_at ip 0 mod 16) * 4 in
      if hl < 20 then dst
      else case finddst_loop (drop 20 ip) (hl - 20) of None \<Rightarrow> dst | Some a \<Rightarrow> a)"

text \<open>\<open>nextproto4_cksum\<close>: the pseudo header is aligned, the data are at any address.\<close>

definition nextproto4_cksum :: "bytes \<Rightarrow> bool \<Rightarrow> bytes \<Rightarrow> nat \<Rightarrow> nat \<Rightarrow> nat \<Rightarrow> u16 option" where
  "nextproto4_cksum ip odd_ptr data len covlen next_proto =
     (let dst = (if byte_at ip 0 mod 16 = 5 then take 4 (drop 16 ip) else ip_finddst ip);
          ph = take 4 (drop 12 ip) @ dst @ [0, word_of_nat next_proto] @ be_bytes 2 len
      in if length data < covlen then None else in_cksum [(False, ph), (odd_ptr, take covlen data)])"

text \<open>The loop of \<open>ip_printts\<close>: the text, where it ended, and whether it was cut off. \<open>hoplen\<close> is 4 or 8.\<close>

function ts_loop :: "(bytes \<Rightarrow> string) \<Rightarrow> bytes \<Rightarrow> nat \<Rightarrow> nat \<Rightarrow> nat \<Rightarrow> nat \<Rightarrow> (string \<times> nat \<times> bool) option" where
  "ts_loop ipaddr cp len len_opt hoplen ptr =
     (if len < len_opt \<and> 0 < hoplen then
        if len + hoplen \<le> length cp then
          case be4_at cp (len + hoplen - 4) of
            None \<Rightarrow> None
          | Some t \<Rightarrow>
              (case (if hoplen \<noteq> 8 then Some [] else map_option ipaddr (mem_read cp len 4)) of
                 None \<Rightarrow> None
               | Some a \<Rightarrow>
                   map_option (\<lambda>(s, l, trunc). ((if ptr = len then '' ^ '' else '' '') @ dec t @ ''@'' @ a @ s, l, trunc))
                     (ts_loop ipaddr cp (len + hoplen) len_opt hoplen ptr))
        else Some ([], len, True)
      else Some ([], len, False))"
  by pat_completeness auto
termination
  by (relation "measure (\<lambda>(f, cp, len, len_opt, hoplen, ptr). len_opt - len)") auto

declare ts_loop.simps [simp del]

definition ip_printts :: "(bytes \<Rightarrow> string) \<Rightarrow> bytes \<Rightarrow> nat \<Rightarrow> (string \<times> int) option" where
  "ip_printts ipaddr cp len_opt =
     (if len_opt < 4 then Some (bad_length len_opt, 0)
      else if length cp < 4 then Some ('' TS{'', - 1)
      else do {
        b3 \<leftarrow> u1_at cp 3;
        b2 \<leftarrow> u1_at cp 2;
        let ty = b3 mod 16;
        let hoplen = (if ty \<noteq> 0 then 8 else 4);
        let ptr = pred32 b2;
        let s1 = '' TS{'' @ (if (len_opt - 4) mod hoplen \<noteq> 0 then bad_length len_opt else []) @
                 (if ptr < 4 \<or> (ptr - 4) mod hoplen \<noteq> 0 \<or> ptr > len_opt + 1
                  then ''[bad ptr '' @ dec b2 @ '']'' else []);
        let fin = (\<lambda>len. (if ptr = len then '' ^ '' else []) @
                 (if b3 div 16 \<noteq> 0 then '' ['' @ dec (b3 div 16) @ '' hops not recorded]} '' else ''}''));
        if ty > 3 then Some (s1 @ ''[bad ts type '' @ dec ty @ '']'' @ fin 0, 0)
        else
          let name = [''TSONLY'', ''TS+ADDR'', ''PRESPEC2.0'', ''PRESPEC''] ! ty in
          map_option (\<lambda>(t, l, trunc). if trunc then (s1 @ name @ t, - 1) else (s1 @ name @ t @ fin l, 0))
            (ts_loop ipaddr cp 4 len_opt hoplen ptr)
      })"

section \<open>Options\<close>

definition ip_printpval :: "bytes \<Rightarrow> nat \<Rightarrow> (string \<times> int) option" where
  "ip_printpval cp len_opt =
     (if len_opt < sizeof_ipopt_pval then Some (bad_length len_opt, 0)
      else map_option (\<lambda>ipp. ('' cpu '' @ dec (unat (ipp_cpu ipp)) @ '', seq '' @ dec (unat (ipp_seq ipp)), 0))
             (ipopt_pval_of (take sizeof_ipopt_pval cp)))"

definition ip_option_values :: "(nat \<times> string) list" where
  "ip_option_values = [(IPOPT_EOL, ''EOL''), (IPOPT_NOP, ''NOP''), (IPOPT_TS, ''timestamp''),
     (IPOPT_SECURITY, ''security''), (IPOPT_RR, ''RR''), (IPOPT_SSRR, ''SSRR''), (IPOPT_LSRR, ''LSRR''),
     (IPOPT_RA, ''RA''), (IPOPT_RFC1393, ''traceroute''), (unat IPOPT_PVAL, ''pval'')]"

definition option_name :: "nat \<Rightarrow> string" where
  "option_name code = (case map_of ip_option_values code of None \<Rightarrow> ''unknown '' @ dec code | Some s \<Rightarrow> s)"

definition print_option :: "(bytes \<Rightarrow> string) \<Rightarrow> nat \<Rightarrow> bytes \<Rightarrow> nat \<Rightarrow> (string \<times> int) option" where
  "print_option ipaddr code cp len_opt =
     (if code = IPOPT_TS then ip_printts ipaddr cp len_opt
      else if code = IPOPT_RR \<or> code = IPOPT_SSRR \<or> code = IPOPT_LSRR then ip_printroute ipaddr cp len_opt
      else if code = IPOPT_RA then
        if len_opt < 4 then Some ('' '' @ bad_length len_opt, 0)
        else if length cp < 4 then Some ([], - 1)
        else map_option (\<lambda>v. (if v \<noteq> 0 then '' value '' @ dec v else [], 0)) (be2_at cp 2)
      else if code = unat IPOPT_PVAL then ip_printpval cp len_opt
      else Some ([], 0))"

text \<open>The length of an option: one for the two that have none, else its second byte, if that was
  captured.\<close>

definition option_len :: "nat \<Rightarrow> bytes \<Rightarrow> nat option" where
  "option_len code cp = (if code = IPOPT_NOP \<or> code = IPOPT_EOL then Some 1 else u1_at cp 1)"

function optprint_loop :: "(bytes \<Rightarrow> string) \<Rightarrow> string \<Rightarrow> bytes \<Rightarrow> nat \<Rightarrow> (string \<times> int) option" where
  "optprint_loop ipaddr sep cp n =
     (if n = 0 then Some ([], 0)
      else case u1_at cp 0 of
        None \<Rightarrow> Some (sep, - 1)
      | Some code \<Rightarrow>
          let pre = sep @ option_name code in
          case option_len code cp of
            None \<Rightarrow> Some (pre, - 1)
          | Some len_opt \<Rightarrow>
              if code \<noteq> IPOPT_NOP \<and> code \<noteq> IPOPT_EOL \<and> len_opt < 2 then Some (pre @ '' '' @ bad_length len_opt, 0)
              else if len_opt > n then Some (pre @ '' '' @ bad_length len_opt, 0)
              else if length cp < len_opt then Some (pre, - 1)
              else if code = IPOPT_EOL then Some (pre, 0)
              else case print_option ipaddr code cp len_opt of
                     None \<Rightarrow> None
                   | Some (s, rc) \<Rightarrow>
                       if rc = - 1 then Some (pre @ s, - 1)
                       else map_option (prepend (pre @ s))
                              (optprint_loop ipaddr '','' (drop len_opt cp) (n - len_opt)))"
  by pat_completeness auto
termination
  by (relation "measure (\<lambda>(f, sep, cp, n). n)") (auto simp: option_len_def split: if_splits)

declare optprint_loop.simps [simp del]

definition ip_optprint :: "(bytes \<Rightarrow> string) \<Rightarrow> bytes \<Rightarrow> nat \<Rightarrow> (string \<times> int) option" where
  "ip_optprint ipaddr cp n = optprint_loop ipaddr [] cp n"

text \<open>
  The part of the verbose output of \<open>ip_print\<close> about the options and the checksum, for a header
  of \<open>hlen\<close> bytes at \<open>ip\<close>; the second component says that an option was truncated.
\<close>

definition print_opts_cksum ::
    "(bytes \<Rightarrow> string) \<Rightarrow> bool \<Rightarrow> bool \<Rightarrow> bytes \<Rightarrow> nat \<Rightarrow> (string \<times> bool) option" where
  "print_opts_cksum ipaddr Kflag odd_ptr ip hlen = do {
     (s1, truncated) \<leftarrow>
       (if hlen - 20 > 0 then
          map_option (\<lambda>(s, rc). ('', options ('' @ s @ (if rc = - 1 then '' [truncated-option]'' else []) @ '')'', rc = - 1))
            (ip_optprint ipaddr (drop 20 ip) (hlen - 20))
        else Some ([], False));
     s2 \<leftarrow> (if \<not> Kflag \<and> hlen \<le> length ip then
              map_option (\<lambda>c. if c \<noteq> 0 then
                  let ip_sum = word_of_nat (be_val (take 2 (drop 10 ip))) in
                  '', bad cksum '' @ hexs (unat ip_sum) @ '' (->'' @ hexs (unat (in_cksum_shouldbe ip_sum c)) @ '')!''
                else []) (in_cksum [(odd_ptr, take hlen ip)])
            else Some []);
     Some (s1 @ s2, truncated)
   }"

section \<open>The option of the kernel module\<close>

lemma in_cksum_valid:
  assumes "checksum bs 0 = 0xFFFF" "length bs \<le> 60000"
  shows "in_cksum [(odd_ptr, bs)] = Some 0"
proof -
  obtain c where c: "in_cksum [(odd_ptr, bs)] = Some c"
      "le_bytes 2 (unat c) = be_bytes 2 (65535 - ones_fold (ones_sum bs))"
    using in_cksum_bytes [of "[(odd_ptr, bs)]"] assms(2) by auto
  have "ones_fold (ones_sum bs) = 65535" using kc.csum_eq [of bs] assms(1) by simp
  with c(2) have "c = 0" using be2_zero [of 0 c] by simp
  with c(1) show ?thesis by simp
qed

lemma pval_option_fields: "ipopt_pval_bytes (pval_option cpu seq) ! 0 = 222" "ipopt_pval_bytes (pval_option cpu seq) ! 1 = 12"
  by (simp_all add: ipopt_pval_bytes_def pval_option_def IPOPT_PVAL_def sizeof_ipopt_pval_def)

lemma optprint_pval:
  "ip_optprint ipaddr (ipopt_pval_bytes (pval_option cpu seq) @ rest) 12 =
     Some (''pval cpu '' @ dec (cpu mod 256) @ '', seq '' @ dec (unat seq), 0)"
proof -
  let ?opt = "ipopt_pval_bytes (pval_option cpu seq)"
  have l: "length ?opt = 12" by (simp add: sizeof_ipopt_pval_def)
  have b: "u1_at (?opt @ rest) 0 = Some 222" "u1_at (?opt @ rest) 1 = Some 12"
    using pval_option_fields [of cpu seq] l by (simp_all add: u1_at_def nth_opt_def nth_append sizeof_ipopt_pval_def)
  have n: "option_name 222 = ''pval''" by code_simp
  have p: "print_option ipaddr 222 (?opt @ rest) 12 =
      Some ('' cpu '' @ dec (cpu mod 256) @ '', seq '' @ dec (unat seq), 0)"
    using l ipopt_pval_of_bytes [of "pval_option cpu seq"]
    by (simp add: print_option_def ip_printpval_def sizeof_ipopt_pval_def IPOPT_TS_def IPOPT_RR_def IPOPT_SSRR_def
        IPOPT_LSRR_def IPOPT_RA_def IPOPT_PVAL_def pval_option_def unat_u8_of_nat)
  have "optprint_loop ipaddr '','' (drop 12 (?opt @ rest)) 0 = Some ([], 0)"
    by (simp add: optprint_loop.simps)
  then show ?thesis unfolding ip_optprint_def
    using l b n p by (subst optprint_loop.simps) (simp add: option_len_def IPOPT_NOP_def IPOPT_EOL_def prepend_def)
qed

text \<open>The header the module makes, with any bytes behind it: the option is shown, and the checksum is
  not complained about.\<close>

lemma opts_cksum_pval:
  assumes "length h = 20"
  shows "print_opts_cksum ipaddr False odd_ptr
      (new_iphdr h (ipopt_pval_bytes (pval_option cpu seq)) @ ipopt_pval_bytes (pval_option cpu seq) @ rest) 32 =
    Some ('', options (pval cpu '' @ dec (cpu mod 256) @ '', seq '' @ dec (unat seq) @ '')'', False)"
proof -
  let ?opt = "ipopt_pval_bytes (pval_option cpu seq)"
  let ?h = "new_iphdr h ?opt"
  have l: "length ?h = 20" "length ?opt = 12" using assms by (simp_all add: sizeof_ipopt_pval_def)
  have "in_cksum [(odd_ptr, ?h @ ?opt)] = Some 0"
    using checksum_new_iphdr [OF assms] l by (intro in_cksum_valid) simp_all
  moreover have "take 32 (?h @ ?opt @ rest) = ?h @ ?opt" using l by simp
  moreover have "drop 20 (?h @ ?opt @ rest) = ?opt @ rest" using l by simp
  moreover have "32 \<le> length (?h @ ?opt @ rest)" using l by simp
  ultimately show ?thesis
    unfolding print_opts_cksum_def by (simp add: optprint_pval del: append_assoc)
qed

end
