(* ===== verification/Util_Print.thy ===== *)
theory Util_Print
  imports Print_Ip Iproute_Prefix
begin

text \<open>
  The shared printers of tcpdump, \<open>tcpdump/util-print.c\<close>: characters and strings of a packet, time
  stamps, relative times, tokens and bit fields, masks, and text protocols, with the helpers of
  \<open>ascii_strcasecmp.c\<close> and \<open>timeval-operations.h\<close>. Printed text is a string. A list of bytes is
  the memory from a pointer on; \<open>ep\<close> and the end of the capture are distances from it. \<open>None\<close> is
  an access outside of an object.
\<close>

section \<open>Characters and strings\<close>

definition ND_ISASCII :: "u8 \<Rightarrow> bool" where "ND_ISASCII c \<longleftrightarrow> c AND 0x80 = 0"
definition ND_ISPRINT :: "u8 \<Rightarrow> bool" where "ND_ISPRINT c \<longleftrightarrow> 0x20 \<le> c \<and> c \<le> 0x7E"
definition ND_TOASCII :: "u8 \<Rightarrow> u8" where "ND_TOASCII c = c AND 0x7F"

definition chr8 :: "u8 \<Rightarrow> char" where "chr8 c = char_of (unat c)"

definition fn_print_char :: "u8 \<Rightarrow> string" where
  "fn_print_char c =
     (let c1 = (if ND_ISASCII c then c else ND_TOASCII c);
          c2 = (if ND_ISPRINT c1 then c1 else c1 XOR 0x40)
      in (if ND_ISASCII c then [] else ''M-'') @ (if ND_ISPRINT c1 then [] else ''^'') @ [chr8 c2])"

fun fn_print_str :: "bytes \<Rightarrow> string option" where
  "fn_print_str [] = None"
| "fn_print_str (c # s) = (if c = 0 then Some [] else map_option ((@) (fn_print_char c)) (fn_print_str s))"

definition before :: "nat option \<Rightarrow> bool" where
  "before ep \<longleftrightarrow> ep \<noteq> Some 0"

definition next_ep :: "nat option \<Rightarrow> nat option" where
  "next_ep ep = map_option (\<lambda>k. k - 1) ep"

definition print_more :: "u8 \<Rightarrow> (string \<times> 'a) option \<Rightarrow> (string \<times> 'a) option" where
  "print_more c r = map_option (\<lambda>(out, x). (fn_print_char c @ out, x)) r"

fun nd_print :: "bytes \<Rightarrow> nat option \<Rightarrow> (string \<times> int) option" where
  "nd_print [] ep = (if before ep then None else Some ([], 1))"
| "nd_print (c # s) ep =
     (if before ep then if c = 0 then Some ([], 0) else print_more c (nd_print s (next_ep ep))
      else Some ([], 1))"

text \<open>The number of bytes is counted on the way; it is reset where the string is truncated.\<close>

fun ztn_loop :: "nat \<Rightarrow> bytes \<Rightarrow> nat \<Rightarrow> nat option \<Rightarrow> (string \<times> nat) option" where
  "ztn_loop bytes [] n ep = (if n = 0 \<or> \<not> before ep then Some ([], 0) else None)"
| "ztn_loop bytes (c # s) n ep =
     (if n = 0 \<or> \<not> before ep then Some ([], 0)
      else if c = 0 then Some ([], Suc bytes)
      else print_more c (ztn_loop (Suc bytes) s (n - 1) (next_ep ep)))"

definition nd_printztn :: "bytes \<Rightarrow> nat \<Rightarrow> nat option \<Rightarrow> (string \<times> nat) option" where
  "nd_printztn s n ep = ztn_loop 0 s n ep"

fun nd_printn :: "bytes \<Rightarrow> nat \<Rightarrow> nat option \<Rightarrow> (string \<times> int) option" where
  "nd_printn [] n ep = (if n > 0 \<and> before ep then None else Some ([], if n = 0 then 0 else 1))"
| "nd_printn (c # s) n ep =
     (if n > 0 \<and> before ep then print_more c (nd_printn s (n - 1) (next_ep ep))
      else Some ([], if n = 0 then 0 else 1))"

text \<open>\<open>nd_printzp\<close>: a zero that is the last of the \<open>n\<close> bytes has made \<open>n\<close> zero when it is found.\<close>

fun nd_printzp :: "bytes \<Rightarrow> nat \<Rightarrow> nat option \<Rightarrow> (string \<times> int) option" where
  "nd_printzp [] n ep = (if n > 0 \<and> before ep then None else Some ([], if n = 0 then 0 else 1))"
| "nd_printzp (c # s) n ep =
     (if n > 0 \<and> before ep then
        if c = 0 then Some ([], 0) else print_more c (nd_printzp s (n - 1) (next_ep ep))
      else Some ([], if n = 0 then 0 else 1))"

section \<open>Times\<close>

record timeval =
  tv_sec :: int
  tv_usec :: int

record tm =
  tm_year :: int
  tm_mon :: int
  tm_mday :: int
  tm_hour :: nat
  tm_min :: nat
  tm_sec :: nat

datatype tstamp_precision = PrecisionMicro | PrecisionNano | PrecisionOther

text \<open>Decimal numbers filled with zeros to \<open>w\<close> digits; \<open>%u\<close> of an \<open>int\<close> takes it modulo \<open>2 ^ 32\<close>.\<close>

definition dec_pad :: "nat \<Rightarrow> nat \<Rightarrow> string" where
  "dec_pad w n = replicate (w - length (dec n)) (CHR ''0'') @ dec n"

definition as_unsigned :: "int \<Rightarrow> nat" where
  "as_unsigned i = nat (i mod 2 ^ 32)"

definition ts_frac_print :: "tstamp_precision \<Rightarrow> int \<Rightarrow> string" where
  "ts_frac_print prec usec =
     (case prec of
        PrecisionMicro \<Rightarrow> ''.'' @ dec_pad 6 (as_unsigned usec)
      | PrecisionNano \<Rightarrow> ''.'' @ dec_pad 9 (as_unsigned usec)
      | PrecisionOther \<Rightarrow> ''.{unknown}'')"

text \<open>\<open>strftime\<close> for \<open>%H:%M:%S\<close> and \<open>%Y-%m-%d\<close>, for years of the common era.\<close>

definition strftime_hms :: "tm \<Rightarrow> string" where
  "strftime_hms t = dec_pad 2 (tm_hour t) @ '':'' @ dec_pad 2 (tm_min t) @ '':'' @ dec_pad 2 (tm_sec t)"

definition strftime_ymd :: "tm \<Rightarrow> string" where
  "strftime_ymd t = dec (nat (tm_year t + 1900)) @ ''-'' @ dec_pad 2 (nat (tm_mon t + 1)) @ ''-'' @ dec_pad 2 (nat (tm_mday t))"

text \<open>\<open>conv\<close> is \<open>localtime\<close> or \<open>gmtime\<close>, as the caller's \<open>time_flag\<close> says. The seconds are cut to an
  \<open>int\<close> when they are passed.\<close>

definition ts_date_hmsfrac_print :: "tstamp_precision \<Rightarrow> (int \<Rightarrow> tm option) \<Rightarrow> bool \<Rightarrow> int \<Rightarrow> int \<Rightarrow> string" where
  "ts_date_hmsfrac_print prec conv with_date sec usec =
     (if 2 ^ 31 \<le> as_unsigned sec then ''[Error converting time]''
      else case conv (int (as_unsigned sec)) of
        None \<Rightarrow> ''[Error converting time]''
      | Some t \<Rightarrow> (if with_date then strftime_ymd t @ '' '' else []) @ strftime_hms t @ ts_frac_print prec usec)"

definition ts_unix_print :: "tstamp_precision \<Rightarrow> int \<Rightarrow> int \<Rightarrow> string" where
  "ts_unix_print prec sec usec = dec (as_unsigned sec) @ ts_frac_print prec usec"

definition netdissect_timevalisset :: "timeval \<Rightarrow> bool" where
  "netdissect_timevalisset t \<longleftrightarrow> tv_sec t \<noteq> 0 \<or> tv_usec t \<noteq> 0"

definition netdissect_timevalless :: "timeval \<Rightarrow> timeval \<Rightarrow> bool" where
  "netdissect_timevalless t u \<longleftrightarrow> (if tv_sec t = tv_sec u then tv_usec t < tv_usec u else tv_sec t < tv_sec u)"

definition netdissect_timevaladd :: "timeval \<Rightarrow> timeval \<Rightarrow> bool \<Rightarrow> timeval" where
  "netdissect_timevaladd t u nano =
     (let s = tv_sec t + tv_sec u; us = tv_usec t + tv_usec u; per = (if nano then 1000000000 else 1000000) in
      if us \<ge> per then \<lparr>tv_sec = s + 1, tv_usec = us - per\<rparr> else \<lparr>tv_sec = s, tv_usec = us\<rparr>)"

definition netdissect_timevalsub :: "timeval \<Rightarrow> timeval \<Rightarrow> bool \<Rightarrow> timeval" where
  "netdissect_timevalsub t u nano =
     (let s = tv_sec t - tv_sec u; us = tv_usec t - tv_usec u in
      if us < 0 then \<lparr>tv_sec = s - 1, tv_usec = us + (if nano then 1000000000 else 1000000)\<rparr>
      else \<lparr>tv_sec = s, tv_usec = us\<rparr>)"

text \<open>\<open>ts_print\<close> with the static \<open>tv_ref\<close> before and after the call.\<close>

definition ts_print :: "tstamp_precision \<Rightarrow> (int \<Rightarrow> tm option) \<Rightarrow> (int \<Rightarrow> tm option) \<Rightarrow> int \<Rightarrow> timeval \<Rightarrow> timeval \<Rightarrow>
    string \<times> timeval" where
  "ts_print prec localtime gmtime tflag tv_ref tvp =
     (if tflag = 0 then (ts_date_hmsfrac_print prec localtime False (tv_sec tvp) (tv_usec tvp) @ '' '', tv_ref)
      else if tflag = 1 then ([], tv_ref)
      else if tflag = 2 then (ts_unix_print prec (tv_sec tvp) (tv_usec tvp) @ '' '', tv_ref)
      else if tflag = 3 \<or> tflag = 5 then
        let nano_prec = (prec = PrecisionNano);
            ref1 = (if \<not> netdissect_timevalisset tv_ref then tvp else tv_ref);
            negative_offset = netdissect_timevalless tvp ref1;
            tv_result = (if negative_offset then netdissect_timevalsub ref1 tvp nano_prec
                         else netdissect_timevalsub tvp ref1 nano_prec)
        in ((if negative_offset then ''-'' else '' '') @
              ts_date_hmsfrac_print prec gmtime False (tv_sec tv_result) (tv_usec tv_result) @ '' '',
            if tflag = 3 then tvp else ref1)
      else if tflag = 4 then (ts_date_hmsfrac_print prec localtime True (tv_sec tvp) (tv_usec tvp) @ '' '', tv_ref)
      else ([], tv_ref))"

text \<open>\<open>None\<close> if the loop ran past the end of the two tables.\<close>

definition relts_units :: "(nat \<times> string) list" where
  "relts_units = [(31536000, ''y''), (604800, ''w''), (86400, ''d''), (3600, ''h''), (60, ''m''), (1, ''s'')]"

fun relts_loop :: "(nat \<times> string) list \<Rightarrow> nat \<Rightarrow> string option" where
  "relts_loop [] secs = (if secs > 0 then None else Some [])"
| "relts_loop ((s, l) # us) secs =
     (if secs > 0 then
        if secs \<ge> s then map_option ((@) (dec (secs div s) @ l)) (relts_loop us (secs - secs div s * s))
        else relts_loop us secs
      else Some [])"

definition unsigned_relts_print :: "nat \<Rightarrow> string option" where
  "unsigned_relts_print secs = (if secs = 0 then Some ''0s'' else relts_loop relts_units secs)"

definition signed_relts_print :: "int \<Rightarrow> string option" where
  "signed_relts_print secs =
     (if secs < 0 then
        map_option ((@) ''-'')
          (if secs = - (2 ^ 31) then unsigned_relts_print 2147483648 else unsigned_relts_print (nat (- secs)))
      else unsigned_relts_print (nat secs))"

definition nd_print_trunc :: "string \<Rightarrow> string" where
  "nd_print_trunc protocol = '' [|'' @ protocol @ '']''"

section \<open>Tokens\<close>

text \<open>
  A table is a list of values and names; the entry that ends it is left out. A format for
  values that are not in the table is a function from the value to the text.
\<close>

type_synonym tok = "u32 \<times> string"

definition TOKBUFSIZE :: nat where "TOKBUFSIZE = 128"

text \<open>What is printed into a buffer of \<open>n\<close> bytes.\<close>

definition snprintf_buf :: "nat \<Rightarrow> string \<Rightarrow> string" where
  "snprintf_buf n s = take (n - 1) s"

text \<open>The result of \<open>tok2str\<close> is a pointer: to a name of the table or to one of the four static
  buffers, of which the next is used each time.\<close>

datatype strptr = Name string | Buf nat

record tokbufs =
  tb_buf :: "nat \<Rightarrow> string"
  tb_idx :: nat

definition tok_text :: "tok list \<Rightarrow> (u32 \<Rightarrow> string) option \<Rightarrow> u32 \<Rightarrow> string + string" where
  "tok_text lp fmt v =
     (case map_of lp v of
        Some s \<Rightarrow> Inl s
      | None \<Rightarrow> Inr (case fmt of None \<Rightarrow> ''#'' @ (if sint v < 0 then ''-'' @ dec (nat (- sint v)) else dec (unat v))
                     | Some f \<Rightarrow> f v))"

definition tok2strbuf :: "tok list \<Rightarrow> (u32 \<Rightarrow> string) option \<Rightarrow> u32 \<Rightarrow> nat \<Rightarrow> tokbufs \<Rightarrow> strptr \<times> tokbufs" where
  "tok2strbuf lp fmt v b T =
     (case tok_text lp fmt v of
        Inl s \<Rightarrow> (Name s, T)
      | Inr t \<Rightarrow> (Buf b, T\<lparr>tb_buf := (tb_buf T)(b := snprintf_buf TOKBUFSIZE t)\<rparr>))"

definition tok2str :: "tok list \<Rightarrow> (u32 \<Rightarrow> string) option \<Rightarrow> u32 \<Rightarrow> tokbufs \<Rightarrow> strptr \<times> tokbufs" where
  "tok2str lp fmt v T = tok2strbuf lp fmt v (tb_idx T) (T\<lparr>tb_idx := (tb_idx T + 1) mod 4\<rparr>)"

fun str_at :: "tokbufs \<Rightarrow> strptr \<Rightarrow> string" where
  "str_at T (Name s) = s"
| "str_at T (Buf b) = tb_buf T b"

text \<open>The inner loop of \<open>bittok2str_internal\<close>: is the token the value at one bit?\<close>

function rot_match :: "u32 \<Rightarrow> u32 \<Rightarrow> u32 \<Rightarrow> bool" where
  "rot_match v tokval rotbit =
     (if rotbit = 0 then False
      else if tokval = v AND rotbit then True
      else rot_match v tokval (push_bit 1 rotbit))"
  by pat_completeness auto
termination
  by (relation "measure (\<lambda>(v, tokval, rotbit). LEAST n. push_bit n rotbit = 0)") (use shl_least_decreases in auto)

declare rot_match.simps [simp del]

text \<open>
  Appending to the buffer of 1025 bytes; \<open>Inl\<close> is a return from within when there is no more
  room. \<open>strlcpy\<close> copies what fits and returns the length of its argument.
\<close>

definition strlcpy_buf :: "string \<Rightarrow> string \<Rightarrow> string + string" where
  "strlcpy_buf buf s =
     (let space_left = 1025 - length buf in
      if space_left \<le> 1 then Inl buf
      else if length s \<ge> space_left then Inl (buf @ take (space_left - 1) s)
      else Inr (buf @ s))"

fun bittok_loop :: "tok list \<Rightarrow> u32 \<Rightarrow> string \<Rightarrow> string \<Rightarrow> string \<Rightarrow> string + string" where
  "bittok_loop [] v sep sepstr buf = Inr buf"
| "bittok_loop ((tokval, s) # lp) v sep sepstr buf =
     (if rot_match v tokval 1 then
        case strlcpy_buf buf sepstr of
          Inl b \<Rightarrow> Inl b
        | Inr b \<Rightarrow>
            (case strlcpy_buf b s of
               Inl b2 \<Rightarrow> Inl b2
             | Inr b2 \<Rightarrow> bittok_loop lp v sep sep b2)
      else bittok_loop lp v sep sepstr buf)"

definition hex_pad :: "nat \<Rightarrow> nat \<Rightarrow> string" where
  "hex_pad w n = replicate (w - length (hexs n)) (CHR ''0'') @ hexs n"

definition bittok2str_internal :: "tok list \<Rightarrow> (u32 \<Rightarrow> string) option \<Rightarrow> u32 \<Rightarrow> string \<Rightarrow> string" where
  "bittok2str_internal lp fmt v sep =
     (case bittok_loop lp v sep [] [] of
        Inl buf \<Rightarrow> buf
      | Inr buf \<Rightarrow>
          if buf = [] then
            snprintf_buf 1025 (case fmt of None \<Rightarrow> ''#'' @ hex_pad 8 (unat v) | Some f \<Rightarrow> f v)
          else buf)"

definition bittok2str_nosep :: "tok list \<Rightarrow> (u32 \<Rightarrow> string) option \<Rightarrow> u32 \<Rightarrow> string" where
  "bittok2str_nosep lp fmt v = bittok2str_internal lp fmt v []"

definition bittok2str :: "tok list \<Rightarrow> (u32 \<Rightarrow> string) option \<Rightarrow> u32 \<Rightarrow> string" where
  "bittok2str lp fmt v = bittok2str_internal lp fmt v '', ''"

definition tok2strary_internal :: "string option list \<Rightarrow> (int \<Rightarrow> string) option \<Rightarrow> int \<Rightarrow> string" where
  "tok2strary_internal lp fmt v =
     (let other = snprintf_buf TOKBUFSIZE
            (case fmt of None \<Rightarrow> ''#'' @ (if v < 0 then ''-'' @ dec (nat (- v)) else dec (nat v)) | Some f \<Rightarrow> f v) in
      if 0 \<le> v \<and> v < int (length lp) then case lp ! nat v of Some s \<Rightarrow> s | None \<Rightarrow> other
      else other)"

section \<open>Masks\<close>

definition plen_masks :: "u32 list" where
  "plen_masks = [0x00000000,
     0x80000000, 0xc0000000, 0xe0000000, 0xf0000000, 0xf8000000, 0xfc000000, 0xfe000000, 0xff000000,
     0xff800000, 0xffc00000, 0xffe00000, 0xfff00000, 0xfff80000, 0xfffc0000, 0xfffe0000, 0xffff0000,
     0xffff8000, 0xffffc000, 0xffffe000, 0xfffff000, 0xfffff800, 0xfffffc00, 0xfffffe00, 0xffffff00,
     0xffffff80, 0xffffffc0, 0xffffffe0, 0xfffffff0, 0xfffffff8, 0xfffffffc, 0xfffffffe, 0xffffffff]"

fun mask2plen_loop :: "u32 \<Rightarrow> nat \<Rightarrow> int" where
  "mask2plen_loop m 0 = (if plen_masks ! 0 = m then 0 else - 1)"
| "mask2plen_loop m (Suc n) = (if plen_masks ! Suc n = m then int (Suc n) else mask2plen_loop m n)"

definition mask2plen :: "u32 \<Rightarrow> int" where
  "mask2plen m = mask2plen_loop m 32"

definition byte_masks :: "u8 list" where
  "byte_masks = [0x00, 0x80, 0xc0, 0xe0, 0xf0, 0xf8, 0xfc, 0xfe, 0xff]"

text \<open>The number of leading ones of a byte, zero for a byte that is no mask.\<close>

definition byte_plen :: "u8 \<Rightarrow> nat" where
  "byte_plen b = (case List.find (\<lambda>i. b = byte_masks ! i) [0..<9] of None \<Rightarrow> 0 | Some i \<Rightarrow> i)"

fun mask62_loop :: "nat \<Rightarrow> bytes \<Rightarrow> nat \<Rightarrow> nat option" where
  "mask62_loop 0 m cidr_len = Some cidr_len"
| "mask62_loop (Suc n) [] cidr_len = None"
| "mask62_loop (Suc n) (b # m) cidr_len =
     (if b \<noteq> 0xff then Some (cidr_len + byte_plen b) else mask62_loop n m (cidr_len + byte_plen b))"

definition mask62plen :: "bytes \<Rightarrow> nat option" where
  "mask62plen m = mask62_loop 16 m 0"

end
