(* ===== verification/Ip_Print.thy ===== *)
theory Ip_Print
  imports Util_Print
begin

text \<open>
  The IP printer of the modified tcpdump: \<open>ip_print\<close>, \<open>ip_print_demux\<close>, \<open>ip_inner_print\<close> and
  \<open>ipN_print\<close> of \<open>tcpdump/print-ip.c\<close>, with \<open>tcpdump/ipproto.c\<close>, \<open>print-ah.c\<close>, \<open>print-esp.c\<close> (without a
  secret) and \<open>print-ipcomp.c\<close>. A packet is the list of its captured bytes from the IP header on.
  The printers of the other protocols are an argument, as is \<open>ipaddr_string\<close>. Every read is an
  access to that list that may fail; \<open>None\<close> is a read behind the capture.
\<close>

section \<open>Protocol numbers and names\<close>

definition IPPROTO_HOPOPTS :: nat where "IPPROTO_HOPOPTS = 0"
definition IPPROTO_ICMP :: nat where "IPPROTO_ICMP = 1"
definition IPPROTO_IGMP :: nat where "IPPROTO_IGMP = 2"
definition IPPROTO_IPV4 :: nat where "IPPROTO_IPV4 = 4"
definition IPPROTO_TCP :: nat where "IPPROTO_TCP = 6"
definition IPPROTO_EGP :: nat where "IPPROTO_EGP = 8"
definition IPPROTO_PIGP :: nat where "IPPROTO_PIGP = 9"
definition IPPROTO_UDP :: nat where "IPPROTO_UDP = 17"
definition IPPROTO_DCCP :: nat where "IPPROTO_DCCP = 33"
definition IPPROTO_IPV6 :: nat where "IPPROTO_IPV6 = 41"
definition IPPROTO_ROUTING :: nat where "IPPROTO_ROUTING = 43"
definition IPPROTO_FRAGMENT :: nat where "IPPROTO_FRAGMENT = 44"
definition IPPROTO_RSVP :: nat where "IPPROTO_RSVP = 46"
definition IPPROTO_GRE :: nat where "IPPROTO_GRE = 47"
definition IPPROTO_ESP :: nat where "IPPROTO_ESP = 50"
definition IPPROTO_AH :: nat where "IPPROTO_AH = 51"
definition IPPROTO_MOBILE :: nat where "IPPROTO_MOBILE = 55"
definition IPPROTO_ICMPV6 :: nat where "IPPROTO_ICMPV6 = 58"
definition IPPROTO_MOBILITY_OLD :: nat where "IPPROTO_MOBILITY_OLD = 62"
definition IPPROTO_EIGRP :: nat where "IPPROTO_EIGRP = 88"
definition IPPROTO_OSPF :: nat where "IPPROTO_OSPF = 89"
definition IPPROTO_PIM :: nat where "IPPROTO_PIM = 103"
definition IPPROTO_IPCOMP :: nat where "IPPROTO_IPCOMP = 108"
definition IPPROTO_VRRP :: nat where "IPPROTO_VRRP = 112"
definition IPPROTO_PGM :: nat where "IPPROTO_PGM = 113"
definition IPPROTO_SCTP :: nat where "IPPROTO_SCTP = 132"
definition IPPROTO_MOBILITY :: nat where "IPPROTO_MOBILITY = 135"
definition IPPROTO_ND :: nat where "IPPROTO_ND = 77"

lemmas ipproto_defs = IPPROTO_HOPOPTS_def IPPROTO_ICMP_def IPPROTO_IGMP_def IPPROTO_IPV4_def IPPROTO_TCP_def
  IPPROTO_EGP_def IPPROTO_PIGP_def IPPROTO_UDP_def IPPROTO_DCCP_def IPPROTO_IPV6_def IPPROTO_ROUTING_def
  IPPROTO_FRAGMENT_def IPPROTO_RSVP_def IPPROTO_GRE_def IPPROTO_ESP_def IPPROTO_AH_def IPPROTO_MOBILE_def
  IPPROTO_ICMPV6_def IPPROTO_MOBILITY_OLD_def IPPROTO_EIGRP_def IPPROTO_OSPF_def IPPROTO_PIM_def
  IPPROTO_IPCOMP_def IPPROTO_VRRP_def IPPROTO_PGM_def IPPROTO_SCTP_def IPPROTO_MOBILITY_def IPPROTO_ND_def

definition ipproto_values :: "tok list" where
  "ipproto_values = map (\<lambda>(v, s). (word_of_nat v, s)) [(IPPROTO_HOPOPTS, ''Options''),
     (IPPROTO_ICMP, ''ICMP''), (IPPROTO_IGMP, ''IGMP''), (IPPROTO_IPV4, ''IPIP''), (IPPROTO_TCP, ''TCP''),
     (IPPROTO_EGP, ''EGP''), (IPPROTO_PIGP, ''IGRP''), (IPPROTO_UDP, ''UDP''), (IPPROTO_DCCP, ''DCCP''),
     (IPPROTO_IPV6, ''IPv6''), (IPPROTO_ROUTING, ''Routing''), (IPPROTO_FRAGMENT, ''Fragment''),
     (IPPROTO_RSVP, ''RSVP''), (IPPROTO_GRE, ''GRE''), (IPPROTO_ESP, ''ESP''), (IPPROTO_AH, ''AH''),
     (IPPROTO_MOBILE, ''Mobile IP''), (IPPROTO_ICMPV6, ''ICMPv6''),
     (IPPROTO_MOBILITY_OLD, ''Mobile IP (old)''), (IPPROTO_EIGRP, ''EIGRP''), (IPPROTO_OSPF, ''OSPF''),
     (IPPROTO_PIM, ''PIM''), (IPPROTO_IPCOMP, ''Compressed IP''), (IPPROTO_VRRP, ''VRRP''),
     (IPPROTO_PGM, ''PGM''), (IPPROTO_SCTP, ''SCTP''), (IPPROTO_MOBILITY, ''Mobility'')]"

definition netdb_protocol_names :: "string option list" where
  "netdb_protocol_names = [Some ''hopopt'', Some ''icmp'', Some ''igmp'', Some ''ggp'', Some ''ipencap'',
     Some ''st'', Some ''tcp'', Some ''cbt'', Some ''egp'', Some ''igp'', Some ''bbn-rcc-mon'',
     Some ''nvp-ii'', Some ''pup'', Some ''argus'', Some ''emcon'', Some ''xnet'', Some ''chaos'',
     Some ''udp'', Some ''mux'', Some ''dcn-meas'', Some ''hmp'', Some ''prm'', Some ''xns-idp'',
     Some ''trunk-1'', Some ''trunk-2'', Some ''leaf-1'', Some ''leaf-2'', Some ''rdp'', Some ''irtp'',
     Some ''iso-tp4'', Some ''netblt'', Some ''mfe-nsp'', Some ''merit-inp'', Some ''dccp'', Some ''3pc'',
     Some ''idpr'', Some ''xtp'', Some ''ddp'', Some ''idpr-cmtp'', Some ''tp++'', Some ''il'', Some ''ipv6'',
     Some ''sdrp'', Some ''ipv6-route'', Some ''ipv6-frag'', Some ''idrp'', Some ''rsvp'', Some ''gre'',
     Some ''dsr'', Some ''bna'', Some ''esp'', Some ''ah'', Some ''i-nlsp'', Some ''swipe'', Some ''narp'',
     Some ''mobile'', Some ''tlsp'', Some ''skip'', Some ''ipv6-icmp'', Some ''ipv6-nonxt'',
     Some ''ipv6-opts'', None, Some ''cftp'', None, Some ''sat-expak'', Some ''kryptolan'', Some ''rvd'',
     Some ''ippc'', None, Some ''sat-mon'', Some ''visa'', Some ''ipcv'', Some ''cpnx'', Some ''rspf'',
     Some ''wsn'', Some ''pvp'', Some ''br-sat-mon'', Some ''sun-nd'', Some ''wb-mon'', Some ''wb-expak'',
     Some ''iso-ip'', Some ''vmtp'', Some ''secure-vmtp'', Some ''vines'', Some ''ttp'', Some ''nsfnet-igp'',
     Some ''dgp'', Some ''tcf'', Some ''eigrp'', Some ''ospf'', Some ''sprite-rpc'', Some ''larp'',
     Some ''mtp'', Some ''ax.25'', Some ''ipip'', Some ''micp'', Some ''scc-sp'', Some ''etherip'',
     Some ''encap'', None, Some ''gmtp'', Some ''ifmp'', Some ''pnni'', Some ''pim'', Some ''aris'',
     Some ''scps'', Some ''qnx'', Some ''a/n'', Some ''ipcomp'', Some ''snp'', Some ''compaq-peer'',
     Some ''ipx-in-ip'', Some ''vrrp'', Some ''pgm'', None, Some ''l2tp'', Some ''ddx'', Some ''iatp'',
     Some ''stp'', Some ''srp'', Some ''uti'', Some ''smp'', Some ''sm'', Some ''ptp'', Some ''isis'',
     Some ''fire'', Some ''crtp'', Some ''crudp'', Some ''sscopmce'', Some ''iplt'', Some ''sps'',
     Some ''pipe'', Some ''sctp'', Some ''fc'', Some ''rsvp-e2e-ignore'', Some ''mobility-header'',
     Some ''udplite'', Some ''mpls-in-ip'', Some ''manet'', Some ''hip'', Some ''shim6'', Some ''wesp'',
     Some ''rohc'', None, None, None, None, None, None, None, None, None, None, None, None, None, None, None,
     None, None, None, None, None, None, None, None, None, None, None, None, None, None, None, None, None,
     None, None, None, None, None, None, None, None, None, None, None, None, None, None, None, None, None,
     None, None, None, None, None, None, None, None, None, None, None, None, None, None, None, None, None,
     None, None, None, None, None, None, None, None, None, None, None, None, None, None, None, None, None,
     None, None, None, None, None, None, None, None, None, None, None, None, None, None, None, None, None,
     None, None, None, None, None, None, None, None, None, None, Some ''exptest-253'', Some ''exptest-254'',
     Some ''reserved'']"

definition netdb_protoname :: "nat \<Rightarrow> string option" where
  "netdb_protoname protoid = netdb_protocol_names ! (protoid mod 256)"

section \<open>Headers between IP and the payload\<close>

text \<open>\<open>ah_print\<close>: the text and how far to advance.\<close>

definition ah_print :: "nat \<Rightarrow> bytes \<Rightarrow> (string \<times> int) option" where
  "ah_print vflag bp =
     (if length bp < 8 then Some (nd_print_trunc ''ah'', - 1)
      else do {
        l \<leftarrow> u1_at bp 1;
        spi \<leftarrow> be4_at bp 4;
        let sumlen = l * 4;
        let s1 = ''AH(spi=0x'' @ hex_pad 8 spi @ (if vflag \<noteq> 0 then '',sumlen='' @ dec sumlen else []);
        (if length bp < 12 then Some (s1 @ nd_print_trunc ''ah'', - 1)
         else do {
           seq \<leftarrow> be4_at bp 8;
           let s2 = s1 @ '',seq=0x'' @ hexs seq;
           (if length bp < 8 + sumlen then Some (s2 @ nd_print_trunc ''ah'', - 1)
            else Some (s2 @ ''): '', int (8 + sumlen)))
         })
      })"

text \<open>\<open>esp_print\<close> when no secret was given on the command line: the payload is never decrypted.\<close>

definition esp_print :: "bytes \<Rightarrow> nat \<Rightarrow> string option" where
  "esp_print bp len =
     (if length bp \<le> 8 then Some (nd_print_trunc ''esp'')
      else do {
        spi \<leftarrow> be4_at bp 0;
        seq \<leftarrow> be4_at bp 4;
        Some (''ESP(spi=0x'' @ hex_pad 8 spi @ '',seq=0x'' @ hexs seq @ ''), length '' @ dec len)
      })"

definition ipcomp_print :: "bytes \<Rightarrow> string option" where
  "ipcomp_print bp =
     (if length bp < 4 then Some (nd_print_trunc ''ipcomp'')
      else map_option (\<lambda>cpi. ''IPComp(cpi=0x'' @ hex_pad 4 cpi @ '')'') (be2_at bp 2))"

section \<open>The header\<close>

record netdissect_options =
  ndo_eflag :: bool
  ndo_vflag :: nat
  ndo_Kflag :: bool
  ndo_nflag :: nat
  ndo_qflag :: nat
  ndo_carp :: bool \<comment> \<open>\<open>ndo_packettype\<close> is \<open>PT_CARP\<close>\<close>

definition ip_frag_values :: "tok list" where
  "ip_frag_values = [(0x2000, ''+''), (0x4000, ''DF''), (0x8000, ''rsvd'')]"

definition tok_string :: "tok list \<Rightarrow> string \<Rightarrow> u32 \<Rightarrow> string" where
  "tok_string lp fmt v = (case tok_text lp (Some (\<lambda>_. fmt)) v of Inl s \<Rightarrow> s | Inr s \<Rightarrow> take 127 s)"

definition ecn_text :: "nat \<Rightarrow> string" where
  "ecn_text tos = [[], '',ECT(1)'', '',ECT(0)'', '',CE''] ! (tos mod 4)"

text \<open>The verbose text up to the options: type of service, time to live, identification, fragment
  offset and flags, protocol and length.\<close>

definition ip_fields_text :: "bytes \<Rightarrow> string option" where
  "ip_fields_text ip = do {
     tos \<leftarrow> u1_at ip 1;
     ttl \<leftarrow> u1_at ip 8;
     ident \<leftarrow> be2_at ip 4;
     off \<leftarrow> be2_at ip 6;
     p \<leftarrow> u1_at ip 9;
     len \<leftarrow> be2_at ip 2;
     Some (''(tos 0x'' @ hexs tos @ ecn_text tos @ (if ttl \<ge> 1 then '', ttl '' @ dec ttl else [])
       @ '', id '' @ dec ident @ '', offset '' @ dec (off mod 0x2000 * 8)
       @ '', flags ['' @ bittok2str ip_frag_values (Some (\<lambda>_. ''none'')) (word_of_nat (off - off mod 0x2000))
       @ ''], proto '' @ tok_string ipproto_values ''unknown'' (word_of_nat p) @ '' ('' @ dec p @ '')''
       @ '', length '' @ dec len)
   }"

definition addrs_line :: "(bytes \<Rightarrow> string) \<Rightarrow> bytes \<Rightarrow> string option" where
  "addrs_line ipaddr ip = do {
     src \<leftarrow> mem_read ip 12 4;
     dst \<leftarrow> mem_read ip 16 4;
     Some (ipaddr src @ '' > '' @ ipaddr dst)
   }"

text \<open>How the printer goes on after the header: it stops, or hands the payload on with the fields of
  \<open>ip_print_demux_state\<close> but the header: \<open>cp\<close>, \<open>len\<close>, \<open>off\<close> and \<open>nh\<close>.\<close>

datatype ip_next = Done | Payload bytes bytes nat nat nat

definition ip_verbose :: "(bytes \<Rightarrow> string) \<Rightarrow> netdissect_options \<Rightarrow> bool \<Rightarrow> bytes \<Rightarrow> nat \<Rightarrow> (string \<times> bool) option" where
  "ip_verbose ipaddr ndo odd_ptr ip hlen =
     (if ndo_vflag ndo = 0 then Some ([], False)
      else do {
        s1 \<leftarrow> ip_fields_text ip;
        (s2, truncated) \<leftarrow> print_opts_cksum ipaddr (ndo_Kflag ndo) odd_ptr ip hlen;
        s3 \<leftarrow> (if truncated then map_option (\<lambda>a. a @ '': '' @ nd_print_trunc ''ip'') (addrs_line ipaddr ip) else Some []);
        Some (s1 @ s2 @ '')'' @ [CHR 0x0A] @ ''    '' @ s3, truncated)
      })"

text \<open>\<open>ip_print\<close> from the point where the capture has been cut to the length of the packet: \<open>ip\<close> is the
  cut capture, \<open>len\<close> the total length.\<close>

definition ip_body :: "(bytes \<Rightarrow> string) \<Rightarrow> netdissect_options \<Rightarrow> bool \<Rightarrow> bytes \<Rightarrow> nat \<Rightarrow> nat \<Rightarrow> (string \<times> ip_next) option" where
  "ip_body ipaddr ndo odd_ptr ip hlen len = do {
     off \<leftarrow> be2_at ip 6;
     p \<leftarrow> u1_at ip 9;
     (s, truncated) \<leftarrow> ip_verbose ipaddr ndo odd_ptr ip hlen;
     (if truncated then Some (s, Done)
      else if off mod 0x2000 = 0 then do {
        a \<leftarrow> (if p \<noteq> IPPROTO_TCP \<and> p \<noteq> IPPROTO_UDP \<and> p \<noteq> IPPROTO_SCTP \<and> p \<noteq> IPPROTO_DCCP
              then map_option (\<lambda>a. a @ '': '') (addrs_line ipaddr ip) else Some []);
        Some (s @ a, Payload ip (drop hlen ip) (len - hlen) off p)
      }
      else if ndo_qflag ndo > 1 then Some (s, Done)
      else do {
        a \<leftarrow> addrs_line ipaddr ip;
        Some (s @ a @ '':'' @
          (case netdb_protoname p of
             Some name \<Rightarrow> if ndo_nflag ndo = 0 then '' '' @ name else '' ip-proto-'' @ dec p
           | None \<Rightarrow> '' ip-proto-'' @ dec p), Done)
      })
   }"

definition ip_header :: "(bytes \<Rightarrow> string) \<Rightarrow> netdissect_options \<Rightarrow> bool \<Rightarrow> bytes \<Rightarrow> nat \<Rightarrow> (string \<times> ip_next) option" where
  "ip_header ipaddr ndo odd_ptr bp len0 =
     (if length bp < 1 then Some (nd_print_trunc ''ip'', Done)
      else do {
        vhl \<leftarrow> u1_at bp 0;
        (if vhl div 16 \<noteq> 4 then
           Some ((if vhl div 16 = 6 then ''IP6, wrong link-layer encapsulation'' else ''IP'' @ dec (vhl div 16)) @ '' (invalid)'', Done)
         else
           let s0 = (if ndo_eflag ndo then [] else ''IP ''); hlen = vhl mod 16 * 4 in
           if length bp < 20 then Some (s0 @ nd_print_trunc ''ip'', Done)
           else if len0 < 20 then Some (s0 @ ''truncated-ip '' @ dec len0, Done)
           else if hlen < 20 then Some (s0 @ ''bad-hlen '' @ dec hlen, Done)
           else do {
             len \<leftarrow> be2_at bp 2;
             let s1 = s0 @ (if len0 < len then ''truncated-ip - '' @ dec (len - len0) @ '' bytes missing! '' else []);
             (if len < hlen then Some (s1 @ ''bad-len '' @ dec len, Done)
              else map_option (\<lambda>(s, e). (s1 @ s, e)) (ip_body ipaddr ndo odd_ptr (take len bp) hlen len))
           })
      })"

section \<open>The payload\<close>

text \<open>The protocols with a printer of their own that is an argument here.\<close>

definition upper_protos :: "nat list" where
  "upper_protos = [IPPROTO_SCTP, IPPROTO_DCCP, IPPROTO_TCP, IPPROTO_UDP, IPPROTO_ICMP, IPPROTO_PIGP, IPPROTO_EIGRP,
     IPPROTO_EGP, IPPROTO_OSPF, IPPROTO_IGMP, IPPROTO_IPV6, IPPROTO_RSVP, IPPROTO_GRE, IPPROTO_MOBILE, IPPROTO_PIM,
     IPPROTO_PGM]"

text \<open>The extra argument of a printer: the more-fragments bit and the offset for TCP, UDP and ICMP.\<close>

definition frag_arg :: "nat \<Rightarrow> nat \<Rightarrow> nat" where
  "frag_arg nh off = (if nh = IPPROTO_TCP \<or> nh = IPPROTO_UDP \<or> nh = IPPROTO_ICMP then off mod 0x4000 else 0)"

definition default_text :: "netdissect_options \<Rightarrow> nat \<Rightarrow> nat \<Rightarrow> string" where
  "default_text ndo nh len =
     (case netdb_protoname nh of
        Some name \<Rightarrow> if ndo_nflag ndo = 0 then '' '' @ name else '' ip-proto-'' @ dec nh
      | None \<Rightarrow> '' ip-proto-'' @ dec nh) @ '' '' @ dec len"

type_synonym upper_printer = "nat \<Rightarrow> bytes \<Rightarrow> nat \<Rightarrow> bytes \<Rightarrow> nat \<Rightarrow> string"

definition vrrp_text :: "upper_printer \<Rightarrow> (bytes \<Rightarrow> string) \<Rightarrow> netdissect_options \<Rightarrow> bytes \<Rightarrow> bytes \<Rightarrow> nat \<Rightarrow> string option" where
  "vrrp_text upper ipaddr ndo ip cp len = do {
     a \<leftarrow> (if ndo_vflag ndo = 0 then Some []
           else map_option (\<lambda>a. (if ndo_carp ndo then ''carp '' else ''vrrp '') @ a @ '': '') (addrs_line ipaddr ip));
     ttl \<leftarrow> u1_at ip 8;
     Some (a @ upper IPPROTO_VRRP cp len ip ttl)
   }"

lemma ip_body_cp:
  "ip_body ipaddr ndo odd_ptr ip hlen len = Some (s, Payload ip' cp len' off nh) \<Longrightarrow> cp = drop hlen ip"
  by (auto simp: ip_body_def split: if_splits Option.bind_splits)

lemma ip_header_shorter:
  "ip_header ipaddr ndo odd_ptr bp len0 = Some (s, Payload ip cp len off nh) \<Longrightarrow> length cp < length bp"
  by (auto simp: ip_header_def Let_def split: if_splits Option.bind_splits dest!: ip_body_cp)

lemma ah_print_advance:
  "ah_print vflag bp = Some (s, adv) \<Longrightarrow> 0 < adv \<Longrightarrow> length (drop (nat adv) bp) < length bp"
  by (auto simp: ah_print_def Let_def split: if_splits Option.bind_splits)

text \<open>
  Without a secret \<open>esp_print\<close> returns \<open>-1\<close>, so the code of the demultiplexer that goes on behind a
  decrypted payload is not reached. The printers in \<open>upper\<close> are taken to return a text.
\<close>

function ip_print :: "upper_printer \<Rightarrow> (bytes \<Rightarrow> string) \<Rightarrow> netdissect_options \<Rightarrow> bool \<Rightarrow> bytes \<Rightarrow> nat \<Rightarrow> string option"
  and ip_print_demux :: "upper_printer \<Rightarrow> (bytes \<Rightarrow> string) \<Rightarrow> netdissect_options \<Rightarrow> bool \<Rightarrow> bytes \<Rightarrow> bytes \<Rightarrow> nat \<Rightarrow> nat \<Rightarrow> nat \<Rightarrow>
    string option" where
  "ip_print upper ipaddr ndo odd_ptr bp len0 =
     (case ip_header ipaddr ndo odd_ptr bp len0 of
        None \<Rightarrow> None
      | Some (s, Done) \<Rightarrow> Some s
      | Some (s, Payload ip cp len off nh) \<Rightarrow>
          map_option ((@) s) (ip_print_demux upper ipaddr ndo odd_ptr ip cp len off nh))"
| "ip_print_demux upper ipaddr ndo odd_ptr ip cp len off nh =
     (if nh = IPPROTO_AH then
        if length cp < 1 then Some ''[|AH]''
        else (case ah_print (ndo_vflag ndo) cp of
                None \<Rightarrow> None
              | Some (s, advance) \<Rightarrow>
                  if advance \<le> 0 then Some s
                  else map_option ((@) s)
                    (ip_print_demux upper ipaddr ndo odd_ptr ip (drop (nat advance) cp)
                       (nat ((int len - advance) mod 2 ^ 32)) off (unat (cp ! 0))))
      else if nh = IPPROTO_ESP then esp_print cp len
      else if nh = IPPROTO_IPCOMP then ipcomp_print cp
      else if nh = IPPROTO_ND then Some ('' nd '' @ dec len)
      else if nh = IPPROTO_IPV4 then
        map_option (\<lambda>s. s @ (if ndo_vflag ndo = 0 then '' (ipip-proto-4)'' else []))
          (ip_print upper ipaddr ndo odd_ptr cp len)
      else if nh = IPPROTO_VRRP then vrrp_text upper ipaddr ndo ip cp len
      else if nh \<in> set upper_protos then Some (upper nh cp len ip (frag_arg nh off))
      else Some (default_text ndo nh len))"
  by pat_completeness auto
termination
  by (relation "measure (\<lambda>x. case x of Inl (upper, ipaddr, ndo, odd_ptr, bp, len0) \<Rightarrow> 2 * length bp
        | Inr (upper, ipaddr, ndo, odd_ptr, ip, cp, len, off, nh) \<Rightarrow> 2 * length cp + 1)")
     (auto dest!: ip_header_shorter ah_print_advance)

declare ip_print.simps [simp del] ip_print_demux.simps [simp del]

definition ip_inner_print :: "upper_printer \<Rightarrow> (bytes \<Rightarrow> string) \<Rightarrow> netdissect_options \<Rightarrow> bool \<Rightarrow> bytes \<Rightarrow> nat \<Rightarrow> nat \<Rightarrow> bytes \<Rightarrow>
    string option" where
  "ip_inner_print upper ipaddr ndo odd_ptr bp len nh bp2 =
     ip_print_demux upper ipaddr ndo odd_ptr bp2 bp len 0 (nh mod 256)"

definition ipN_print :: "upper_printer \<Rightarrow> (bytes \<Rightarrow> nat \<Rightarrow> string) \<Rightarrow> (bytes \<Rightarrow> string) \<Rightarrow> netdissect_options \<Rightarrow> bool \<Rightarrow> bytes \<Rightarrow> nat \<Rightarrow>
    string option" where
  "ipN_print upper ip6_print ipaddr ndo odd_ptr bp len =
     (if len < 1 then Some (''truncated-ip '' @ dec len)
      else if length bp < 1 then Some (nd_print_trunc ''ipN'')
      else let v = unat (bp ! 0) div 16 in
        if v = 4 then ip_print upper ipaddr ndo odd_ptr bp len
        else if v = 6 then Some (ip6_print bp len)
        else Some (''unknown ip '' @ dec v))"

end
