(* ===== verification/Txtproto.thy ===== *)
theory Txtproto
  imports Util_Print
begin

text \<open>
  The printer for text protocols (FTP, HTTP, SMTP and others) of \<open>tcpdump/util-print.c\<close> and
  \<open>tcpdump/ascii_strcasecmp.c\<close>. \<open>cap\<close> are the captured bytes of the payload, \<open>len\<close> its length in the
  packet; a byte is only looked at when it was captured.
\<close>

section \<open>Comparison without case\<close>

definition charmap :: "u8 list" where
  "charmap = [0x00, 0x01, 0x02, 0x03, 0x04, 0x05, 0x06, 0x07, 0x08, 0x09, 0x0a, 0x0b, 0x0c, 0x0d, 0x0e, 0x0f,
     0x10, 0x11, 0x12, 0x13, 0x14, 0x15, 0x16, 0x17, 0x18, 0x19, 0x1a, 0x1b, 0x1c, 0x1d, 0x1e, 0x1f,
     0x20, 0x21, 0x22, 0x23, 0x24, 0x25, 0x26, 0x27, 0x28, 0x29, 0x2a, 0x2b, 0x2c, 0x2d, 0x2e, 0x2f,
     0x30, 0x31, 0x32, 0x33, 0x34, 0x35, 0x36, 0x37, 0x38, 0x39, 0x3a, 0x3b, 0x3c, 0x3d, 0x3e, 0x3f,
     0x40, 0x61, 0x62, 0x63, 0x64, 0x65, 0x66, 0x67, 0x68, 0x69, 0x6a, 0x6b, 0x6c, 0x6d, 0x6e, 0x6f,
     0x70, 0x71, 0x72, 0x73, 0x74, 0x75, 0x76, 0x77, 0x78, 0x79, 0x7a, 0x5b, 0x5c, 0x5d, 0x5e, 0x5f,
     0x60, 0x61, 0x62, 0x63, 0x64, 0x65, 0x66, 0x67, 0x68, 0x69, 0x6a, 0x6b, 0x6c, 0x6d, 0x6e, 0x6f,
     0x70, 0x71, 0x72, 0x73, 0x74, 0x75, 0x76, 0x77, 0x78, 0x79, 0x7a, 0x7b, 0x7c, 0x7d, 0x7e, 0x7f,
     0x80, 0x81, 0x82, 0x83, 0x84, 0x85, 0x86, 0x87, 0x88, 0x89, 0x8a, 0x8b, 0x8c, 0x8d, 0x8e, 0x8f,
     0x90, 0x91, 0x92, 0x93, 0x94, 0x95, 0x96, 0x97, 0x98, 0x99, 0x9a, 0x9b, 0x9c, 0x9d, 0x9e, 0x9f,
     0xa0, 0xa1, 0xa2, 0xa3, 0xa4, 0xa5, 0xa6, 0xa7, 0xa8, 0xa9, 0xaa, 0xab, 0xac, 0xad, 0xae, 0xaf,
     0xb0, 0xb1, 0xb2, 0xb3, 0xb4, 0xb5, 0xb6, 0xb7, 0xb8, 0xb9, 0xba, 0xbb, 0xbc, 0xbd, 0xbe, 0xbf,
     0xc0, 0xc1, 0xc2, 0xc3, 0xc4, 0xc5, 0xc6, 0xc7, 0xc8, 0xc9, 0xca, 0xcb, 0xcc, 0xcd, 0xce, 0xcf,
     0xd0, 0xd1, 0xd2, 0xd3, 0xd4, 0xd5, 0xd6, 0xd7, 0xd8, 0xd9, 0xda, 0xdb, 0xdc, 0xdd, 0xde, 0xdf,
     0xe0, 0xe1, 0xe2, 0xe3, 0xe4, 0xe5, 0xe6, 0xe7, 0xe8, 0xe9, 0xea, 0xeb, 0xec, 0xed, 0xee, 0xef,
     0xf0, 0xf1, 0xf2, 0xf3, 0xf4, 0xf5, 0xf6, 0xf7, 0xf8, 0xf9, 0xfa, 0xfb, 0xfc, 0xfd, 0xfe, 0xff]"

definition cm :: "u8 \<Rightarrow> u8" where
  "cm c = charmap ! unat c"

text \<open>The byte a pointer into a string points to; the string ends with a zero.\<close>

definition hd0 :: "bytes \<Rightarrow> u8" where
  "hd0 s = (case s of [] \<Rightarrow> 0 | c # _ \<Rightarrow> c)"

function ascii_strcasecmp :: "bytes \<Rightarrow> bytes \<Rightarrow> int" where
  "ascii_strcasecmp s1 s2 =
     (if cm (hd0 s1) = cm (hd0 s2) then
        if hd0 s1 = 0 then 0 else ascii_strcasecmp (tl s1) (tl s2)
      else uint (cm (hd0 s1)) - uint (cm (hd0 s2)))"
  by pat_completeness auto
termination
  by (relation "measure (\<lambda>(s1, s2). length s1)") (auto simp: hd0_def split: list.splits)

declare ascii_strcasecmp.simps [simp del]

fun ascii_strncasecmp :: "bytes \<Rightarrow> bytes \<Rightarrow> nat \<Rightarrow> int" where
  "ascii_strncasecmp s1 s2 0 = 0"
| "ascii_strncasecmp s1 s2 (Suc n) =
     (if cm (hd0 s1) \<noteq> cm (hd0 s2) then uint (cm (hd0 s1)) - uint (cm (hd0 s2))
      else if hd0 s1 = 0 then 0
      else ascii_strncasecmp (tl s1) (tl s2) n)"

section \<open>Tokens and lines\<close>

definition c_isascii :: "u8 \<Rightarrow> bool" where "c_isascii b \<longleftrightarrow> b < 0x80"
definition c_isprint :: "u8 \<Rightarrow> bool" where "c_isprint b \<longleftrightarrow> 0x20 \<le> b \<and> b \<le> 0x7E"
definition c_isblank :: "u8 \<Rightarrow> bool" where "c_isblank b \<longleftrightarrow> b = 0x20 \<or> 0x09 \<le> b \<and> b \<le> 0x0D"
definition c_isdigit :: "u8 \<Rightarrow> bool" where "c_isdigit b \<longleftrightarrow> 0x30 \<le> b \<and> b \<le> 0x39"

text \<open>The first loop of \<open>fetch_token\<close>; \<open>None\<close> is \<open>return (0)\<close>.\<close>

function token_scan :: "bytes \<Rightarrow> nat \<Rightarrow> nat \<Rightarrow> nat \<Rightarrow> bytes \<Rightarrow> (nat \<times> bytes) option" where
  "token_scan cap len tbuflen idx tok =
     (if idx < len then
        if length cap \<le> idx then None
        else let b = cap ! idx in
          if \<not> c_isascii b then None
          else if c_isblank b then Some (idx, tok)
          else if \<not> c_isprint b then None
          else if length tok + 2 > tbuflen then None
          else token_scan cap len tbuflen (idx + 1) (tok @ [b])
      else Some (idx, tok))"
  by pat_completeness auto
termination
  by (relation "measure (\<lambda>(cap, len, tbuflen, idx, tok). len - idx)") auto

declare token_scan.simps [simp del]

function skip_blanks :: "bytes \<Rightarrow> nat \<Rightarrow> nat \<Rightarrow> nat" where
  "skip_blanks cap len idx =
     (if idx < len then
        if length cap \<le> idx then idx
        else let b = cap ! idx in
          if b = 0x0D \<or> b = 0x0A then idx
          else if \<not> c_isascii b \<or> \<not> c_isprint b then idx
          else if \<not> c_isblank b then idx
          else skip_blanks cap len (idx + 1)
      else idx)"
  by pat_completeness auto
termination
  by (relation "measure (\<lambda>(cap, len, idx). len - idx)") auto

declare skip_blanks.simps [simp del]

definition fetch_token :: "bytes \<Rightarrow> nat \<Rightarrow> nat \<Rightarrow> nat \<Rightarrow> (nat \<times> bytes) option" where
  "fetch_token cap idx len tbuflen =
     (case token_scan cap len tbuflen idx [] of
        None \<Rightarrow> None
      | Some (i, tok) \<Rightarrow> if tok = [] then None else Some (skip_blanks cap len i, tok))"

text \<open>The loop of \<open>print_txt_line\<close>: how it ends, and where.\<close>

datatype txt_end = Line nat nat | Cut nat | Binary

function txt_scan :: "bytes \<Rightarrow> nat \<Rightarrow> nat \<Rightarrow> txt_end" where
  "txt_scan cap len idx =
     (if idx < len then
        if length cap \<le> idx then Cut idx
        else let b = cap ! idx in
          if b = 0x0A then Line idx (idx + 1)
          else if b = 0x0D then
            if idx + 1 \<ge> len then Binary
            else if length cap \<le> idx + 1 then Cut idx
            else if cap ! (idx + 1) = 0x0A then Line idx (idx + 2)
            else Binary
          else if \<not> c_isascii b \<or> \<not> c_isprint b \<and> b \<noteq> 0x09 then Binary
          else txt_scan cap len (idx + 1)
      else Cut idx)"
  by pat_completeness auto
termination
  by (relation "measure (\<lambda>(cap, len, idx). len - idx)") auto

declare txt_scan.simps [simp del]

definition txt_bytes :: "bytes \<Rightarrow> nat \<Rightarrow> nat \<Rightarrow> string" where
  "txt_bytes cap startidx idx = map chr8 (take (idx - startidx) (drop startidx cap))"

definition print_txt_line :: "string \<Rightarrow> string \<Rightarrow> bytes \<Rightarrow> nat \<Rightarrow> nat \<Rightarrow> string \<times> nat" where
  "print_txt_line protoname prefix cap idx len =
     (case txt_scan cap len idx of
        Line e next \<Rightarrow> (prefix @ txt_bytes cap idx e, next)
      | Cut e \<Rightarrow> (prefix @ txt_bytes cap idx e @ ''[!'' @ protoname @ '']'', 0)
      | Binary \<Rightarrow> ([], 0))"

lemma txt_scan_Line: "txt_scan cap len idx = Line e next \<Longrightarrow> idx \<le> e \<and> e < next \<and> next \<le> len \<and> next \<le> length cap"
  by (induction cap len idx rule: txt_scan.induct)
     (subst (asm) (2) txt_scan.simps, auto simp: Let_def split: if_splits)

section \<open>The printer\<close>

text \<open>The loop over the lines in verbose mode.\<close>

function txt_lines :: "string \<Rightarrow> bytes \<Rightarrow> nat \<Rightarrow> nat \<Rightarrow> string" where
  "txt_lines protoname cap len idx =
     (if idx < len then
        let (out, eol) = print_txt_line protoname [CHR 0x0A, CHR 0x09] cap idx len in
        if eol \<noteq> 0 then out @ txt_lines protoname cap len eol else out
      else [])"
  by pat_completeness auto
termination
  by (relation "measure (\<lambda>(protoname, cap, len, idx). len - idx)")
     (auto simp: print_txt_line_def split: txt_end.splits dest: txt_scan_Line)

declare txt_lines.simps [simp del]

definition MAX_TOKEN :: nat where "MAX_TOKEN = 128"

definition c_toupper :: "char \<Rightarrow> char" where
  "c_toupper c = (let n = of_char c :: nat in if 97 \<le> n \<and> n \<le> 122 then char_of (n - 32) else c)"

text \<open>Three digits and the end of the token.\<close>

definition is_resp_code :: "bytes \<Rightarrow> bool" where
  "is_resp_code tok \<longleftrightarrow> length tok = 3 \<and> list_all c_isdigit tok"

text \<open>Whether the payload is printed: \<open>cmds\<close> is the list of request names, if the protocol has one,
  and \<open>second\<close> the flag \<open>RESP_CODE_SECOND_TOKEN\<close>.\<close>

definition print_this :: "bytes \<Rightarrow> nat \<Rightarrow> bytes list option \<Rightarrow> bool \<Rightarrow> bool" where
  "print_this cap len cmds second =
     (case cmds of
        None \<Rightarrow> True
      | Some cs \<Rightarrow>
          (case fetch_token cap 0 len (MAX_TOKEN + 1) of
             None \<Rightarrow> False
           | Some (idx, token) \<Rightarrow>
               list_ex (\<lambda>cmd. ascii_strcasecmp token cmd = 0) cs \<or>
               (if second then
                  case fetch_token cap idx len (MAX_TOKEN + 1) of
                    None \<Rightarrow> False
                  | Some (idx2, token2) \<Rightarrow> is_resp_code token2
                else is_resp_code token)))"

definition txtproto_print :: "bool \<Rightarrow> bytes \<Rightarrow> nat \<Rightarrow> string \<Rightarrow> bytes list option \<Rightarrow> bool \<Rightarrow> string" where
  "txtproto_print vflag cap len protoname cmds second =
     map c_toupper protoname @
     (if print_this cap len cmds second then
        if vflag then '', length: '' @ dec len @ txt_lines protoname cap len 0
        else fst (print_txt_line protoname '': '' cap 0 len)
      else [])"

end
