(* ===== verification/Util_Print_Correct.thy ===== *)
theory Util_Print_Correct
  imports Txtproto
begin

text \<open>
  What the shared printers of tcpdump guarantee: nothing but printable characters reaches the
  terminal and only captured bytes are read; names of bit fields, tokens and masks are right;
  the loops end.
\<close>

section \<open>Printable output\<close>

definition printable :: "string \<Rightarrow> bool" where
  "printable = list_all (\<lambda>c. 0x20 \<le> (of_char c :: nat) \<and> (of_char c :: nat) \<le> 0x7E)"

lemma printable_simps [simp]:
  "printable []" "printable (c # s) \<longleftrightarrow> 0x20 \<le> (of_char c :: nat) \<and> (of_char c :: nat) \<le> 0x7E \<and> printable s"
  "printable (s @ t) \<longleftrightarrow> printable s \<and> printable t"
  "printable (concat ss) \<longleftrightarrow> list_all printable ss"
  by (auto simp: printable_def list_all_iff)

lemma of_char_chr8 [simp]: "(of_char (chr8 c) :: nat) = unat c"
  using unat_u8_less [of c] by (simp add: chr8_def)

lemma xor_64: "unat c < 32 \<Longrightarrow> unat (c XOR 0x40) = unat c + 64" for c :: u8
proof -
  assume c: "unat c < 32"
  have "list_all (\<lambda>n. unat ((word_of_nat n :: u8) XOR 0x40) = n + 64) [0..<32]" by code_simp
  then have "\<forall>n\<in>set [0..<32]. unat ((word_of_nat n :: u8) XOR 0x40) = n + 64"
    by (simp only: list_all_iff)
  from bspec [OF this, of "unat c"] c show ?thesis by simp
qed

lemma ascii_bounds:
  "unat (ND_TOASCII c) < 128" "ND_ISASCII c \<Longrightarrow> unat c < 128"
  "unat c < 128 \<Longrightarrow> \<not> ND_ISPRINT c \<Longrightarrow> \<not> unat c < 32 \<Longrightarrow> c = 0x7F"
proof -
  have "ND_TOASCII c = take_bit 7 c" by (simp add: ND_TOASCII_def take_bit_eq_mask mask_eq_exp_minus_1)
  then show "unat (ND_TOASCII c) < 128" by (simp add: take_bit_eq_mod unat_mod)
  show "unat c < 128" if "ND_ISASCII c"
  proof -
    have "\<not> bit c 7" using that by (auto simp: ND_ISASCII_def bit_eq_iff bit_simps dest: spec [of _ 7])
    then have "\<not> bit (unat c) 7" by (simp add: bit_unsigned_iff)
    then have "even (unat c div 128)" by (simp add: bit_iff_odd)
    moreover have "unat c div 128 < 2" using unat_u8_less [of c] by (simp add: div_less_iff_less_mult)
    moreover have "q = 0" if "q < 2" "even q" for q :: nat using that by presburger
    ultimately have "unat c div 128 = 0" by blast
    then show ?thesis by (simp add: div_eq_0_iff)
  qed
  show "c = 0x7F" if "unat c < 128" "\<not> ND_ISPRINT c" "\<not> unat c < 32"
    using that by (intro unsigned_word_eqI [where ?'a = nat]) (simp add: ND_ISPRINT_def word_le_nat_alt)
qed

lemma fn_print_char_printable: "printable (fn_print_char c)"
proof -
  define d where "d = (if ND_ISASCII c then c else ND_TOASCII c)"
  have "unat d < 128" using ascii_bounds(1,2) [of c] by (simp add: d_def)
  then consider "ND_ISPRINT d" | "unat d < 32" "\<not> ND_ISPRINT d" | "d = 0x7F" "\<not> ND_ISPRINT d"
    using ascii_bounds(3) [of d] by blast
  then have "printable [chr8 (if ND_ISPRINT d then d else d XOR 0x40)]"
    by cases (auto simp: xor_64 ND_ISPRINT_def word_le_nat_alt)
  then show ?thesis unfolding fn_print_char_def Let_def d_def [symmetric] by simp
qed

lemma ep_simps [simp]: "before (Some (Suc n))" "\<not> before (Some 0)" "next_ep (Some (Suc n)) = Some n"
  by (simp_all add: before_def next_ep_def)

definition fn_text :: "bytes \<Rightarrow> string" where
  "fn_text s = concat (map fn_print_char s)"

lemma fn_text_simps [simp]: "fn_text [] = []" "fn_text (c # s) = fn_print_char c @ fn_text s"
  by (simp_all add: fn_text_def)

lemma fn_text_printable: "printable (fn_text s)"
  by (simp add: fn_text_def list_all_iff fn_print_char_printable)

lemma nd_print_captured:
  "nd_print s (Some (length s)) = Some (fn_text (takeWhile (\<lambda>c. c \<noteq> 0) s), if 0 \<in> set s then 0 else 1)"
  by (induction s) (auto simp: print_more_def)

lemma nd_printn_captured:
  "nd_printn s n (Some (length s)) = Some (fn_text (take n s), if n \<le> length s then 0 else 1)"
proof (induction s arbitrary: n)
  case (Cons c s)
  show ?case by (cases n) (auto simp: Cons.IH print_more_def)
qed auto

lemma nd_printzp_captured:
  "nd_printzp s n (Some (length s)) =
     Some (fn_text (takeWhile (\<lambda>c. c \<noteq> 0) (take n s)), if 0 \<in> set (take n s) \<or> n \<le> length s then 0 else 1)"
proof (induction s arbitrary: n)
  case (Cons c s)
  show ?case by (cases n) (auto simp: Cons.IH print_more_def)
qed auto

lemma ztn_loop_captured:
  "ztn_loop k s n (Some (length s)) =
     Some (fn_text (takeWhile (\<lambda>c. c \<noteq> 0) (take n s)),
       if 0 \<in> set (take n s) then k + Suc (length (takeWhile (\<lambda>c. c \<noteq> 0) (take n s))) else 0)"
proof (induction s arbitrary: k n)
  case (Cons c s)
  show ?case by (cases n) (auto simp: Cons.IH print_more_def)
qed auto

section \<open>Bit fields\<close>

lemma ex_nat_Suc: "(\<exists>k. P k) \<longleftrightarrow> P 0 \<or> (\<exists>k. P (Suc k))" for P :: "nat \<Rightarrow> bool"
  by (metis not0_implies_Suc)

lemma rot_match_from:
  "rot_match v tokval rotbit \<longleftrightarrow> (\<exists>k. push_bit k rotbit \<noteq> 0 \<and> tokval = v AND push_bit k rotbit)"
proof (induction v tokval rotbit rule: rot_match.induct)
  case (1 v tokval rotbit)
  let ?P = "\<lambda>k. push_bit k rotbit \<noteq> 0 \<and> tokval = v AND push_bit k rotbit"
  have shift: "push_bit (Suc k) rotbit = push_bit k (push_bit 1 rotbit)" for k by simp
  have zero: "?P 0 \<longleftrightarrow> rotbit \<noteq> 0 \<and> tokval = v AND rotbit" by simp
  have step: "rot_match v tokval rotbit \<longleftrightarrow> (\<exists>k. ?P (Suc k))" if "\<not> (rotbit = 0 \<or> tokval = v AND rotbit)"
    using that 1 unfolding shift by (subst rot_match.simps) simp
  show ?case
  proof (cases "rotbit = 0 \<or> tokval = v AND rotbit")
    case True
    then show ?thesis unfolding ex_nat_Suc [of ?P] zero by (subst rot_match.simps) auto
  next
    case False
    then show ?thesis unfolding ex_nat_Suc [of ?P] zero step [OF False] by blast
  qed
qed

lemma rot_match_bit: "i < 32 \<Longrightarrow> rot_match v (push_bit i 1) 1 \<longleftrightarrow> bit v i"
proof -
  assume i: "i < 32"
  have e: "push_bit k (1 :: u32) = 2 ^ k" for k by (simp add: push_bit_eq_mult)
  have nz: "(2 ^ k :: u32) \<noteq> 0 \<longleftrightarrow> k < 32" for k by (auto simp: exp_eq_zero_iff)
  have "(2 ^ i :: u32) = v AND 2 ^ k \<longleftrightarrow> i = k \<and> bit v i" if "k < 32" for k
  proof
    assume e: "2 ^ i = v AND 2 ^ k"
    have "bit (v AND 2 ^ k) i" unfolding e [symmetric] using i by (simp add: bit_exp_iff)
    then show "i = k \<and> bit v i" by (auto simp: bit_and_iff bit_exp_iff)
  next
    assume "i = k \<and> bit v i"
    then show "2 ^ i = v AND 2 ^ k" by (intro bit_word_eqI) (auto simp: bit_and_iff bit_exp_iff)
  qed
  then show ?thesis unfolding rot_match_from e nz using i by blast
qed

text \<open>The names of the bits that are set, in the order of the table, and names with a separator.\<close>

definition set_names :: "tok list \<Rightarrow> u32 \<Rightarrow> string list" where
  "set_names lp v = map snd (filter (\<lambda>(t, s). v AND t \<noteq> 0) lp)"

fun join :: "string \<Rightarrow> string list \<Rightarrow> string" where
  "join sep [] = []"
| "join sep (s # ss) = s @ concat (map ((@) sep) ss)"

definition single_bits :: "tok list \<Rightarrow> bool" where
  "single_bits = list_all (\<lambda>(t, s). \<exists>i<32. t = push_bit i 1)"

lemma rot_match_single: "i < 32 \<Longrightarrow> t = push_bit i 1 \<Longrightarrow> rot_match v t 1 \<longleftrightarrow> v AND t \<noteq> 0"
proof -
  assume i: "i < 32" "t = push_bit i 1"
  have "v AND push_bit i 1 \<noteq> 0 \<longleftrightarrow> bit v i"
    using and_exp_eq_0_iff_not_bit [of v i] by (simp add: push_bit_eq_mult)
  with i show ?thesis by (simp only: rot_match_bit)
qed

lemma strlcpy_fits: "length (buf @ s) < 1024 \<Longrightarrow> strlcpy_buf buf s = Inr (buf @ s)"
  by (auto simp: strlcpy_buf_def Let_def)

lemma bittok_loop_rest:
  "single_bits lp \<Longrightarrow> length (buf @ concat (map ((@) sep) (set_names lp v))) < 1024 \<Longrightarrow>
   bittok_loop lp v sep sep buf = Inr (buf @ concat (map ((@) sep) (set_names lp v)))"
proof (induction lp arbitrary: buf)
  case (Cons e lp)
  obtain t s where e: "e = (t, s)" by fastforce
  with Cons.prems(1) have m: "rot_match v t 1 \<longleftrightarrow> v AND t \<noteq> 0" "single_bits lp"
    using rot_match_single by (auto simp: single_bits_def)
  show ?case
    using Cons.IH [OF m(2), of "buf @ sep @ s"] Cons.IH [OF m(2), of buf] Cons.prems(2) e m(1)
    by (auto simp: set_names_def strlcpy_fits)
qed (simp add: set_names_def)

lemma bittok_loop_first:
  "single_bits lp \<Longrightarrow> length (join sep (set_names lp v)) < 1024 \<Longrightarrow>
   bittok_loop lp v sep [] [] = Inr (join sep (set_names lp v))"
proof (induction lp)
  case (Cons e lp)
  obtain t s where e: "e = (t, s)" by fastforce
  with Cons.prems(1) have m: "rot_match v t 1 \<longleftrightarrow> v AND t \<noteq> 0" "single_bits lp"
    using rot_match_single by (auto simp: single_bits_def)
  show ?case
    using bittok_loop_rest [OF m(2), of s sep v] Cons.IH [OF m(2)] Cons.prems(2) e m(1)
    by (auto simp: set_names_def strlcpy_fits)
qed (simp add: set_names_def)

text \<open>For a table with one bit per entry the result lists the names of the bits that are set, in the
  order of the table, or is the text for values without a name; whatever the table, it fits into
  the static buffer.\<close>

lemma bittok2str_names:
  assumes "single_bits lp" and "length (join sep (set_names lp v)) < 1024"
  shows "bittok2str_internal lp (Some f) v sep =
    (if join sep (set_names lp v) = [] then take 1024 (f v) else join sep (set_names lp v))"
  using bittok_loop_first [OF assms] by (simp add: bittok2str_internal_def snprintf_buf_def)

lemma strlcpy_bound:
  "length buf \<le> 1024 \<Longrightarrow> case strlcpy_buf buf s of Inl b \<Rightarrow> length b \<le> 1024 | Inr b \<Rightarrow> length b \<le> 1024"
  by (auto simp: strlcpy_buf_def Let_def)

lemma bittok_loop_bound:
  "length buf \<le> 1024 \<Longrightarrow> case bittok_loop lp v sep sepstr buf of Inl b \<Rightarrow> length b \<le> 1024 | Inr b \<Rightarrow> length b \<le> 1024"
proof (induction lp v sep sepstr buf rule: bittok_loop.induct)
  case (2 t s lp v sep sepstr buf)
  note b1 = strlcpy_bound [OF 2(3), of sepstr]
  show ?case
  proof (cases "rot_match v t 1")
    case True
    show ?thesis
    proof (cases "strlcpy_buf buf sepstr")
      case (Inr b)
      with b1 have b2: "length b \<le> 1024" by simp
      show ?thesis using True Inr strlcpy_bound [OF b2, of s] 2(1) [OF True Inr]
        by (cases "strlcpy_buf b s") simp_all
    qed (use True b1 in simp)
  qed (use 2 in simp)
qed simp

lemma bittok2str_bound: "length (bittok2str_internal lp fmt v sep) \<le> 1024"
  using bittok_loop_bound [of "[]" lp v sep "[]"]
  by (auto simp: bittok2str_internal_def snprintf_buf_def split: sum.splits)

section \<open>Tokens\<close>

text \<open>The text behind a pointer \<open>tok2str\<close> has returned lasts for three more calls.\<close>

definition toks_ok :: "tokbufs \<Rightarrow> bool" where
  "toks_ok T \<longleftrightarrow> tb_idx T < 4"

lemma tok2str_text:
  assumes "tok2str lp fmt v T = (p, T')"
  shows "str_at T' p = (case tok_text lp fmt v of Inl s \<Rightarrow> s | Inr s \<Rightarrow> take 127 s)"
  using assms by (auto simp: tok2str_def tok2strbuf_def snprintf_buf_def TOKBUFSIZE_def split: sum.splits)

fun tok2str_calls :: "(tok list \<times> (u32 \<Rightarrow> string) option \<times> u32) list \<Rightarrow> tokbufs \<Rightarrow> tokbufs" where
  "tok2str_calls [] T = T"
| "tok2str_calls ((lp, fmt, v) # cs) T = tok2str_calls cs (snd (tok2str lp fmt v T))"

lemma tok2str_step:
  "tb_idx (snd (tok2str lp fmt v T)) = (tb_idx T + 1) mod 4"
  "b \<noteq> tb_idx T \<Longrightarrow> tb_buf (snd (tok2str lp fmt v T)) b = tb_buf T b"
  by (auto simp: tok2str_def tok2strbuf_def split: sum.splits)

lemma tok2str_calls_keep:
  "(\<forall>k<length cs. (tb_idx T + k) mod 4 \<noteq> b) \<Longrightarrow> tb_idx T < 4 \<Longrightarrow> tb_buf (tok2str_calls cs T) b = tb_buf T b"
proof (induction cs arbitrary: T)
  case (Cons c cs)
  obtain lp fmt v where c: "c = (lp, fmt, v)" by (cases c) auto
  have "(tb_idx T + 0) mod 4 \<noteq> b" using Cons.prems(1) by (auto dest: spec [of _ 0])
  then have n: "b \<noteq> tb_idx T" using Cons.prems(2) by simp
  have "((tb_idx T + 1) mod 4 + k) mod 4 \<noteq> b" if "k < length cs" for k
    using Cons.prems(1) [rule_format, of "Suc k"] that by (simp add: mod_add_left_eq)
  with Cons.IH [of "snd (tok2str lp fmt v T)"] n show ?case by (simp add: c tok2str_step)
qed simp

lemma tok2str_lasts:
  assumes "toks_ok T" and "tok2str lp fmt v T = (p, T')" and "length cs \<le> 3"
  shows "str_at (tok2str_calls cs T') p = str_at T' p"
proof (cases p)
  case (Buf b)
  then have b: "b = tb_idx T" using assms(2) by (auto simp: tok2str_def tok2strbuf_def split: sum.splits)
  have i: "tb_idx T' = (tb_idx T + 1) mod 4" using tok2str_step(1) [of lp fmt v T] assms(2) by simp
  have "(tb_idx T' + k) mod 4 \<noteq> b" if "k < length cs" for k
    unfolding i b using that assms(1,3) by (simp add: toks_ok_def mod_add_left_eq) presburger
  with tok2str_calls_keep [of cs T' b] i Buf show ?thesis by simp
qed simp

section \<open>Masks and relative times\<close>

text \<open>\<open>mask2plen\<close> inverts the netmasks and refuses every other word.\<close>

lemma plen_masks_eq: "plen_masks = map (\<lambda>k. push_bit (32 - k) (- 1)) [0..<33]"
  by (simp add: plen_masks_def upt_rec mask_eq_exp_minus_1)

lemma plen_masks_distinct: "distinct plen_masks"
  by (simp add: plen_masks_def)

lemma length_plen_masks: "length plen_masks = 33"
  by (simp add: plen_masks_def)

lemma mask2plen_loop_found: "k \<le> n \<Longrightarrow> n \<le> 32 \<Longrightarrow> mask2plen_loop (plen_masks ! k) n = int k"
proof (induction n)
  case (Suc n)
  have "plen_masks ! Suc n = plen_masks ! k \<longleftrightarrow> Suc n = k"
    using nth_eq_iff_index_eq [OF plen_masks_distinct] Suc.prems by (simp add: length_plen_masks)
  with Suc show ?case by (cases "k = Suc n") auto
qed simp

lemma mask2plen_loop_none: "m \<notin> set plen_masks \<Longrightarrow> n \<le> 32 \<Longrightarrow> mask2plen_loop m n = - 1"
proof (induction n)
  case 0
  then show ?case using nth_mem [of 0 plen_masks] by (auto simp: length_plen_masks)
next
  case (Suc n)
  then show ?case using nth_mem [of "Suc n" plen_masks] by (auto simp: length_plen_masks)
qed

lemma mask2plen_netmask: "k \<le> 32 \<Longrightarrow> mask2plen (push_bit (32 - k) (- 1)) = int k"
  using mask2plen_loop_found [of k 32] by (simp add: mask2plen_def plen_masks_eq del: push_bit_minus_one)

lemma mask2plen_other:
  assumes "\<And>k. k \<le> 32 \<Longrightarrow> m \<noteq> push_bit (32 - k) (- 1)"
  shows "mask2plen m = - 1"
proof -
  have "m \<notin> set plen_masks"
  proof
    assume "m \<in> set plen_masks"
    then obtain k where "k < 33" "m = push_bit (32 - k) (- 1)"
      unfolding plen_masks_eq by (auto simp del: push_bit_minus_one)
    with assms [of k] show False by simp
  qed
  then show ?thesis by (simp add: mask2plen_def mask2plen_loop_none)
qed

text \<open>The parts of a relative time add up to it; the tables are never left.\<close>

lemma relts_loop_parts:
  "us \<noteq> [] \<Longrightarrow> fst (last us) = 1 \<Longrightarrow> list_all (\<lambda>u. 0 < fst u) us \<Longrightarrow>
   \<exists>ps. relts_loop us secs = Some (concat (map (\<lambda>(n, s, l). dec n @ l) ps)) \<and>
     sum_list (map (\<lambda>(n, s, l). n * s) ps) = secs \<and> (\<forall>(n, u) \<in> set ps. 0 < n \<and> u \<in> set us)"
proof (induction us arbitrary: secs)
  case (Cons e us)
  obtain s l where e: "e = (s, l)" by fastforce
  let ?Q = "\<lambda>us secs ps. relts_loop us secs = Some (concat (map (\<lambda>(n, s, l). dec n @ l) ps)) \<and>
     sum_list (map (\<lambda>(n, s, l). n * s) ps) = secs \<and> (\<forall>(n, u) \<in> set ps. 0 < n \<and> u \<in> set us)"
  have IH: "\<exists>ps. ?Q us k ps" if "us \<noteq> [] \<or> k = 0" for k
    using Cons.IH [of k] Cons.prems that by (cases "us = []") (auto intro: exI [of _ "[]"])
  show ?case
  proof (cases "secs < s")
    case True
    then have "us \<noteq> [] \<or> secs = 0" using Cons.prems e by (cases "us = []") auto
    with IH obtain ps where ps: "?Q us secs ps" by blast
    show ?thesis
    proof (cases "secs = 0")
      case False
      with True e ps show ?thesis by (auto intro!: exI [of _ ps])
    qed (auto simp: e intro: exI [of _ "[]"])
  next
    case False
    have "us \<noteq> [] \<or> secs - secs div s * s = 0" using Cons.prems e by (cases "us = []") auto
    with IH obtain ps where ps: "?Q us (secs - secs div s * s) ps" by blast
    have "0 < secs div s" using False Cons.prems e by (simp add: div_greater_zero_iff)
    moreover have "secs div s * s + (secs - secs div s * s) = secs" by (simp add: div_times_less_eq_dividend)
    moreover have "0 < secs" using False Cons.prems e by simp
    ultimately show ?thesis using ps False e by (intro exI [of _ "(secs div s, s, l) # ps"]) auto
  qed
qed simp

lemma unsigned_relts_parts:
  "\<exists>ps. unsigned_relts_print secs = Some (if secs = 0 then ''0s'' else concat (map (\<lambda>(n, s, l). dec n @ l) ps)) \<and>
     sum_list (map (\<lambda>(n, s, l). n * s) ps) = secs \<and> (\<forall>(n, u) \<in> set ps. 0 < n \<and> u \<in> set relts_units)"
proof -
  have "relts_units \<noteq> []" "fst (last relts_units) = 1" "list_all (\<lambda>u. 0 < fst u) relts_units"
    by (simp_all add: relts_units_def)
  from relts_loop_parts [OF this, of secs] obtain ps
    where "relts_loop relts_units secs = Some (concat (map (\<lambda>(n, s, l). dec n @ l) ps))"
      "sum_list (map (\<lambda>(n, s, l). n * s) ps) = secs" "\<forall>(n, u) \<in> set ps. 0 < n \<and> u \<in> set relts_units" by blast
  then show ?thesis by (intro exI [of _ ps]) (simp add: unsigned_relts_print_def)
qed

section \<open>Text protocols\<close>

text \<open>Printable characters, tabs and line ends.\<close>

definition clean :: "string \<Rightarrow> bool" where
  "clean = list_all (\<lambda>c. c \<in> {CHR 0x09, CHR 0x0A} \<or> 0x20 \<le> (of_char c :: nat) \<and> (of_char c :: nat) \<le> 0x7E)"

lemma clean_append [simp]: "clean (s @ t) \<longleftrightarrow> clean s \<and> clean t"
  by (auto simp: clean_def)

lemma clean_Cons: "clean (c # s) \<longleftrightarrow>
    (c \<in> {CHR 0x09, CHR 0x0A} \<or> 0x20 \<le> (of_char c :: nat) \<and> (of_char c :: nat) \<le> 0x7E) \<and> clean s"
  by (simp add: clean_def)

lemma clean_Nil [simp]: "clean []"
  by (simp add: clean_def)

definition txt_byte :: "u8 \<Rightarrow> bool" where
  "txt_byte b \<longleftrightarrow> c_isprint b \<or> b = 0x09"

definition end_of :: "txt_end \<Rightarrow> nat option" where
  "end_of r = (case r of Line e next \<Rightarrow> Some e | Cut e \<Rightarrow> Some e | Binary \<Rightarrow> None)"

lemma txt_scan_bytes:
  "end_of (txt_scan cap len idx) = Some e \<Longrightarrow>
   idx \<le> e \<and> (idx \<le> len \<longrightarrow> e \<le> len) \<and> (\<forall>i. idx \<le> i \<and> i < e \<longrightarrow> i < length cap \<and> txt_byte (cap ! i))"
proof (induction cap len idx rule: txt_scan.induct)
  case (1 cap len idx)
  show ?case
  proof (cases "idx < len \<and> idx < length cap \<and> cap ! idx \<noteq> 0x0A \<and> cap ! idx \<noteq> 0x0D \<and> c_isascii (cap ! idx) \<and> txt_byte (cap ! idx)")
    case True
    then have "txt_scan cap len idx = txt_scan cap len (idx + 1)"
      by (subst txt_scan.simps) (auto simp: txt_byte_def)
    moreover have "end_of (txt_scan cap len (idx + 1)) = Some e \<Longrightarrow> idx + 1 \<le> e \<and> (idx + 1 \<le> len \<longrightarrow> e \<le> len) \<and>
        (\<forall>i. idx + 1 \<le> i \<and> i < e \<longrightarrow> i < length cap \<and> txt_byte (cap ! i))"
      using True by (intro 1(1)) (auto simp: txt_byte_def)
    ultimately show ?thesis using 1(2) True by (auto simp: Suc_le_eq dest: le_neq_implies_less)
  next
    case False
    then have "e = idx" using 1(2)
      by (subst (asm) txt_scan.simps) (auto simp: end_of_def txt_byte_def Let_def split: if_splits)
    then show ?thesis by auto
  qed
qed

lemma txt_bytes_clean:
  assumes "end_of (txt_scan cap len idx) = Some e"
  shows "clean (txt_bytes cap idx e)"
proof -
  have "of_char (chr8 b) = (9 :: nat) \<or> 0x20 \<le> (of_char (chr8 b) :: nat) \<and> (of_char (chr8 b) :: nat) \<le> 0x7E"
    if "txt_byte b" for b
    using that by (auto simp: txt_byte_def c_isprint_def word_le_nat_alt)
  moreover have "chr8 b = CHR 0x09" if "of_char (chr8 b) = (9 :: nat)" for b
  proof -
    have "unat b = 9" using that by simp
    moreover have "char_of (9 :: nat) = CHR 0x09" by code_simp
    ultimately show ?thesis by (simp only: chr8_def)
  qed
  moreover have "txt_byte b" if "b \<in> set (take (e - idx) (drop idx cap))" for b
    using that txt_scan_bytes [OF assms] by (auto simp: in_set_conv_nth)
  ultimately show ?thesis by (auto simp: txt_bytes_def clean_def list_all_iff)
qed

lemma print_txt_line_clean:
  "clean prefix \<Longrightarrow> clean protoname \<Longrightarrow> clean (fst (print_txt_line protoname prefix cap idx len))"
  using txt_bytes_clean [of cap len idx]
  by (auto simp: print_txt_line_def end_of_def clean_Cons split: txt_end.splits)

lemma txt_lines_clean: "clean protoname \<Longrightarrow> clean (txt_lines protoname cap len idx)"
proof (induction protoname cap len idx rule: txt_lines.induct)
  case (1 protoname cap len idx)
  have "clean (fst (print_txt_line protoname [CHR 0x0A, CHR 0x09] cap idx len))"
    using 1(2) by (intro print_txt_line_clean) (simp_all add: clean_Cons)
  with 1 show ?case
    by (cases "print_txt_line protoname [CHR 0x0A, CHR 0x09] cap idx len")
       (subst txt_lines.simps, auto simp: Let_def)
qed

lemma clean_upper: "clean s \<Longrightarrow> clean (map c_toupper s)"
  by (induction s) (auto simp: clean_Cons c_toupper_def Let_def)

lemma clean_dec: "clean (dec n)"
  using dec_digits [of n]
  by (auto simp: clean_def is_digit_def elim!: list.pred_mono_strong)

text \<open>
  C19. Nothing harmful reaches the terminal. The printers for strings in packets, given a
  captured packet to its end, read no byte behind it, and print the bytes before the first
  zero (or the first \<open>n\<close> bytes) with control and 8-bit characters spelled out: only printable
  ASCII comes out. Their result says whether the string was cut off. The text protocol
  printer, for any payload, prints only printable ASCII, tabs and line ends.
\<close>

theorem packet_text_is_safe:
  assumes "clean protoname"
  shows "nd_print s (Some (length s)) =
      Some (fn_text (takeWhile (\<lambda>c. c \<noteq> 0) s), if 0 \<in> set s then 0 else 1) \<and>
    nd_printn s n (Some (length s)) = Some (fn_text (take n s), if n \<le> length s then 0 else 1) \<and>
    nd_printzp s n (Some (length s)) =
      Some (fn_text (takeWhile (\<lambda>c. c \<noteq> 0) (take n s)), if 0 \<in> set (take n s) \<or> n \<le> length s then 0 else 1) \<and>
    nd_printztn s n (Some (length s)) =
      Some (fn_text (takeWhile (\<lambda>c. c \<noteq> 0) (take n s)),
        if 0 \<in> set (take n s) then Suc (length (takeWhile (\<lambda>c. c \<noteq> 0) (take n s))) else 0) \<and>
    printable (fn_text s) \<and>
    clean (txtproto_print vflag cap len protoname cmds second)"
proof -
  have "clean (txtproto_print vflag cap len protoname cmds second)"
    using print_txt_line_clean [OF _ assms, of "'': ''"] txt_lines_clean [OF assms] clean_upper [OF assms] clean_dec [of len]
    by (auto simp: txtproto_print_def clean_Cons)
  then show ?thesis
    by (simp add: nd_print_captured nd_printn_captured nd_printzp_captured nd_printztn_def ztn_loop_captured
        fn_text_printable)
qed

theorem packet_text_is_safe_witness:
  "nd_print [0x1B, 0x41, 0x80, 0] (Some (length [0x1B, 0x41, 0x80, 0 :: u8])) = Some (''^[AM-^@'', 0) \<and>
   clean (txtproto_print True [0x48, 0x49, 0x1B] 3 ''ftp'' None False)"
proof -
  have c: "clean ''ftp''" by (simp add: clean_Cons)
  have "fn_text [0x1B, 0x41, 0x80] = ''^[AM-^@''" by code_simp
  then have t_eq: "Some (fn_text (takeWhile (\<lambda>c. c \<noteq> 0) [0x1B, 0x41, 0x80, 0]),
      if 0 \<in> set [0x1B, 0x41, 0x80, 0 :: u8] then 0 else 1) = Some (''^[AM-^@'', 0)" by simp
  show ?thesis
    using packet_text_is_safe [OF c, of "[0x1B, 0x41, 0x80, 0]" 0 True "[0x48, 0x49, 0x1B]" 3 None False]
    unfolding t_eq by blast
qed

end
