(* ===== verification/Ip_Print_Correct.thy ===== *)
theory Ip_Print_Correct
  imports Ip_Print Util_Print_Correct
begin

text \<open>
  The IP printer of tcpdump as a whole: it reads nothing but captured bytes, whatever the packet,
  and it shows the option the kernel module has inserted.
\<close>

section \<open>Only captured bytes are read\<close>

lemma u1_at_Some: "i < length p \<Longrightarrow> u1_at p i = Some (unat (p ! i))"
  by (simp add: u1_at_def nth_opt_def)

lemma be2_at_Some: "i + 2 \<le> length p \<Longrightarrow> be2_at p i = Some (be_val (take 2 (drop i p)))"
  by (simp add: be2_at_def mem_read_def)

lemma be4_at_Some: "i + 4 \<le> length p \<Longrightarrow> be4_at p i = Some (be_val (take 4 (drop i p)))"
  by (simp add: be4_at_def mem_read_def)

lemma route_loop_total: "\<exists>s rc. route_loop ipaddr cp len len_opt ptr = Some (s, rc)"
proof (induction ipaddr cp len len_opt ptr rule: route_loop.induct)
  case (1 ipaddr cp len len_opt ptr)
  then show ?case by (subst route_loop.simps) (auto simp: mem_read_def prepend_def)
qed

lemma ts_loop_total: "4 \<le> hoplen \<Longrightarrow> \<exists>s l t. ts_loop ipaddr cp len len_opt hoplen ptr = Some (s, l, t)"
proof (induction ipaddr cp len len_opt hoplen ptr rule: ts_loop.induct)
  case (1 ipaddr cp len len_opt hoplen ptr)
  show ?case
  proof (cases "len < len_opt \<and> len + hoplen \<le> length cp")
    case True
    then have r: "be4_at cp (len + hoplen - 4) = Some (be_val (take 4 (drop (len + hoplen - 4) cp)))"
        "mem_read cp len 4 = Some (take 4 (drop len cp))"
      using 1(2) by (simp_all add: be4_at_Some mem_read_def)
    obtain a where a: "(if hoplen \<noteq> 8 then Some [] else map_option ipaddr (mem_read cp len 4)) = Some a"
      using r(2) by (cases "hoplen = 8") auto
    have "\<exists>s l t. ts_loop ipaddr cp (len + hoplen) len_opt hoplen ptr = Some (s, l, t)"
      using True 1(2) by (intro 1(1) [OF _ _ r(1) a]) auto
    with True 1(2) r(1) a show ?thesis by (subst ts_loop.simps) auto
  next
    case False
    with 1(2) show ?thesis by (subst ts_loop.simps) auto
  qed
qed

lemma ip_printroute_total: "\<exists>s rc. ip_printroute ipaddr cp len_opt = Some (s, rc)"
  using route_loop_total [of ipaddr cp 3 len_opt "pred32 (unat (cp ! 2))"]
  by (auto simp: ip_printroute_def u1_at_Some prepend_def Let_def)

lemma ip_printts_total: "\<exists>s rc. ip_printts ipaddr cp len_opt = Some (s, rc)"
proof -
  let ?ptr = "pred32 (unat (cp ! 2))" and ?hoplen = "if unat (cp ! 3) mod 16 \<noteq> 0 then 8 else 4 :: nat"
  have "4 \<le> ?hoplen" by simp
  then obtain s l t where "ts_loop ipaddr cp 4 len_opt ?hoplen ?ptr = Some (s, l, t)"
    using ts_loop_total by blast
  then show ?thesis by (auto simp: ip_printts_def u1_at_Some Let_def)
qed

lemma print_option_total:
  "len_opt \<le> length cp \<Longrightarrow> \<exists>s rc. print_option ipaddr code cp len_opt = Some (s, rc)"
  using ip_printts_total [of ipaddr cp len_opt] ip_printroute_total [of ipaddr cp len_opt]
  by (auto simp: print_option_def ip_printpval_def ipopt_pval_of_def sizeof_ipopt_pval_def be2_at_Some)

lemma optprint_loop_total: "\<exists>s rc. optprint_loop ipaddr sep cp n = Some (s, rc)"
proof (induction ipaddr sep cp n rule: optprint_loop.induct)
  case (1 ipaddr sep cp n)
  show ?case
  proof (cases "\<exists>code len_opt. n \<noteq> 0 \<and> u1_at cp 0 = Some code \<and> option_len code cp = Some len_opt \<and> len_opt \<le> length cp \<and>
      len_opt \<le> n \<and> code \<noteq> IPOPT_EOL \<and> (code \<noteq> IPOPT_NOP \<longrightarrow> 2 \<le> len_opt)")
    case True
    then obtain code len_opt where c: "n \<noteq> 0" "u1_at cp 0 = Some code" "option_len code cp = Some len_opt"
        "len_opt \<le> length cp" "len_opt \<le> n" "code \<noteq> IPOPT_EOL" "code \<noteq> IPOPT_NOP \<longrightarrow> 2 \<le> len_opt" by blast
    obtain s rc where po: "print_option ipaddr code cp len_opt = Some (s, rc)"
      using print_option_total [OF c(4)] by blast
    have "\<exists>s rc. optprint_loop ipaddr '','' (drop len_opt cp) (n - len_opt) = Some (s, rc)" if "rc \<noteq> - 1"
      using c that by (intro 1(1) [OF c(1,2) _ c(3) _ _ _ _ po refl]) auto
    with c po show ?thesis by (subst optprint_loop.simps) (auto simp: prepend_def Let_def)
  next
    case False
    then consider "n = 0" | "u1_at cp 0 = None" | code where "u1_at cp 0 = Some code" "option_len code cp = None" |
      code len_opt where "u1_at cp 0 = Some code" "option_len code cp = Some len_opt"
        "length cp < len_opt \<or> n < len_opt \<or> code = IPOPT_EOL \<or> code \<noteq> IPOPT_NOP \<and> len_opt < 2"
      by (metis not_less option.exhaust)
    then show ?thesis by cases (subst optprint_loop.simps, auto simp: Let_def)+
  qed
qed

lemma print_opts_cksum_total:
  assumes "hlen \<le> 60"
  shows "\<exists>s t. print_opts_cksum ipaddr Kflag odd_ptr ip hlen = Some (s, t)"
proof -
  obtain s rc where o: "ip_optprint ipaddr (drop 20 ip) (hlen - 20) = Some (s, rc)"
    using optprint_loop_total [of ipaddr "[]" "drop 20 ip" "hlen - 20"] by (auto simp: ip_optprint_def)
  have "length (take hlen ip) \<le> 60000" using assms by simp
  then obtain c where "in_cksum [(odd_ptr, take hlen ip)] = Some c"
    using in_cksum_bytes [of "[(odd_ptr, take hlen ip)]"] by auto
  with o show ?thesis by (auto simp: print_opts_cksum_def)
qed

lemma ip_fields_total: "20 \<le> length ip \<Longrightarrow> \<exists>s. ip_fields_text ip = Some s"
  by (simp add: ip_fields_text_def u1_at_Some be2_at_Some)

lemma addrs_total: "20 \<le> length ip \<Longrightarrow> \<exists>s. addrs_line ipaddr ip = Some s"
  by (simp add: addrs_line_def mem_read_def)

lemma ip_body_total:
  assumes "20 \<le> length ip" and "hlen \<le> 60"
  shows "\<exists>s e. ip_body ipaddr ndo odd_ptr ip hlen len = Some (s, e) \<and>
    (\<forall>ip' cp len' off nh. e = Payload ip' cp len' off nh \<longrightarrow> ip' = ip)"
proof -
  obtain f where f: "ip_fields_text ip = Some f" using ip_fields_total [OF assms(1)] by blast
  obtain a where a: "addrs_line ipaddr ip = Some a" using addrs_total [OF assms(1)] by blast
  obtain s t where o: "print_opts_cksum ipaddr (ndo_Kflag ndo) odd_ptr ip hlen = Some (s, t)"
    using print_opts_cksum_total [OF assms(2)] by blast
  have "\<exists>s t. ip_verbose ipaddr ndo odd_ptr ip hlen = Some (s, t)"
    by (cases t; cases "ndo_vflag ndo = 0") (auto simp: ip_verbose_def f a o)
  then obtain v t where "ip_verbose ipaddr ndo odd_ptr ip hlen = Some (v, t)" by blast
  with assms(1) a show ?thesis
    by (auto simp: ip_body_def be2_at_Some u1_at_Some)
qed

lemma ip_header_total:
  "\<exists>s e. ip_header ipaddr ndo odd_ptr bp len0 = Some (s, e) \<and>
     (\<forall>ip cp len off nh. e = Payload ip cp len off nh \<longrightarrow> 20 \<le> length ip)"
proof -
  let ?hlen = "unat (bp ! 0) mod 16 * 4" and ?len = "be_val (take 2 (drop 2 bp))"
  show ?thesis
  proof (cases "20 \<le> length bp \<and> 20 \<le> ?hlen \<and> ?hlen \<le> ?len")
    case True
    then have "20 \<le> length (take ?len bp)" by simp
    moreover have "?hlen \<le> 60" by linarith
    ultimately obtain s e where "ip_body ipaddr ndo odd_ptr (take ?len bp) ?hlen ?len = Some (s, e)"
        "\<forall>ip' cp len' off nh. e = Payload ip' cp len' off nh \<longrightarrow> ip' = take ?len bp"
      using ip_body_total by blast
    with True \<open>20 \<le> length (take ?len bp)\<close> show ?thesis
      by (auto simp: ip_header_def u1_at_Some be2_at_Some Let_def)
  next
    case False
    then show ?thesis by (cases "length bp < 1") (auto simp: ip_header_def u1_at_Some be2_at_Some Let_def)
  qed
qed

lemma ah_print_total: "\<exists>s adv. ah_print vflag bp = Some (s, adv)"
  by (auto simp: ah_print_def u1_at_Some be4_at_Some Let_def)

lemma esp_print_total: "\<exists>s. esp_print bp len = Some s"
  by (auto simp: esp_print_def be4_at_Some)

lemma ipcomp_print_total: "\<exists>s. ipcomp_print bp = Some s"
  by (auto simp: ipcomp_print_def be2_at_Some)

lemma vrrp_text_total: "20 \<le> length ip \<Longrightarrow> \<exists>s. vrrp_text upper ipaddr ndo ip cp len = Some s"
  using addrs_total [of ip ipaddr] by (auto simp: vrrp_text_def u1_at_Some)

lemma ip_printers_total:
  "\<exists>s. ip_print upper ipaddr ndo odd_ptr bp len0 = Some s"
  "20 \<le> length ip \<Longrightarrow> \<exists>s. ip_print_demux upper ipaddr ndo odd_ptr ip cp len off nh = Some s"
proof (induction upper ipaddr ndo odd_ptr bp len0 and upper ipaddr ndo odd_ptr ip cp len off nh
    rule: ip_print_ip_print_demux.induct)
  case (1 upper ipaddr ndo odd_ptr bp len0)
  obtain s e where h: "ip_header ipaddr ndo odd_ptr bp len0 = Some (s, e)"
      "\<forall>ip cp len off nh. e = Payload ip cp len off nh \<longrightarrow> 20 \<le> length ip"
    using ip_header_total by blast
  show ?case
  proof (cases e)
    case (Payload ip cp len off nh)
    with 1 [OF h(1) refl Payload] h show ?thesis by (auto simp: ip_print.simps)
  qed (use h in \<open>simp add: ip_print.simps\<close>)
next
  case (2 upper ipaddr ndo odd_ptr ip cp len off nh)
  obtain s adv where a: "ah_print (ndo_vflag ndo) cp = Some (s, adv)" using ah_print_total by blast
  show ?case
  proof (cases "nh = IPPROTO_AH")
    case True
    then show ?thesis
      using 2(1) [OF True _ a refl] 2(3) a
      by (subst ip_print_demux.simps) (auto simp: not_le not_less)
  next
    case no_ah: False
    show ?thesis
    proof (cases "nh = IPPROTO_IPV4")
      case True
      have "\<exists>s. ip_print upper ipaddr ndo odd_ptr cp len = Some s"
        using True by (intro 2(2)) (simp_all add: ipproto_defs)
      with True show ?thesis by (subst ip_print_demux.simps) (auto simp: ipproto_defs)
    next
      case False
      with no_ah 2(3) esp_print_total [of cp len] ipcomp_print_total [of cp] vrrp_text_total [of ip upper ipaddr ndo cp len]
      show ?thesis by (subst ip_print_demux.simps) auto
    qed
  qed
qed

text \<open>
  C34. The IP printer itself reads only what was captured. For every captured packet, of any
  length and with any contents, nested in IP or behind authentication headers as deep as it may
  be, and whatever the flags, \<open>ip_print\<close> comes to an end with a text, without a read behind the
  capture: also the Pval option is only decoded when all of its bytes are there. This is about
  the printers of IP headers, options, fragments and authentication headers. The printers of
  the protocols inside of IP (\<open>upper\<close>, and \<open>ip6_print\<close>) and the names of addresses are arguments
  that return a text, so what they read is not covered; a security payload is printed as without
  a secret for it, in which case it ends the printing.
\<close>

theorem ip_print_reads_capture:
  "(\<exists>s. ip_print upper ipaddr ndo odd_ptr bp len0 = Some s) \<and>
   (\<exists>s. ipN_print upper ip6_print ipaddr ndo odd_ptr bp len0 = Some s) \<and>
   (\<exists>s rc. ip_optprint ipaddr bp len0 = Some (s, rc))"
  using ip_printers_total(1) [of upper ipaddr ndo odd_ptr bp len0] optprint_loop_total [of ipaddr "[]" bp len0]
  by (auto simp: ipN_print_def ip_optprint_def Let_def)

section \<open>The option of the kernel module\<close>

lemma ip_body_start:
  assumes "20 \<le> length ip" and "ip_verbose ipaddr ndo odd_ptr ip hlen = Some (v, False)"
  shows "\<exists>rest e. ip_body ipaddr ndo odd_ptr ip hlen len = Some (v @ rest, e)"
proof -
  obtain a where "addrs_line ipaddr ip = Some a" using addrs_total [OF assms(1)] by blast
  with assms show ?thesis by (auto simp: ip_body_def be2_at_Some u1_at_Some)
qed

lemma ip_print_start:
  assumes "ip_header ipaddr ndo odd_ptr bp len0 = Some (s, e)"
  shows "\<exists>rest. ip_print upper ipaddr ndo odd_ptr bp len0 = Some (s @ rest)"
proof (cases e)
  case (Payload ip cp len off nh)
  have "20 \<le> length ip" using ip_header_total [of ipaddr ndo odd_ptr bp len0] assms Payload by auto
  then obtain t where "ip_print_demux upper ipaddr ndo odd_ptr ip cp len off nh = Some t"
    using ip_printers_total(2) by blast
  with assms Payload show ?thesis by (simp add: ip_print.simps)
qed (use assms in \<open>simp add: ip_print.simps\<close>)

text \<open>
  C39. tcpdump shows what the module sent. For a version 4 packet without options of at most 65523
  bytes, sent with \<open>ipopt\<close> on and captured with any bytes behind it, the verbose output of \<open>ip_print\<close>
  starts with the fields of the header, of which the length is that of the packet sent and 12 more;
  then it says that the header has the Pval option with the CPU (cut to 8 bits) and the sequence
  number, reports no truncated option, does not complain about the checksum, wherever the packet
  is in memory, and goes on with the payload.
\<close>

theorem tcpdump_shows_option:
  assumes "34 \<le> length f" and "f ! 14 = 0x45" and "ndo_vflag ndo \<noteq> 0" and "\<not> ndo_Kflag ndo"
    and "tot = be_val (take 2 (drop 16 f))" and "20 \<le> tot" and "tot + 12 < 65536" and "tot + 12 \<le> len0"
  shows "\<exists>fields rest. ip_print upper ipaddr ndo odd_ptr (drop 14 (option_frame cpu seq f)) len0 =
      Some ((if ndo_eflag ndo then [] else ''IP '') @ fields @ '', length '' @ dec (tot + 12)
        @ '', options (pval cpu '' @ dec (cpu mod 256) @ '', seq '' @ dec (unat seq) @ ''))'' @ [CHR 0x0A] @ ''    '' @ rest)"
proof -
  let ?opt = "ipopt_pval_bytes (pval_option cpu seq)" and ?old = "take 20 (drop 14 f)"
  let ?h = "new_iphdr ?old ?opt" and ?n = "tot + 12"
  let ?bp = "?h @ ?opt @ drop 34 f"
  let ?ip = "?h @ ?opt @ take (tot - 20) (drop 34 f)"
  have h: "length ?old = 20" using assms(1) by simp
  then have l: "length ?h = 20" "length ?opt = 12" by (simp_all add: sizeof_ipopt_pval_def)
  have bp: "drop 14 (option_frame cpu seq f) = ?bp" using assms(1) by (simp add: option_frame_def Let_def)
  have "add_ihl 0x45 3 = 0x48" by code_simp
  then have v: "u1_at ?bp 0 = Some 0x48" using new_iphdr_fields(1) [OF h, of ?opt] l assms(1,2) by (simp add: u1_at_Some nth_append)
  have "take 2 (drop 2 ?h) = be_bytes 2 ?n"
    using new_iphdr_fields(2) [OF h, of ?opt] assms(1,5) by (simp add: drop_take)
  then have n: "take 2 (drop 2 ?bp) = be_bytes 2 ?n" "take 2 (drop 2 ?ip) = be_bytes 2 ?n" using l by simp_all
  have be: "be_val (be_bytes 2 ?n) = ?n" using assms(7) by (simp add: be_val_be_bytes)
  have len: "be2_at ?bp 2 = Some ?n" "be2_at ?ip 2 = Some ?n" using n be l by (simp_all add: be2_at_Some)
  have cut: "take ?n ?bp = ?ip" using l assms(6) by simp
  obtain flds where flds: "ip_fields_text ?ip = Some (flds @ '', length '' @ dec ?n)"
    using l len(2) by (auto simp: ip_fields_text_def u1_at_Some be2_at_Some)
  let ?v = "flds @ '', length '' @ dec ?n @ '', options (pval cpu '' @ dec (cpu mod 256) @ '', seq '' @ dec (unat seq) @ '')'' @
      '')'' @ [CHR 0x0A] @ ''    ''"
  have verb: "ip_verbose ipaddr ndo odd_ptr ?ip 32 = Some (?v, False)"
    using assms(3,4) flds opts_cksum_pval [OF h] by (simp add: ip_verbose_def)
  have "20 \<le> length ?ip" using l by simp
  from ip_body_start [OF this verb] obtain rest e where "ip_body ipaddr ndo odd_ptr ?ip 32 ?n = Some (?v @ rest, e)"
    by blast
  then have "ip_header ipaddr ndo odd_ptr ?bp len0 = Some ((if ndo_eflag ndo then [] else ''IP '') @ ?v @ rest, e)"
    using l v len(1) cut assms(6,8) by (simp add: ip_header_def Let_def)
  from ip_print_start [OF this, of upper] obtain t where
    "ip_print upper ipaddr ndo odd_ptr ?bp len0 = Some (((if ndo_eflag ndo then [] else ''IP '') @ ?v @ rest) @ t)"
    by blast
  then show ?thesis unfolding bp by (intro exI [of _ flds] exI [of _ "rest @ t"]) simp
qed

definition example_ndo :: netdissect_options where
  "example_ndo = \<lparr>ndo_eflag = False, ndo_vflag = 1, ndo_Kflag = False, ndo_nflag = 0, ndo_qflag = 0, ndo_carp = False\<rparr>"

lemma digit_example:
  "digit_char 0 = CHR ''0''" "digit_char 2 = CHR ''2''" "digit_char 3 = CHR ''3''" "digit_char 4 = CHR ''4''" "digit_char 6 = CHR ''6''"
  by (code_simp)+

lemma dec_example: "dec 32 = ''32''" "dec 0 = ''0''" "dec 46 = ''46''"
  by (simp_all add: dec.simps digit_example)

text \<open>The example frame, an ICMP packet without data, that left CPU 0 with sequence number 46, in the verbose
  output without the link-layer header.\<close>

theorem tcpdump_shows_option_witness:
  "\<exists>fields rest. ip_print (\<lambda>_ _ _ _ _. []) (\<lambda>_. ''a'') example_ndo
      False (drop 14 (option_frame 0 46 example_frame)) 32 =
    Some (''IP '' @ fields @ '', length 32, options (pval cpu 0, seq 46))'' @ [CHR 0x0A] @ ''    '' @ rest)"
proof -
  have "34 \<le> length example_frame" "example_frame ! 14 = 0x45" "20 = be_val (take 2 (drop 16 example_frame))"
    by (simp_all add: example_frame_def be_val_def nth_append)
  moreover have "ndo_vflag example_ndo \<noteq> 0" "\<not> ndo_Kflag example_ndo" "\<not> ndo_eflag example_ndo" by (simp_all add: example_ndo_def)
  ultimately show ?thesis
    using tcpdump_shows_option [of example_frame example_ndo 20 32 "\<lambda>_ _ _ _ _. []" "\<lambda>_. ''a''" False 0 46]
    by (simp add: dec_example)
qed

end
