(* ===== verification/Tools.thy ===== *)
theory Tools
  imports Iproute_Addr Pval_Uapi
begin

text \<open>
  The readers of the character devices: \<open>tools/dump-one.c\<close>, \<open>tools/dump-multi.c\<close> and
  \<open>tools/look-tcp.c\<close>, and the packet printer of \<open>tap/tap1.c\<close>. What they print for a slot is
  the text of a line; a store outside of a buffer is \<open>None\<close>.
\<close>

section \<open>Lines of dump-one and dump-multi\<close>

definition newline :: string where "newline = [CHR 0x0A]"

definition mac_text :: "bytes \<Rightarrow> string" where
  "mac_text a = hex02 (a ! 0) @ '':'' @ hex02 (a ! 1) @ '':'' @ hex02 (a ! 2) @ '':'' @ hex02 (a ! 3) @ '':''
     @ hex02 (a ! 4) @ '':'' @ hex02 (a ! 5)"

definition eth_proto :: "bytes \<Rightarrow> nat" where
  "eth_proto pkt = be_val (take 2 (drop 12 pkt))"

definition eth_text :: "bytes \<Rightarrow> string" where
  "eth_text pkt = mac_text (take 6 (drop 6 pkt)) @ '' -> '' @ mac_text (take 6 pkt) @ '' Type 0x''
     @ hex04 (eth_proto pkt) @ '' ''"

definition addrs_text :: "bytes \<Rightarrow> string" where
  "addrs_text pkt = inet_ntop4 (take 4 (drop 26 pkt)) @ '' -> '' @ inet_ntop4 (take 4 (drop 30 pkt))"

definition dump_one_line :: "pval_slot \<Rightarrow> string" where
  "dump_one_line slot = dec (unat (slot_tstamp slot)) @ '' '' @ eth_text (slot_pkt slot) @
     (if eth_proto (slot_pkt slot) \<noteq> 0x800 then [] else addrs_text (slot_pkt slot)) @ newline"

definition dump_multi_line :: "string \<Rightarrow> pval_slot \<Rightarrow> string" where
  "dump_multi_line prefix slot = prefix @ '': TS='' @ dec (unat (slot_tstamp slot)) @ '' '' @ eth_text (slot_pkt slot) @
     (if eth_proto (slot_pkt slot) \<noteq> 0x800 then [] else addrs_text (slot_pkt slot)) @ newline"

section \<open>Lines of look-tcp and tap1\<close>

text \<open>\<open>strncat(out, buf, sizeof(out))\<close> into \<open>out[256]\<close>: the bound is the size of the whole
  buffer, not what is left of it.\<close>

definition strncat_out :: "string \<Rightarrow> string \<Rightarrow> string option" where
  "strncat_out out buf = (let r = out @ take 256 buf in if length r + 1 \<le> 256 then Some r else None)"

definition tcp_flag :: "bytes \<Rightarrow> nat \<Rightarrow> string" where
  "tcp_flag tcp i = dec (of_bool (bit (tcp ! 13) i))"

definition tcp_flags_text :: "bytes \<Rightarrow> string" where
  "tcp_flags_text tcp = ''SYN='' @ tcp_flag tcp 1 @ '' ACK='' @ tcp_flag tcp 4 @ '' PSH='' @ tcp_flag tcp 3
     @ '' RST='' @ tcp_flag tcp 2 @ '' FIN='' @ tcp_flag tcp 0"

definition tcp_hdr :: "bytes \<Rightarrow> bytes" where
  "tcp_hdr pkt = drop (14 + unat (pkt ! 14 AND 0xF) * 4) pkt"

text \<open>The line assembled in \<open>out\<close>: the head is cut to the buffer by \<open>snprintf\<close>, then two parts
  are appended for IP and for TCP packets.\<close>

definition assemble :: "string \<Rightarrow> bytes \<Rightarrow> (bytes \<Rightarrow> string) \<Rightarrow> string option" where
  "assemble head pkt tcp_part =
     (let out = take 255 head in
      if eth_proto pkt \<noteq> 0x800 then Some (out @ newline)
      else case strncat_out out (take 255 (''IP_PROTO='' @ dec (unat (pkt ! 23)) @ '' '')) of
             None \<Rightarrow> None
           | Some out1 \<Rightarrow>
               if pkt ! 23 \<noteq> 6 then Some (out1 @ newline)
               else map_option (\<lambda>out2. out2 @ newline) (strncat_out out1 (take 255 (tcp_part (tcp_hdr pkt)))))"

definition look_head :: "string \<Rightarrow> pval_slot \<Rightarrow> string" where
  "look_head prefix slot = prefix @ '' TS='' @ dec (unat (slot_tstamp slot)) @ '' PKTLEN='' @
     dec (unat (slot_pktlen slot)) @ '' ETHER_TYPE=0x'' @ hex04 (eth_proto (slot_pkt slot)) @ '' ''"

definition look_tcp_line :: "string \<Rightarrow> pval_slot \<Rightarrow> string option" where
  "look_tcp_line prefix slot = assemble (look_head prefix slot) (slot_pkt slot) tcp_flags_text"

text \<open>\<open>print_pkt\<close> of \<open>tap1.c\<close>.\<close>

definition tap_tcp_text :: "bytes \<Rightarrow> string" where
  "tap_tcp_text tcp = ''SPORT='' @ dec (be_val (take 2 tcp)) @ '' DPORT='' @ dec (be_val (take 2 (drop 2 tcp))) @ '' ''
     @ tcp_flags_text tcp"

definition tap_print_pkt :: "u64 \<Rightarrow> string \<Rightarrow> bytes \<Rightarrow> nat \<Rightarrow> string option" where
  "tap_print_pkt hwts prefix pkt pktlen =
     assemble (prefix @ '' TS='' @ dec (unat hwts) @ '' PKTLEN='' @ dec pktlen @ '' ETHER_TYPE=0x''
       @ hex04 (eth_proto pkt) @ '' '') pkt tap_tcp_text"

section \<open>The reading loop\<close>

datatype round = Stop | Go string | Fault

text \<open>
  One round of the loop of a thread: \<open>caught_signal\<close>, the results of \<open>poll\<close> and \<open>readv\<close>, and
  the slots in the buffers. The condition is \<open>!x.revents & POLLIN\<close>, where \<open>!\<close> binds tighter:
  it is true exactly if no event was reported.
\<close>

definition concat_lines :: "string option list \<Rightarrow> round" where
  "concat_lines ls = (if None \<in> set ls then Fault else Go (concat (map the ls)))"

definition dump_round :: "bool \<Rightarrow> int \<Rightarrow> u16 \<Rightarrow> int \<Rightarrow> (pval_slot \<Rightarrow> string option) \<Rightarrow> pval_slot list \<Rightarrow> round" where
  "dump_round caught_signal poll_rc revents ret line slots =
     (if caught_signal then Stop
      else if poll_rc < 0 then Stop
      else if (if revents = 0 then 1 else 0 :: u16) AND 1 \<noteq> 0 then Go []
      else if ret < 0 then Go []
      else concat_lines (map line (take (nat ret) slots)))"

section \<open>Lines and buffers\<close>

text \<open>The parts for IP and TCP, without any buffer.\<close>

definition look_rest :: "bytes \<Rightarrow> string" where
  "look_rest pkt =
     (if eth_proto pkt \<noteq> 0x800 then []
      else ''IP_PROTO='' @ dec (unat (pkt ! 23)) @ '' '' @
        (if pkt ! 23 \<noteq> 6 then [] else tcp_flags_text (tcp_hdr pkt)))"

lemma length_dec_u8: "length (dec (unat (b :: u8))) \<le> 3"
proof -
  have "unat b < 256" by (rule unat_u8_less)
  then show ?thesis by (intro length_dec_le) simp_all
qed

lemma length_flags: "length (tcp_flags_text tcp) = 29"
proof -
  have "length (dec (of_bool b)) = 1" for b by (cases b) (simp_all add: dec.simps)
  then show ?thesis by (simp add: tcp_flags_text_def tcp_flag_def)
qed

text \<open>
  The lines of \<open>look-tcp\<close>. A round that got \<open>n\<close> slots prints one line for each. If the
  head of the line and the parts for IP and TCP fit into 255 characters together, the line
  is exactly these; a packet that is not IP is printed with its head cut to the buffer; but
  an IP packet whose line does not fit is written behind the end of the buffer.
\<close>

lemma look_tcp_lines:
  "look_tcp_line prefix slot =
     (let head = look_head prefix slot; rest = look_rest (slot_pkt slot) in
      if eth_proto (slot_pkt slot) \<noteq> 0x800 then Some (take 255 head @ newline)
      else if length head + length rest \<le> 255 then Some (head @ rest @ newline)
      else None) \<and>
    dump_round False 0 1 (int n) (look_tcp_line prefix) slots =
      concat_lines (map (look_tcp_line prefix) (take n slots))"
proof -
  let ?pkt = "slot_pkt slot" and ?head = "look_head prefix slot"
  let ?ip = "''IP_PROTO='' @ dec (unat (?pkt ! 23)) @ '' ''"
  have "length ?ip \<le> 13" using length_dec_u8 [of "?pkt ! 23"] by simp
  then have t: "take 255 ?ip = ?ip" "take 256 ?ip = ?ip" by (simp_all del: append.simps)
  have f: "take 255 (tcp_flags_text (tcp_hdr ?pkt)) = tcp_flags_text (tcp_hdr ?pkt)"
      "take 256 (tcp_flags_text (tcp_hdr ?pkt)) = tcp_flags_text (tcp_hdr ?pkt)"
    by (simp_all add: length_flags)
  have "look_tcp_line prefix slot =
     (if eth_proto ?pkt \<noteq> 0x800 then Some (take 255 ?head @ newline)
      else if length ?head + length (look_rest ?pkt) \<le> 255 then Some (?head @ look_rest ?pkt @ newline)
      else None)"
    unfolding look_tcp_line_def assemble_def look_rest_def Let_def t f strncat_out_def
    by (auto simp: length_flags simp del: append.simps)
  moreover have "(0 :: u16) AND 1 = 0" by simp
  ultimately show ?thesis by (simp add: dump_round_def Let_def)
qed

end
