(* ===== verification/Reader_Session.thy ===== *)
theory Reader_Session
  imports Chardev_Correct Tools "HOL-Library.Sublist"
begin

text \<open>
  A running reader: the threads of \<open>tools/dump-multi.c\<close> and \<open>tools/look-tcp.c\<close> and the main
  loop of \<open>tools/dump-one.c\<close> on top of \<open>pval_file_open\<close>, \<open>pval_file_poll\<close> and
  \<open>pval_file_read_iter\<close> of the module, with packets that arrive between these calls. What the
  system call \<open>poll\<close> returns is an input of every round of the loop. A call of
  \<open>pval_file_read_iter\<close> is one step here; the theory \<open>Ring_Steps\<close> has its single accesses.
\<close>

section \<open>Packets that arrive\<close>

definition offer_skb :: "pval_mdev \<Rightarrow> sk_buff \<Rightarrow> pval_mdev option" where
  "offer_skb md skb = map_option (\<lambda>(n, r). md\<lparr>md_ring := r\<rparr>) (write_to_ring (md_ring md) skb)"

fun offer_all :: "pval_mdev \<Rightarrow> sk_buff list \<Rightarrow> pval_mdev option" where
  "offer_all md [] = Some md"
| "offer_all md (s # ss) = do { md' \<leftarrow> offer_skb md s; offer_all md' ss }"

section \<open>The loop of a thread\<close>

definition BULKNUM :: nat where "BULKNUM = 16"

text \<open>
  What the outside world does in one round of the loop: whether a signal was caught, the
  packets written to the ring while \<open>poll\<close> waits, what \<open>poll\<close> returns and stores in \<open>revents\<close>
  given the last answer of the driver, and the packets written between \<open>poll\<close> and \<open>readv\<close> and
  behind \<open>readv\<close>.
\<close>

record round_in =
  ri_signal :: bool
  ri_waiting :: "sk_buff list"
  ri_poll :: "u32 \<Rightarrow> int \<times> u16"
  ri_polled :: "sk_buff list"
  ri_behind :: "sk_buff list"

definition slot_iov :: "nat \<Rightarrow> iovec list" where
  "slot_iov slots = map (\<lambda>n. \<lparr>iov_base = slots + n * sizeof_pval_slot, iov_len = sizeof_pval_slot\<rparr>) [0..<BULKNUM]"

text \<open>
  One round. \<open>readv\<close> is the \<open>read_iter\<close> of the module. The result says how the round ends, and
  gives the device and the user memory; \<open>None\<close> is an access outside of an object.
\<close>

definition thread_round :: "('u \<Rightarrow> nat \<Rightarrow> bytes \<Rightarrow> 'u) \<Rightarrow> ('u \<Rightarrow> nat \<Rightarrow> nat \<Rightarrow> bytes) \<Rightarrow> iovec list \<Rightarrow>
    (pval_slot \<Rightarrow> string option) \<Rightarrow> round_in \<Rightarrow> pval_mdev \<Rightarrow> 'u \<Rightarrow> (round \<times> pval_mdev \<times> 'u) option" where
  "thread_round cp rd iov line i md u = do {
     md1 \<leftarrow> offer_all md (ri_waiting i);
     let (rc, revents) = ri_poll i (pval_file_poll md1);
     md2 \<leftarrow> offer_all md1 (ri_polled i);
     (ret, md3, u') \<leftarrow> (if ri_signal i \<or> rc < 0 \<or> revents = 0 then Some (0, md2, u)
                         else pval_file_read_iter cp ITER_IOVEC iov md2 u);
     slots \<leftarrow> those (decode_bufs rd (take (nat ret) iov) u');
     md4 \<leftarrow> offer_all md3 (ri_behind i);
     Some (dump_round (ri_signal i) rc revents ret line slots, md4, u')
   }"

text \<open>The loop over a list of rounds: whether the thread still runs, what it has printed, the
  device and the memory.\<close>

fun thread_loop :: "('u \<Rightarrow> nat \<Rightarrow> bytes \<Rightarrow> 'u) \<Rightarrow> ('u \<Rightarrow> nat \<Rightarrow> nat \<Rightarrow> bytes) \<Rightarrow> iovec list \<Rightarrow>
    (pval_slot \<Rightarrow> string option) \<Rightarrow> round_in list \<Rightarrow> pval_mdev \<Rightarrow> 'u \<Rightarrow> (bool \<times> string \<times> pval_mdev \<times> 'u) option" where
  "thread_loop cp rd iov line [] md u = Some (True, [], md, u)"
| "thread_loop cp rd iov line (i # is) md u = do {
     (e, md', u') \<leftarrow> thread_round cp rd iov line i md u;
     (case e of
        Fault \<Rightarrow> None
      | Stop \<Rightarrow> Some (False, [], md', u')
      | Go s \<Rightarrow> map_option (\<lambda>(run, out, r). (run, s @ out, r)) (thread_loop cp rd iov line is md' u'))
   }"

text \<open>
  The whole thread. \<open>devnode\<close> says which file of the module a path leads to, if any, and
  \<open>failed_text\<close> what is printed to standard output if it cannot be opened. The buffers are
  cleared before the loop. A thread that ends does not close its file.
\<close>

definition dump_thread :: "(string \<Rightarrow> string option) \<Rightarrow> string \<Rightarrow> ('u \<Rightarrow> nat \<Rightarrow> bytes \<Rightarrow> 'u) \<Rightarrow> ('u \<Rightarrow> nat \<Rightarrow> nat \<Rightarrow> bytes) \<Rightarrow>
    nat \<Rightarrow> (pval_slot \<Rightarrow> string option) \<Rightarrow> string \<Rightarrow> round_in list \<Rightarrow> net \<Rightarrow> 'u \<Rightarrow> fault + (bool \<times> string \<times> net)" where
  "dump_thread devnode failed_text cp rd slots line path is net u =
     (case devnode path of
        None \<Rightarrow> Inr (False, failed_text, net)
      | Some d_name \<Rightarrow>
          (case pval_file_open d_name net of
             Inl f \<Rightarrow> Inl f
           | Inr (rc, net', None) \<Rightarrow> Inr (False, failed_text, net')
           | Inr (rc, net', Some p) \<Rightarrow>
               let iov = slot_iov slots;
                   u0 = fold (\<lambda>v u. cp u (iov_base v) (replicate sizeof_pval_slot 0)) iov u
               in (case Option.bind (deref net' p) (\<lambda>md. thread_loop cp rd iov line is md u0) of
                     None \<Rightarrow> Inl OutOfBounds
                   | Some (run, out, md, u') \<Rightarrow> Inr (run, out, update_ref p md net'))))"

section \<open>The main programs\<close>

text \<open>
  \<open>main\<close> of \<open>dump-multi.c\<close> and \<open>look-tcp.c\<close> up to the point where all threads run:
  \<open>pthread_create\<close> and \<open>signal\<close> give the results they are given. The arrays for threads have 32
  elements; \<open>strncpy\<close> does not terminate a path of \<open>PATH_MAX\<close> characters, and the thread that is
  started for such a path reads past its end. The result is the exit status, if \<open>main\<close>
  returns before the threads end, the paths of the threads that were started, and the output.
\<close>

definition PATH_MAX :: nat where "PATH_MAX = 4096"

fun start_threads :: "(nat \<Rightarrow> int) \<Rightarrow> nat \<Rightarrow> string list \<Rightarrow> fault + (int \<times> string list)" where
  "start_threads create n [] = Inr (0, [])"
| "start_threads create n (path # paths) =
     (if 32 \<le> n then Inl OutOfBounds
      else if create n \<noteq> 0 then Inr (create n, [])
      else if PATH_MAX \<le> length path then Inl OutOfBounds
      else map_sum id (\<lambda>(rc, started). (rc, path # started)) (start_threads create (Suc n) paths))"

definition dump_multi_main :: "(nat \<Rightarrow> int) \<Rightarrow> bool \<Rightarrow> string \<Rightarrow> string list \<Rightarrow>
    fault + (int option \<times> string list \<times> string)" where
  "dump_multi_main create signal_ok prog args =
     (if args = [] then Inr (Some (- 1), [], prog @ '' [Pval chardev] [Pval chardev] ...'' @ newline)
      else case start_threads create 0 args of
             Inl f \<Rightarrow> Inl f
           | Inr (rc, started) \<Rightarrow>
               if rc \<noteq> 0 then Inr (Some rc, started, [])
               else if \<not> signal_ok then Inr (Some (- 1), started, [])
               else Inr (None, started, []))"

text \<open>\<open>main\<close> of \<open>dump-one.c\<close>: the same loop without a signal, on the first argument.\<close>

definition dump_one_main :: "(string \<Rightarrow> string option) \<Rightarrow> ('u \<Rightarrow> nat \<Rightarrow> bytes \<Rightarrow> 'u) \<Rightarrow> ('u \<Rightarrow> nat \<Rightarrow> nat \<Rightarrow> bytes) \<Rightarrow>
    nat \<Rightarrow> string \<Rightarrow> string list \<Rightarrow> round_in list \<Rightarrow> net \<Rightarrow> 'u \<Rightarrow> fault + (bool \<times> string \<times> net)" where
  "dump_one_main devnode cp rd slots prog args is net u =
     (case args of
        [] \<Rightarrow> Inr (False, prog @ '' [Pval chardev]'' @ newline, net)
      | path # _ \<Rightarrow>
          dump_thread devnode (path @ newline) cp rd slots (\<lambda>s. Some (dump_one_line s)) path
            (map (\<lambda>i. i\<lparr>ri_signal := False\<rparr>) is) net u)"

section \<open>What has been written, printed and is queued\<close>

text \<open>
  The slots printed so far and those in the ring hold packets that were offered, in order,
  and at least as many as the ring has room for, if that many were offered.
\<close>

definition tracks :: "sk_buff list \<Rightarrow> pval_slot list \<Rightarrow> pval_mdev \<Rightarrow> bool" where
  "tracks sent printed md \<longleftrightarrow> ring_inv (md_ring md) \<and>
     (\<exists>kept. subseq kept sent \<and> min 1023 (length sent) \<le> length kept \<and>
        list_all2 slot_holds kept (printed @ ring_list (md_ring md)))"

lemma tracks_offer:
  assumes "tracks sent printed md" and "skb_linear s"
  shows "\<exists>md'. offer_skb md s = Some md' \<and> tracks (sent @ [s]) printed md'"
proof -
  let ?l = "ring_list (md_ring md)"
  from assms(1) obtain kept where inv: "ring_inv (md_ring md)" and kept: "subseq kept sent"
      "min 1023 (length sent) \<le> length kept" "list_all2 slot_holds kept (printed @ ?l)"
    by (auto simp: tracks_def)
  obtain n r where w: "write_to_ring (md_ring md) s = Some (n, r)" "ring_inv r"
      and off: "ring_offer md s (md\<lparr>md_ring := r\<rparr>)"
    using write_to_ring_offer [OF inv assms(2)] by auto
  have "tracks (sent @ [s]) printed (md\<lparr>md_ring := r\<rparr>)"
  proof (cases "length ?l = 1023")
    case True
    then have "r = md_ring md" using off by (auto simp: ring_offer_def md_ring_update_inject)
    moreover have "subseq kept (sent @ [s])" using list_emb_append_mono [OF kept(1), of "[]" "[s]"] by simp
    moreover have "1023 \<le> length kept" using list_all2_lengthD [OF kept(3)] True by simp
    ultimately show ?thesis using w(2) kept(3) by (auto simp: tracks_def)
  next
    case False
    then obtain x where x: "ring_list r = ?l @ [x]" "slot_holds s x"
      using off by (auto simp: ring_offer_def md_ring_update_inject)
    have "subseq (kept @ [s]) (sent @ [s])" using kept(1) by simp
    moreover have "list_all2 slot_holds (kept @ [s]) ((printed @ ?l) @ [x])"
      using kept(3) x(2) by (intro list_all2_appendI) simp_all
    moreover have "min 1023 (length (sent @ [s])) \<le> length (kept @ [s])" using kept(2) by simp
    ultimately show ?thesis using w(2) x(1) unfolding tracks_def
      by (intro conjI exI [of _ "kept @ [s]"]) simp_all
  qed
  with w(1) show ?thesis by (simp add: offer_skb_def)
qed

lemma tracks_offer_all:
  "tracks sent printed md \<Longrightarrow> list_all skb_linear ss \<Longrightarrow>
   \<exists>md'. offer_all md ss = Some md' \<and> tracks (sent @ ss) printed md'"
proof (induction ss arbitrary: sent md)
  case (Cons s ss)
  from tracks_offer [OF Cons.prems(1), of s] Cons.prems(2) obtain md'
    where m: "offer_skb md s = Some md'" "tracks (sent @ [s]) printed md'" by auto
  from Cons.IH [OF m(2)] Cons.prems(2) m(1) show ?case by auto
qed simp

lemma poll_mask:
  assumes "ring_inv (md_ring md)"
  shows "(ucast (pval_file_poll md AND POLLIN) :: u16) = (if ring_list (md_ring md) = [] then 0 else 1)"
  using rq.is_empty_iff [OF assms] by (simp add: pval_file_poll_def POLLIN_def POLLRDNORM_def)

lemma those_map_Some: "those (map Some xs) = Some xs"
  by (induction xs) simp_all

lemma tracks_read:
  assumes "tracks sent printed md" and "copy_to_user_ok cp rd" and "disjoint_bufs iov"
    and n_def: "n = min (length iov) (length (ring_list (md_ring md)))"
  shows "\<exists>md' u'. pval_file_read_iter cp ITER_IOVEC iov md u = Some (int n, md', u') \<and>
    those (decode_bufs rd (take n iov) u') = Some (take n (ring_list (md_ring md))) \<and>
    tracks sent (printed @ take n (ring_list (md_ring md))) md' \<and>
    ring_list (md_ring md') = drop n (ring_list (md_ring md))"
proof -
  let ?l = "ring_list (md_ring md)"
  have inv: "ring_inv (md_ring md)" using assms(1) by (simp add: tracks_def)
  obtain r' u' where r: "pval_file_read_iter cp ITER_IOVEC iov md u = Some (int n, md\<lparr>md_ring := r'\<rparr>, u')"
      "ring_inv r'" "ring_list r' = drop n ?l"
    using read_iter_eq [OF inv n_def, of cp u] by auto
  have "decode_bufs rd (take n iov) u' = map Some (take n ?l)"
    using read_decode [OF inv assms(2,3) n_def, of u] r(1) by auto
  moreover have "tracks sent (printed @ take n ?l) (md\<lparr>md_ring := r'\<rparr>)"
    using assms(1) r(2,3) by (simp add: tracks_def)
  ultimately show ?thesis using r by (simp add: those_map_Some)
qed

lemma slot_iov_bufs: "disjoint_bufs (slot_iov slots)" "length (slot_iov slots) = BULKNUM"
proof -
  have "sorted_wrt (\<lambda>v w. iov_base v + sizeof_pval_slot \<le> iov_base w \<or>
      iov_base w + sizeof_pval_slot \<le> iov_base v) (slot_iov slots)"
    unfolding slot_iov_def sorted_wrt_map
    by (rule sorted_wrt_mono_rel [OF _ sorted_wrt_upt]) (simp add: sizeof_pval_slot_def)
  then show "disjoint_bufs (slot_iov slots)"
    by (simp add: disjoint_bufs_def slot_iov_def list_all_iff)
qed (simp add: slot_iov_def)

section \<open>Rounds\<close>

text \<open>
  A round in which no signal is caught, the packets are linear, and \<open>poll\<close> does not fail: it
  reports what the driver said last, as far as it was asked for.
\<close>

definition arrivals :: "round_in \<Rightarrow> sk_buff list" where
  "arrivals i = ri_waiting i @ ri_polled i @ ri_behind i"

definition poll_ok :: "(u32 \<Rightarrow> int \<times> u16) \<Rightarrow> bool" where
  "poll_ok poll \<longleftrightarrow> (\<forall>mask. 0 \<le> fst (poll mask) \<and> snd (poll mask) = ucast (mask AND POLLIN))"

definition round_ok :: "round_in \<Rightarrow> bool" where
  "round_ok i \<longleftrightarrow> \<not> ri_signal i \<and> poll_ok (ri_poll i) \<and> list_all skb_linear (arrivals i)"

lemma round_tracks:
  assumes "tracks sent printed md" and "copy_to_user_ok cp rd" and "round_ok i"
  shows "\<exists>ss md' u'. thread_round cp rd (slot_iov slots) (\<lambda>s. Some (fmt s)) i md u
      = Some (Go (concat (map fmt ss)), md', u') \<and>
    tracks (sent @ arrivals i) (printed @ ss) md' \<and>
    (arrivals i = [] \<longrightarrow> length (ring_list (md_ring md')) = length (ring_list (md_ring md)) - BULKNUM)"
proof -
  let ?iov = "slot_iov slots"
  from assms(3) have i: "\<not> ri_signal i" "list_all skb_linear (ri_waiting i)"
      "list_all skb_linear (ri_polled i)" "list_all skb_linear (ri_behind i)"
    by (simp_all add: round_ok_def arrivals_def)
  from tracks_offer_all [OF assms(1) i(2)] obtain md1
    where w: "offer_all md (ri_waiting i) = Some md1" "tracks (sent @ ri_waiting i) printed md1" by blast
  from tracks_offer_all [OF w(2) i(3)] obtain md2
    where p: "offer_all md1 (ri_polled i) = Some md2" "tracks ((sent @ ri_waiting i) @ ri_polled i) printed md2" by blast
  have inv: "ring_inv (md_ring md1)" using w(2) by (simp add: tracks_def)
  obtain rc where rc: "ri_poll i (pval_file_poll md1) = (rc, if ring_list (md_ring md1) = [] then 0 else 1)" "0 \<le> rc"
  proof (rule that [of "fst (ri_poll i (pval_file_poll md1))"])
    have "poll_ok (ri_poll i)" using assms(3) by (simp add: round_ok_def)
    then have "0 \<le> fst (ri_poll i (pval_file_poll md1))"
        "snd (ri_poll i (pval_file_poll md1)) = ucast (pval_file_poll md1 AND POLLIN)"
      unfolding poll_ok_def by blast+
    then show "0 \<le> fst (ri_poll i (pval_file_poll md1))" "ri_poll i (pval_file_poll md1) =
        (fst (ri_poll i (pval_file_poll md1)), if ring_list (md_ring md1) = [] then 0 else 1)"
      unfolding poll_mask [OF inv] by (simp_all add: prod_eq_iff)
  qed
  have same: "arrivals i = [] \<longrightarrow> md1 = md \<and> md2 = md1 \<and> ri_behind i = []"
    using w(1) p(1) by (auto simp: arrivals_def)
  show ?thesis
  proof (cases "ring_list (md_ring md1) = []")
    case True
    from tracks_offer_all [OF p(2) i(4)] obtain md4 where o: "offer_all md2 (ri_behind i) = Some md4"
        "tracks (sent @ arrivals i) printed md4" by (auto simp: arrivals_def)
    with True w(1) p(1) i(1) rc same show ?thesis
      by (auto simp: thread_round_def decode_bufs_def dump_round_def intro!: exI [of _ "[]"])
  next
    case False
    define n where "n = min (length ?iov) (length (ring_list (md_ring md2)))"
    let ?ss = "take n (ring_list (md_ring md2))"
    from tracks_read [OF p(2) assms(2) slot_iov_bufs(1) n_def, of u] obtain md3 u'
      where r: "pval_file_read_iter cp ITER_IOVEC ?iov md2 u = Some (int n, md3, u')"
        "those (decode_bufs rd (take n ?iov) u') = Some ?ss"
        "tracks ((sent @ ri_waiting i) @ ri_polled i) (printed @ ?ss) md3"
        "ring_list (md_ring md3) = drop n (ring_list (md_ring md2))" by blast
    from tracks_offer_all [OF r(3) i(4)] obtain md4 where o: "offer_all md3 (ri_behind i) = Some md4"
        "tracks (sent @ arrivals i) (printed @ ?ss) md4" by (auto simp: arrivals_def)
    have "length (drop n (ring_list (md_ring md2))) = length (ring_list (md_ring md2)) - BULKNUM"
      by (simp add: n_def slot_iov_bufs(2))
    with False o w(1) p(1) i(1) rc same r show ?thesis
      by (auto simp: thread_round_def dump_round_def concat_lines_def o_def intro!: exI [of _ ?ss])
  qed
qed

definition all_arrivals :: "round_in list \<Rightarrow> sk_buff list" where
  "all_arrivals is = concat (map arrivals is)"

lemma loop_tracks:
  assumes "copy_to_user_ok cp rd"
  shows "tracks sent printed md \<Longrightarrow> list_all round_ok is \<Longrightarrow>
    \<exists>ss md' u'. thread_loop cp rd (slot_iov slots) (\<lambda>s. Some (fmt s)) is md u
        = Some (True, concat (map fmt ss), md', u') \<and>
      tracks (sent @ all_arrivals is) (printed @ ss) md' \<and>
      (all_arrivals is = [] \<longrightarrow>
         length (ring_list (md_ring md')) = length (ring_list (md_ring md)) - BULKNUM * length is)"
proof (induction "is" arbitrary: sent printed md u)
  case (Cons i "is")
  from round_tracks [OF Cons.prems(1) assms, of i slots fmt u] Cons.prems(2) obtain ss1 md1 u1
    where r: "thread_round cp rd (slot_iov slots) (\<lambda>s. Some (fmt s)) i md u
        = Some (Go (concat (map fmt ss1)), md1, u1)"
      "tracks (sent @ arrivals i) (printed @ ss1) md1"
      "arrivals i = [] \<longrightarrow> length (ring_list (md_ring md1)) = length (ring_list (md_ring md)) - BULKNUM"
    by auto
  from Cons.IH [OF r(2), of u1] Cons.prems(2) obtain ss2 md2 u2
    where l: "thread_loop cp rd (slot_iov slots) (\<lambda>s. Some (fmt s)) is md1 u1
        = Some (True, concat (map fmt ss2), md2, u2)"
      "tracks (sent @ all_arrivals (i # is)) (printed @ ss1 @ ss2) md2"
      "all_arrivals is = [] \<longrightarrow>
         length (ring_list (md_ring md2)) = length (ring_list (md_ring md1)) - BULKNUM * length is"
    by (auto simp: all_arrivals_def)
  from r l show ?case by (intro exI [of _ "ss1 @ ss2"]) (auto simp: all_arrivals_def)
qed (auto simp: all_arrivals_def intro!: exI [of _ "[]"])

lemma thread_loop_append:
  "thread_loop cp rd iov line (is @ js) md u =
     Option.bind (thread_loop cp rd iov line is md u) (\<lambda>(run, out, md', u').
       if run then map_option (\<lambda>(run', out', r). (run', out @ out', r)) (thread_loop cp rd iov line js md' u')
       else Some (run, out, md', u'))"
proof (induction "is" arbitrary: md u)
  case Nil
  show ?case by (cases "thread_loop cp rd iov line js md u") auto
next
  case (Cons i "is")
  show ?case
    by (auto simp: Cons.IH option.map_comp comp_def split_def split: option.splits round.splits Option.bind_splits)
qed

text \<open>The ring is drained by 64 rounds in which nothing arrives.\<close>

lemma loop_drains:
  assumes "copy_to_user_ok cp rd" and "tracks [] [] md" and "list_all round_ok (is @ js)"
    and "all_arrivals js = []" and "64 \<le> length js"
  shows "\<exists>ss md' u'. thread_loop cp rd (slot_iov slots) (\<lambda>s. Some (fmt s)) (is @ js) md u
      = Some (True, concat (map fmt ss), md', u') \<and>
    tracks (all_arrivals is) ss md' \<and> ring_list (md_ring md') = []"
proof -
  from loop_tracks [OF assms(1,2), of "is" slots fmt u] assms(3) obtain ss1 md1 u1
    where l1: "thread_loop cp rd (slot_iov slots) (\<lambda>s. Some (fmt s)) is md u
        = Some (True, concat (map fmt ss1), md1, u1)" "tracks (all_arrivals is) ss1 md1" by auto
  from loop_tracks [OF assms(1) l1(2), of js slots fmt u1] assms(3,4) obtain ss2 md2 u2
    where l2: "thread_loop cp rd (slot_iov slots) (\<lambda>s. Some (fmt s)) js md1 u1
        = Some (True, concat (map fmt ss2), md2, u2)" "tracks (all_arrivals is) (ss1 @ ss2) md2"
      "length (ring_list (md_ring md2)) = length (ring_list (md_ring md1)) - BULKNUM * length js" by auto
  have "length (ring_list (md_ring md1)) \<le> 1023"
    using l1(2) rq.items_cap [of "md_ring md1"] by (simp add: tracks_def)
  with l2(3) assms(5) have "ring_list (md_ring md2) = []" by (simp add: BULKNUM_def)
  with l1(1) l2(1,2) show ?thesis by (auto simp: thread_loop_append intro!: exI [of _ "ss1 @ ss2"])
qed

section \<open>The reader gets everything\<close>

lemma dump_thread_open:
  assumes "plain_name ifname" and "length ifname < IFNAMSIZ" and "pdev_inv pdev"
    and "net ifname = Some (PvalDev pdev)" and "n < pd_num_cpus pdev" and "\<not> md_opened (pmdevs d pdev ! n)"
    and "devnode path = Some (chardev_file d ifname n)"
  defines "p \<equiv> \<lparr>ref_if = ifname, ref_dir = d, ref_cpu = n\<rparr>"
  shows "dump_thread devnode failed cp rd slots line path is net u =
    (case thread_loop cp rd (slot_iov slots) line is (flush_open (pmdevs d pdev ! n))
        (fold (\<lambda>v u. cp u (iov_base v) (replicate sizeof_pval_slot 0)) (slot_iov slots) u) of
       None \<Rightarrow> Inl OutOfBounds
     | Some (run, out, md, u') \<Rightarrow> Inr (run, out, net(ifname \<mapsto> PvalDev (set_pmdev d n md pdev))))"
proof -
  have n: "n < PVAL_MAX_CPUS" using assms(3,5) by (simp add: pdev_inv_def)
  then have n100: "n < 100" by (simp add: PVAL_MAX_CPUS_def)
  let ?net = "net(ifname \<mapsto> PvalDev (set_pmdev d n (flush_open (pmdevs d pdev ! n)) pdev))"
  have o: "pval_file_open (chardev_file d ifname n) net = Inr (0, ?net, Some p)"
    using file_open_plain [where net = net and d = d, OF assms(1,2) n100 assms(4) pmdevs_length [OF assms(3)]]
      assms(5,6) n by (simp add: p_def)
  have "deref ?net p = Some (flush_open (pmdevs d pdev ! n))"
    using deref_set(1) [of net p pdev] assms(4) pmdevs_length [OF assms(3), of d] n by (simp add: p_def)
  moreover have "update_ref p md ?net = net(ifname \<mapsto> PvalDev (set_pmdev d n md pdev))" for md
    by (simp add: update_ref_def p_def)
  ultimately show ?thesis
    by (simp add: dump_thread_def assms(7) o Let_def split_def split: option.splits)
qed

text \<open>
  C21. A thread of \<open>dump-multi\<close> prints the packets. It opens a character device that nobody
  has open by its path, on an interface whose name has no dash, slash or blank. Suppose that in
  every round of its loop no signal is caught, copies to user space succeed, \<open>poll\<close> does not fail and reports what
  \<open>pval_file_poll\<close> says, and linear packets are written to the ring while \<open>poll\<close> waits, between
  \<open>poll\<close> and \<open>readv\<close> and behind \<open>readv\<close>, but none during \<open>readv\<close>. Then the thread keeps running, and
  after 64 more rounds in which nothing arrives the ring is empty. The lines printed are then
  those of packets that arrived, in the order of arrival and each at most once, and those of
  all packets if no more than 1023 have arrived. For a packet written while \<open>readv\<close> computes how
  much there is to read this does not hold, see \<open>Ring_Steps\<close>.
\<close>

theorem dump_thread_prints_all:
  assumes "plain_name ifname" and "length ifname < IFNAMSIZ" and "pdev_inv pdev"
    and "net ifname = Some (PvalDev pdev)" and "n < pd_num_cpus pdev" and "\<not> md_opened (pmdevs d pdev ! n)"
    and "devnode path = Some (chardev_file d ifname n)" and "copy_to_user_ok cp rd"
    and "list_all round_ok (is @ js)" and "all_arrivals js = []" and "64 \<le> length js"
  shows "\<exists>net' ss kept. dump_thread devnode [] cp rd slots (\<lambda>s. Some (dump_multi_line path s)) path (is @ js) net u
      = Inr (True, concat (map (dump_multi_line path) ss), net') \<and>
    map_option (\<lambda>md. ring_list (md_ring md)) (deref net' \<lparr>ref_if = ifname, ref_dir = d, ref_cpu = n\<rparr>) = Some [] \<and>
    list_all2 slot_holds kept ss \<and> subseq kept (all_arrivals is) \<and>
    (length (all_arrivals is) \<le> 1023 \<longrightarrow> kept = all_arrivals is)"
proof -
  let ?md = "flush_open (pmdevs d pdev ! n)"
  let ?u = "fold (\<lambda>v u. cp u (iov_base v) (replicate sizeof_pval_slot 0)) (slot_iov slots) u"
  have n: "n < length (pmdevs d pdev)" using assms(3,5) by (simp add: pmdevs_length) (simp add: pdev_inv_def)
  have "ring_inv (md_ring (pmdevs d pdev ! n))" using assms(3,5) by (cases d) (simp_all add: pdev_inv_def)
  then have "tracks [] [] ?md"
    by (simp add: tracks_def flush_open_def ring_inv_zero ring_list_zero)
  from loop_drains [OF assms(8) this assms(9-11), of slots "dump_multi_line path" ?u] obtain ss md' u'
    where l: "thread_loop cp rd (slot_iov slots) (\<lambda>s. Some (dump_multi_line path s)) (is @ js) ?md ?u
        = Some (True, concat (map (dump_multi_line path) ss), md', u')"
      "tracks (all_arrivals is) ss md'" "ring_list (md_ring md') = []" by blast
  then obtain kept where k: "list_all2 slot_holds kept ss" "subseq kept (all_arrivals is)"
      "min 1023 (length (all_arrivals is)) \<le> length kept" by (auto simp: tracks_def)
  then have "length (all_arrivals is) \<le> 1023 \<longrightarrow> kept = all_arrivals is"
    using list_emb_length [OF k(2)] subseq_same_length [OF k(2)] by simp
  moreover have "deref (net(ifname \<mapsto> PvalDev (set_pmdev d n md' pdev))) \<lparr>ref_if = ifname, ref_dir = d, ref_cpu = n\<rparr> = Some md'"
    using deref_set(1) [of net "\<lparr>ref_if = ifname, ref_dir = d, ref_cpu = n\<rparr>" pdev md'] assms(4) n by simp
  ultimately show ?thesis
    using l k by (simp add: dump_thread_open [where devnode = devnode and net = net, OF assms(1-7)]) blast
qed

definition example_round :: "sk_buff list \<Rightarrow> round_in" where
  "example_round ss = \<lparr>ri_signal = False, ri_waiting = ss,
     ri_poll = \<lambda>mask. (if mask AND POLLIN = 0 then 0 else 1, ucast (mask AND POLLIN)), ri_polled = [], ri_behind = []\<rparr>"

definition example_path :: string where "example_path = ''/dev/pval/pval0-tx-cpu-0''"

theorem dump_thread_prints_all_witness:
  "\<exists>net' s. dump_thread [example_path \<mapsto> chardev_file TX ''pval0'' 0] [] put_user get_user 4096
      (\<lambda>s. Some (dump_multi_line example_path s)) example_path
      (example_round [example_tx_skb] # replicate 64 (example_round [])) example_net (\<lambda>_. 0)
      = Inr (True, dump_multi_line example_path s, net') \<and> slot_holds example_tx_skb s"
proof -
  let ?pdev = "example_pdev\<lparr>pd_txmdevs := replicate 16 (example_mdev\<lparr>md_opened := False\<rparr>)\<rparr>"
  let ?is = "[example_round [example_tx_skb]]" and ?js = "replicate 64 (example_round [])"
  have net: "example_net ''pval0'' = Some (PvalDev ?pdev)" by (simp add: example_net_def)
  have cpu: "0 < pd_num_cpus ?pdev" "\<not> md_opened (pmdevs TX ?pdev ! 0)" by (simp_all add: example_pdev_def)
  have ok: "list_all round_ok (?is @ ?js)"
    by (simp add: round_ok_def poll_ok_def arrivals_def example_round_def example_tx_skb_linear list_all_iff)
  have arr: "all_arrivals ?is = [example_tx_skb]" "all_arrivals ?js = []"
    by (simp_all add: all_arrivals_def arrivals_def example_round_def)
  from dump_thread_prints_all [where net = example_net and path = example_path and slots = 4096 and u = "\<lambda>_. 0"
      and devnode = "[example_path \<mapsto> chardev_file TX ''pval0'' 0]" and d = TX,
      OF plain_pval0 short_pval0 example_closed_inv net cpu _ put_user_ok ok arr(2)]
  obtain net' ss where o: "dump_thread [example_path \<mapsto> chardev_file TX ''pval0'' 0] [] put_user get_user 4096
      (\<lambda>s. Some (dump_multi_line example_path s)) example_path (?is @ ?js) example_net (\<lambda>_. 0)
      = Inr (True, concat (map (dump_multi_line example_path) ss), net')" "list_all2 slot_holds [example_tx_skb] ss"
    by (auto simp: arr)
  from o(2) obtain s where "ss = [s]" "slot_holds example_tx_skb s" by (auto simp: list_all2_Cons1)
  with o(1) show ?thesis by auto
qed

section \<open>Too many devices\<close>

text \<open>
  With threads that can be created and paths that fit, \<open>dump-multi\<close> starts one thread per
  argument, in order; with more than 32 arguments it writes behind its arrays.
\<close>

lemma start_threads_outcome:
  "(\<And>n. create n = 0) \<Longrightarrow> list_all (\<lambda>p. length p < PATH_MAX) args \<Longrightarrow> n \<le> 32 \<Longrightarrow>
   start_threads create n args = (if n + length args \<le> 32 then Inr (0, args) else Inl OutOfBounds)"
proof (induction args arbitrary: n)
  case (Cons a args)
  then show ?case by (cases "n = 32") auto
qed simp

lemma dump_multi_main_outcome:
  assumes "\<And>n. create n = 0" and "list_all (\<lambda>p. length p < PATH_MAX) args" and "args \<noteq> []"
  shows "dump_multi_main create True prog args = (if length args \<le> 32 then Inr (None, args, []) else Inl OutOfBounds)"
  using start_threads_outcome [OF assms(1,2), of 0] assms(3) by (simp add: dump_multi_main_def)

end
