(* ===== verification/Module_Run.thy ===== *)
theory Module_Run
  imports Link_Correct
begin

text \<open>
  The module in operation: interfaces are created, configured and removed, packets are sent
  and received, workers run, and processes open, read and close the character devices, in
  any order. Every handler is one step; the single accesses of a writer and a reader of the
  same ring are the subject of \<open>Ring_Steps\<close>. The invariant \<open>run_ok\<close> types the whole state, and
  in every state of a run no handler of an existing interface faults.
\<close>

section \<open>State and steps\<close>


definition scheduled :: "kcall list \<Rightarrow> pval_worker list" where
  "scheduled cs = List.map_filter (\<lambda>c. case c of ScheduleWork w \<Rightarrow> Some w | _ \<Rightarrow> None) cs"

lemma scheduled_simps [simp]:
  "scheduled [] = []" "scheduled (c # cs) = (case c of ScheduleWork w \<Rightarrow> [w] | _ \<Rightarrow> []) @ scheduled cs"
  "scheduled (as @ bs) = scheduled as @ scheduled bs"
  by (simp_all add: scheduled_def List.map_filter_def split: kcall.split)




section \<open>The invariant\<close>




text \<open>A handler that changes rings and switches only.\<close>

definition same_shape :: "pval_dev \<Rightarrow> pval_dev \<Rightarrow> bool" where
  "same_shape pdev pdev' \<longleftrightarrow> pd_num_cpus pdev' = pd_num_cpus pdev \<and> pd_link pdev' = pd_link pdev \<and>
     (pdev_inv pdev \<longrightarrow> pdev_inv pdev') \<and>
     (\<forall>d. \<forall>n < length (pmdevs d pdev). md_opened (pmdevs d pdev' ! n) = md_opened (pmdevs d pdev ! n))"

lemma same_shape_refl [simp]: "same_shape pdev pdev"
  by (simp add: same_shape_def)




section \<open>Every step keeps it\<close>
































section \<open>No handler faults\<close>




















end
