(* ===== verification/Rtnl.thy ===== *)
theory Rtnl
  imports Ll_Map
begin

text \<open>
  The message exchange of \<open>iproute2-4.18.0/lib/libnetlink.c\<close>: requests, dumps with their filters,
  requests with an answer, listening and reading from a file, and on top of it \<open>ll_init_map\<close> of
  \<open>lib/ll_map.c\<close>.

  The socket is the queue of what the kernel will report, errors and datagrams in their order. A
  receive on an empty queue does not return. What is sent and what is written to standard error is
  recorded. \<open>strerror\<close>, whether \<open>malloc\<close> succeeds, the result of sending and the extended error
  report \<open>nl_dump_ext_ack\<close>, which needs \<open>libmnl\<close> and is left out of a build without it, are
  arguments.
\<close>

section \<open>Messages and sockets\<close>

definition EINTR :: int where "EINTR = 4"
definition EAGAIN :: int where "EAGAIN = 11"
definition ENOENT :: int where "ENOENT = 2"
definition ENODATA :: int where "ENODATA = 61"
definition ENOBUFS :: int where "ENOBUFS = 105"

definition NLMSG_ERROR :: nat where "NLMSG_ERROR = 2"
definition NLMSG_DONE :: nat where "NLMSG_DONE = 3"
definition NLM_F_ACK :: u16 where "NLM_F_ACK = 0x04"
definition NLM_F_DUMP_INTR :: u16 where "NLM_F_DUMP_INTR = 0x10"
definition NLM_F_REQUEST :: u16 where "NLM_F_REQUEST = 0x01"
definition NLM_F_DUMP :: u16 where "NLM_F_DUMP = 0x300"
definition NETLINK_ROUTE :: int where "NETLINK_ROUTE = 0"
definition NETLINK_SOCK_DIAG :: int where "NETLINK_SOCK_DIAG = 4"

record nlmsghdr =
  nlmsg_len :: nat
  nlmsg_type :: nat
  nlmsg_flags :: u16
  nlmsg_seq :: u32
  nlmsg_pid :: u32

definition hdr_bytes :: "nlmsghdr \<Rightarrow> bytes" where
  "hdr_bytes h = le_bytes 4 (nlmsg_len h) @ le_bytes 2 (nlmsg_type h) @ le_bytes 2 (unat (nlmsg_flags h))
     @ le_bytes 4 (unat (nlmsg_seq h)) @ le_bytes 4 (unat (nlmsg_pid h))"

definition hdr_of :: "bytes \<Rightarrow> nlmsghdr" where
  "hdr_of b = \<lparr>nlmsg_len = le_val (take 4 b), nlmsg_type = le_val (take 2 (drop 4 b)),
     nlmsg_flags = word_of_nat (le_val (take 2 (drop 6 b))), nlmsg_seq = word_of_nat (le_val (take 4 (drop 8 b))),
     nlmsg_pid = word_of_nat (le_val (take 4 (drop 12 b)))\<rparr>"

definition hdr_at :: "bytes \<Rightarrow> nat \<Rightarrow> nlmsghdr option" where
  "hdr_at b off = map_option hdr_of (mem_read b off 16)"

text \<open>The value of an \<open>int\<close> after a conversion.\<close>

definition to_int :: "int \<Rightarrow> int" where
  "to_int x = sint (word_of_int x :: u32)"

lemma to_int_eq: "to_int x = (x + 2 ^ 31) mod 2 ^ 32 - 2 ^ 31"
  by (simp add: to_int_def sint_sbintrunc' signed_take_bit_eq_take_bit_shift take_bit_eq_mod)

lemma to_int_id: "- (2 ^ 31) \<le> x \<Longrightarrow> x < 2 ^ 31 \<Longrightarrow> to_int x = x"
  by (simp add: to_int_eq)

definition int_at :: "bytes \<Rightarrow> nat \<Rightarrow> int option" where
  "int_at b off = map_option (\<lambda>w. to_int (int (le_val w))) (mem_read b off 4)"

text \<open>\<open>NLMSG_ALIGN\<close> of an \<open>int\<close> is an \<open>unsigned\<close>.\<close>

definition align_int :: "int \<Rightarrow> nat" where
  "align_int len = NLMSG_ALIGN (nat (len mod 2 ^ 32)) mod 2 ^ 32"

record datagram =
  dg_pid :: u32 \<comment> \<open>\<open>nl_pid\<close> of the sender\<close>
  dg_namelen :: nat \<comment> \<open>\<open>msg_namelen\<close>, the size of the sender's address\<close>
  dg_nsid :: "int list" \<comment> \<open>the name space numbers in the control messages\<close>
  dg_data :: bytes

datatype sock_event = RecvError int | Arrives datagram

record io =
  io_events :: "sock_event list"
  io_sent :: "bytes list"
  io_err :: string
  io_errno :: int

definition say :: "string \<Rightarrow> io \<Rightarrow> io" where
  "say s io = io\<lparr>io_err := io_err io @ s @ [CHR 0x0A]\<rparr>"

record libc =
  strerror :: "int \<Rightarrow> string"
  malloc_ok :: "nat \<Rightarrow> bool"
  sendmsg :: "bytes \<Rightarrow> int" \<comment> \<open>the result, or the negative error number\<close>
  nl_dump_ext_ack :: "bytes \<Rightarrow> string \<times> int"

definition perror :: "libc \<Rightarrow> string \<Rightarrow> io \<Rightarrow> io" where
  "perror c s io = say (s @ '': '' @ strerror c (io_errno io)) io"

definition sdec :: "int \<Rightarrow> string" where
  "sdec n = (if n < 0 then ''-'' else []) @ dec (nat \<bar>n\<bar>)"

text \<open>How a function ends: it returns, the program exits with status 1, it waits for a message that
  never comes, or it accesses memory outside of an object.\<close>

datatype 'a outcome = Return 'a | Exits io | Blocks io | Crash

fun andthen :: "'a outcome \<Rightarrow> ('a \<Rightarrow> 'b outcome) \<Rightarrow> 'b outcome" where
  "andthen (Return x) f = f x"
| "andthen (Exits io) f = Exits io"
| "andthen (Blocks io) f = Blocks io"
| "andthen Crash f = Crash"

lemma andthen_cong [fundef_cong]:
  "x = y \<Longrightarrow> (\<And>a. y = Return a \<Longrightarrow> f a = g a) \<Longrightarrow> andthen x f = andthen y g"
  by (cases y) auto

definition checked :: "'a option \<Rightarrow> 'a outcome" where
  "checked r = (case r of None \<Rightarrow> Crash | Some x \<Rightarrow> Return x)"

text \<open>\<open>__rtnl_recvmsg\<close>: the datagram, or a negative error number; \<open>peek\<close> leaves it in the queue.\<close>

function recv_raw :: "libc \<Rightarrow> bool \<Rightarrow> io \<Rightarrow> ((int + datagram) \<times> io) outcome" where
  "recv_raw c peek io =
     (case io_events io of
        [] \<Rightarrow> Blocks io
      | RecvError e # ev \<Rightarrow>
          let io' = io\<lparr>io_events := ev, io_errno := e\<rparr> in
          if e = EINTR \<or> e = EAGAIN then recv_raw c peek io'
          else Return (Inl (- e), say (''netlink receive error '' @ strerror c e @ '' ('' @ sdec e @ '')'') io')
      | Arrives d # ev \<Rightarrow>
          let io' = (if peek then io else io\<lparr>io_events := ev\<rparr>) in
          if dg_data d = [] then Return (Inl (- ENODATA), say ''EOF on netlink'' io')
          else Return (Inr d, io'))"
  by pat_completeness auto
termination by (relation "measure (\<lambda>(c, peek, io). length (io_events io))") auto

declare recv_raw.simps [simp del]

text \<open>\<open>rtnl_recvmsg\<close>: the length of the datagram is asked for first, so that the buffer can hold it; the
  buffer, the sender and whether the datagram was cut off.\<close>

definition rtnl_recvmsg :: "libc \<Rightarrow> io \<Rightarrow> ((int + datagram \<times> bool) \<times> io) outcome" where
  "rtnl_recvmsg c io =
     andthen (recv_raw c True io) (\<lambda>(r, io1).
       case r of
         Inl e \<Rightarrow> Return (Inl e, io1)
       | Inr d \<Rightarrow>
           let len = length (dg_data d) in
           if \<not> malloc_ok c len then Return (Inl (- ENOMEM), say ''malloc error: not enough buffer'' io1)
           else andthen (recv_raw c False io1) (\<lambda>(r', io2).
             case r' of
               Inl e \<Rightarrow> Return (Inl e, io2)
             | Inr d' \<Rightarrow> Return (Inr (d'\<lparr>dg_data := take len (dg_data d')\<rparr>, length (dg_data d') > len), io2)))"

section \<open>Handles and requests\<close>

record rtnl_handle =
  rh_fd :: int
  rh_local_pid :: u32
  rh_local_groups :: u32
  rh_seq :: u32
  rh_dump :: u32
  rh_proto :: int
  rh_dump_fp :: "bytes option" \<comment> \<open>what was written to the file\<close>
  rh_flags :: u32

text \<open>The system calls of \<open>rtnl_open_byproto\<close>: the results of \<open>socket\<close>, of setting the two buffer sizes and of
  \<open>bind\<close>, and the address \<open>getsockname\<close> gives, with its size and family.\<close>

record open_env =
  oe_socket :: int
  oe_sndbuf :: int
  oe_rcvbuf :: int
  oe_bind :: int
  oe_getsockname :: int
  oe_addr_len :: nat
  oe_family :: nat
  oe_pid :: u32
  oe_groups :: u32
  oe_time :: u32

definition AF_NETLINK :: nat where "AF_NETLINK = 16"
definition sizeof_sockaddr_nl :: nat where "sizeof_sockaddr_nl = 12"

definition rtnl_open_byproto :: "open_env \<Rightarrow> u32 \<Rightarrow> int \<Rightarrow> int \<times> rtnl_handle" where
  "rtnl_open_byproto e subscriptions protocol =
     (let rth = \<lparr>rh_fd = oe_socket e, rh_local_pid = 0, rh_local_groups = 0, rh_seq = 0, rh_dump = 0,
                 rh_proto = protocol, rh_dump_fp = None, rh_flags = 0\<rparr> in
      if oe_socket e < 0 \<or> oe_sndbuf e < 0 \<or> oe_rcvbuf e < 0 then (- 1, rth)
      else let rth1 = rth\<lparr>rh_local_groups := subscriptions\<rparr> in
        if oe_bind e < 0 \<or> oe_getsockname e < 0 then (- 1, rth1)
        else let rth2 = rth1\<lparr>rh_local_pid := oe_pid e, rh_local_groups := oe_groups e\<rparr> in
          if oe_addr_len e \<noteq> sizeof_sockaddr_nl \<or> oe_family e \<noteq> AF_NETLINK then (- 1, rth2)
          else (0, rth2\<lparr>rh_seq := oe_time e\<rparr>))"

definition rtnl_open :: "open_env \<Rightarrow> u32 \<Rightarrow> int \<times> rtnl_handle" where
  "rtnl_open e subscriptions = rtnl_open_byproto e subscriptions NETLINK_ROUTE"

definition rtnl_close :: "rtnl_handle \<Rightarrow> rtnl_handle" where
  "rtnl_close rth = (if rh_fd rth \<ge> 0 then rth\<lparr>rh_fd := - 1\<rparr> else rth)"

text \<open>\<open>send\<close> and \<open>sendmsg\<close> return the error as a negative number here and leave it in \<open>errno\<close>.\<close>

definition send_msg :: "libc \<Rightarrow> bytes \<Rightarrow> io \<Rightarrow> int \<times> io" where
  "send_msg c msg io =
     (if sendmsg c msg < 0 then (- 1, io\<lparr>io_errno := - sendmsg c msg\<rparr>)
      else (sendmsg c msg, io\<lparr>io_sent := io_sent io @ [msg]\<rparr>))"

definition rtnl_send :: "libc \<Rightarrow> bytes \<Rightarrow> io \<Rightarrow> int \<times> io" where
  "rtnl_send c buf io = send_msg c buf io"

definition next_dump :: "rtnl_handle \<Rightarrow> rtnl_handle" where
  "next_dump rth = rth\<lparr>rh_dump := rh_seq rth + 1, rh_seq := rh_seq rth + 1\<rparr>"

definition dump_hdr :: "rtnl_handle \<Rightarrow> nat \<Rightarrow> nat \<Rightarrow> bytes" where
  "dump_hdr rth len ty = hdr_bytes \<lparr>nlmsg_len = len, nlmsg_type = ty, nlmsg_flags = NLM_F_DUMP OR NLM_F_REQUEST,
     nlmsg_seq = rh_dump rth, nlmsg_pid = 0\<rparr>"

definition ifinfomsg :: "u8 \<Rightarrow> bytes" where
  "ifinfomsg family = family # replicate 15 0"

definition IFLA_EXT_MASK :: nat where "IFLA_EXT_MASK = 29"
definition RTEXT_FILTER_VF :: u32 where "RTEXT_FILTER_VF = 1"

definition rtnl_wilddump_req_filter ::
  "libc \<Rightarrow> rtnl_handle \<Rightarrow> u8 \<Rightarrow> nat \<Rightarrow> u32 \<Rightarrow> io \<Rightarrow> int \<times> rtnl_handle \<times> io" where
  "rtnl_wilddump_req_filter c rth family ty filt_mask io =
     (let rth' = next_dump rth;
          (rc, io') = send_msg c (dump_hdr rth' 40 ty @ ifinfomsg family @ rtattr_hdr (RTA_LENGTH 4) IFLA_EXT_MASK
                        @ le_bytes 4 (unat filt_mask)) io
      in (rc, rth', io'))"

definition rtnl_wilddump_request :: "libc \<Rightarrow> rtnl_handle \<Rightarrow> u8 \<Rightarrow> nat \<Rightarrow> io \<Rightarrow> int \<times> rtnl_handle \<times> io" where
  "rtnl_wilddump_request c rth family ty io = rtnl_wilddump_req_filter c rth family ty RTEXT_FILTER_VF io"

text \<open>The request, with room for 1024 bytes of attributes, is completed by \<open>filter_fn\<close>.\<close>

definition rtnl_wilddump_req_filter_fn ::
  "libc \<Rightarrow> rtnl_handle \<Rightarrow> u8 \<Rightarrow> nat \<Rightarrow> (nlmsg \<Rightarrow> nat \<Rightarrow> int \<times> nlmsg) option \<Rightarrow> io \<Rightarrow> int \<times> rtnl_handle \<times> io" where
  "rtnl_wilddump_req_filter_fn c rth family ty filter_fn io =
     (let rth' = next_dump rth in
      case filter_fn of
        None \<Rightarrow> (- EINVAL, rth', io)
      | Some f \<Rightarrow>
          let (err, req) = f \<lparr>nm_len = 32, nm_buf = dump_hdr rth' 32 ty @ ifinfomsg family @ replicate 1024 0\<rparr> 1056 in
          if err \<noteq> 0 then (err, rth', io)
          else let (rc, io') = send_msg c (take (nm_len req) (le_bytes 4 (nm_len req) @ drop 4 (nm_buf req))) io
               in (rc, rth', io'))"

definition rtnl_wilddump_stats_req_filter ::
  "libc \<Rightarrow> rtnl_handle \<Rightarrow> u8 \<Rightarrow> nat \<Rightarrow> u32 \<Rightarrow> io \<Rightarrow> int \<times> rtnl_handle \<times> io" where
  "rtnl_wilddump_stats_req_filter c rth fam ty filt_mask io =
     (let rth' = next_dump rth;
          (rc, io') = send_msg c (dump_hdr rth' 28 ty @ (fam # replicate 7 0) @ le_bytes 4 (unat filt_mask)) io
      in (rc, rth', io'))"

definition rtnl_dump_request :: "libc \<Rightarrow> rtnl_handle \<Rightarrow> nat \<Rightarrow> bytes \<Rightarrow> io \<Rightarrow> int \<times> rtnl_handle \<times> io" where
  "rtnl_dump_request c rth ty req io =
     (let rth' = next_dump rth; (rc, io') = send_msg c (dump_hdr rth' (length req + 16) ty @ req) io
      in (rc, rth', io'))"

text \<open>A whole message; its flags, sequence number and port are set.\<close>

definition rtnl_dump_request_n :: "libc \<Rightarrow> rtnl_handle \<Rightarrow> bytes \<Rightarrow> io \<Rightarrow> int \<times> rtnl_handle \<times> io" where
  "rtnl_dump_request_n c rth n io =
     (let rth' = next_dump rth; h = hdr_of n;
          h' = h\<lparr>nlmsg_flags := NLM_F_DUMP OR NLM_F_REQUEST, nlmsg_pid := 0, nlmsg_seq := rh_dump rth'\<rparr>;
          (rc, io') = send_msg c (hdr_bytes h' @ take (nlmsg_len h - 16) (drop 16 n)) io
      in (rc, rth', io'))"

text \<open>\<open>rtnl_send_check\<close>: errors that are already in the queue are looked at, without waiting and without taking
  them out.\<close>

function check_loop :: "bytes \<Rightarrow> nat \<Rightarrow> int \<Rightarrow> io \<Rightarrow> (int \<times> io) outcome" where
  "check_loop resp off status io =
     (if status < 16 then Return (0, io)
      else andthen (checked (hdr_at resp off)) (\<lambda>h.
        if nlmsg_len h < 16 \<or> int (nlmsg_len h) > status then Return (0, io)
        else if nlmsg_type h = NLMSG_ERROR then
          (if nlmsg_len h < 36 then Return (- 1, say ''ERROR truncated'' io)
           else andthen (checked (int_at resp (off + 16))) (\<lambda>e. Return (- 1, io\<lparr>io_errno := - e\<rparr>)))
        else check_loop resp (off + NLMSG_ALIGN (nlmsg_len h)) (status - int (NLMSG_ALIGN (nlmsg_len h))) io))"
  by pat_completeness auto
termination by (relation "measure (\<lambda>(resp, off, status, io). nat status)") (auto simp: NLMSG_ALIGN_def)

declare check_loop.simps [simp del]

definition rtnl_send_check :: "libc \<Rightarrow> bytes \<Rightarrow> io \<Rightarrow> (int \<times> io) outcome" where
  "rtnl_send_check c buf io =
     (let (status, io1) = send_msg c buf io in
      if status < 0 then Return (status, io1)
      else case io_events io1 of
        [] \<Rightarrow> Return (0, io1\<lparr>io_errno := EAGAIN\<rparr>)
      | RecvError e # ev \<Rightarrow>
          Return (if e = EAGAIN then 0 else - 1, io1\<lparr>io_events := ev, io_errno := e\<rparr>)
      | Arrives d # ev \<Rightarrow>
          let resp = take 1024 (dg_data d) in check_loop resp 0 (int (length resp)) io1)"

section \<open>Dumps\<close>

text \<open>The result of \<open>rtnl_dump_done\<close> for the message at \<open>off\<close>; the number in it is read before its length is
  checked.\<close>

definition rtnl_dump_done :: "libc \<Rightarrow> bytes \<Rightarrow> nat \<Rightarrow> nlmsghdr \<Rightarrow> io \<Rightarrow> (int \<times> io) outcome" where
  "rtnl_dump_done c buf off h io =
     andthen (checked (int_at buf (off + 16))) (\<lambda>len.
       if nlmsg_len h < 20 then Return (- 1, say ''DONE truncated'' io)
       else if len < 0 then
         let io1 = io\<lparr>io_errno := - len\<rparr> in
         if - len = ENOENT \<or> - len = EOPNOTSUPP then Return (- 1, io1)
         else if - len = EMSGSIZE then Return (len, say ''Error: Buffer too small for object.'' io1)
         else Return (len, perror c ''RTNETLINK answers'' io1)
       else Return (0, io\<lparr>io_err := io_err io @ fst (nl_dump_ext_ack c (drop off buf))\<rparr>))"

definition RTNL_HANDLE_F_SUPPRESS_NLERR :: u32 where "RTNL_HANDLE_F_SUPPRESS_NLERR = 2"
definition RTNL_HANDLE_F_LISTEN_ALL_NSID :: u32 where "RTNL_HANDLE_F_LISTEN_ALL_NSID = 1"

definition rtnl_dump_error :: "libc \<Rightarrow> rtnl_handle \<Rightarrow> bytes \<Rightarrow> nat \<Rightarrow> nlmsghdr \<Rightarrow> io \<Rightarrow> io outcome" where
  "rtnl_dump_error c rth buf off h io =
     (if nlmsg_len h < 36 then Return (say ''ERROR truncated'' io)
      else andthen (checked (int_at buf (off + 16))) (\<lambda>e.
        let io1 = io\<lparr>io_errno := - e\<rparr> in
        if rh_proto rth = NETLINK_SOCK_DIAG \<and> (- e = ENOENT \<or> - e = EOPNOTSUPP) then Return io1
        else if rh_flags rth AND RTNL_HANDLE_F_SUPPRESS_NLERR = 0 then Return (perror c ''RTNETLINK answers'' io1)
        else Return io1))"

text \<open>A filter sees the sender and the memory from the message on, and works on a state of its own.\<close>

type_synonym 's nl_filter = "u32 \<Rightarrow> bytes \<Rightarrow> 's \<Rightarrow> (int \<times> 's) option"

text \<open>The state of the loops over one datagram: the buffer, whose flags are changed, what is left of it, whether
  the end of the dump and an interruption were seen, the state of the filters and the rest.\<close>

record 's dump_st =
  ds_buf :: bytes
  ds_msglen :: int
  ds_done :: bool
  ds_intr :: bool
  ds_filter :: 's
  ds_io :: io

datatype 's dump_step = Returned int 's io | Walked "'s dump_st"

definition set_flags :: "bytes \<Rightarrow> nat \<Rightarrow> u16 \<Rightarrow> bytes" where
  "set_flags buf off f = take (off + 6) buf @ le_bytes 2 (unat f) @ drop (off + 8) buf"

text \<open>The messages of a datagram for one filter. The datagram is in \<open>ds_buf\<close>, the message at \<open>off\<close>.\<close>

function dump_walk :: "libc \<Rightarrow> rtnl_handle \<Rightarrow> 's nl_filter \<times> u16 \<Rightarrow> u32 \<Rightarrow> nat \<Rightarrow> 's dump_st \<Rightarrow> 's dump_step outcome" where
  "dump_walk c rth a pid off st =
     (if ds_msglen st < 16 then Return (Walked st)
      else andthen (checked (hdr_at (ds_buf st) off)) (\<lambda>h.
        if nlmsg_len h < 16 \<or> int (nlmsg_len h) > ds_msglen st then Return (Walked st)
        else
          let f = nlmsg_flags h AND NOT (snd a);
              st1 = st\<lparr>ds_buf := set_flags (ds_buf st) off f\<rparr>;
              step = NLMSG_ALIGN (nlmsg_len h) in
          if pid \<noteq> 0 \<or> nlmsg_pid h \<noteq> rh_local_pid rth \<or> nlmsg_seq h \<noteq> rh_dump rth then
            dump_walk c rth a pid (off + step) (st1\<lparr>ds_msglen := ds_msglen st - int step\<rparr>)
          else
            let st2 = st1\<lparr>ds_intr := ds_intr st \<or> f AND NLM_F_DUMP_INTR \<noteq> 0\<rparr> in
            if nlmsg_type h = NLMSG_DONE then
              andthen (rtnl_dump_done c (ds_buf st2) off h (ds_io st2)) (\<lambda>(err, io1).
                Return (if err < 0 then Returned (- 1) (ds_filter st2) io1
                        else Walked (st2\<lparr>ds_done := True, ds_io := io1\<rparr>)))
            else if nlmsg_type h = NLMSG_ERROR then
              andthen (rtnl_dump_error c rth (ds_buf st2) off h (ds_io st2)) (\<lambda>io1.
                Return (Returned (- 1) (ds_filter st2) io1))
            else
              andthen (if rh_dump_fp rth = None then checked (fst a pid (drop off (ds_buf st2)) (ds_filter st2))
                       else Return (0, ds_filter st2)) (\<lambda>(err, fs).
                if err < 0 then Return (Returned err fs (ds_io st2))
                else dump_walk c rth a pid (off + step)
                  (st2\<lparr>ds_filter := fs, ds_msglen := ds_msglen st - int step\<rparr>))))"
  by pat_completeness auto
termination
  by (relation "measure (\<lambda>(c, rth, a, pid, off, st). nat (ds_msglen st))") (auto simp: NLMSG_ALIGN_def)

declare dump_walk.simps [simp del]

text \<open>All filters in turn, each from the start of the datagram.\<close>

fun dump_filters :: "libc \<Rightarrow> rtnl_handle \<Rightarrow> ('s nl_filter \<times> u16) list \<Rightarrow> u32 \<Rightarrow> int \<Rightarrow> 's dump_st \<Rightarrow> 's dump_step outcome" where
  "dump_filters c rth [] pid status st = Return (Walked st)"
| "dump_filters c rth (a # arg) pid status st =
     andthen (dump_walk c rth a pid 0 (st\<lparr>ds_msglen := status\<rparr>)) (\<lambda>r.
       case r of
         Returned rc fs io1 \<Rightarrow> Return (Returned rc fs io1)
       | Walked st1 \<Rightarrow> dump_filters c rth arg pid status st1)"

lemma recv_raw_events:
  "recv_raw c peek io = Return (r, io1) \<Longrightarrow> length (io_events io1) \<le> length (io_events io) \<and>
     (\<not> peek \<longrightarrow> length (io_events io1) < length (io_events io))"
proof (induction c peek io rule: recv_raw.induct)
  case (1 c peek io)
  show ?case
  proof (cases "io_events io")
    case (Cons x ev)
    then show ?thesis
      using 1 by (cases x) (force simp: recv_raw.simps [of c peek io] say_def Let_def split: if_splits)+
  qed (use 1 in \<open>simp add: recv_raw.simps\<close>)
qed

lemma rtnl_recvmsg_events:
  assumes "rtnl_recvmsg c io = Return (Inr d, io1)"
  shows "length (io_events io1) < length (io_events io)"
proof -
  obtain d1 io0 where p: "recv_raw c True io = Return (Inr d1, io0)" and m: "malloc_ok c (length (dg_data d1))"
    using assms unfolding rtnl_recvmsg_def by (cases "recv_raw c True io") (auto split: sum.splits if_splits simp: Let_def)
  obtain d2 where "recv_raw c False io0 = Return (Inr d2, io1)"
    using assms p m unfolding rtnl_recvmsg_def
    by (cases "recv_raw c False io0") (auto split: sum.splits simp: Let_def)
  with recv_raw_events [OF p] recv_raw_events [of c False io0] show ?thesis by fastforce
qed

lemma events_say [simp]: "io_events (say s io) = io_events io" "io_events (perror c s io) = io_events io"
  by (simp_all add: say_def perror_def)

lemma andthen_Return: "andthen x f = Return y \<longleftrightarrow> (\<exists>a. x = Return a \<and> f a = Return y)"
  by (cases x) auto

lemma dump_done_events: "rtnl_dump_done c buf off h io = Return (err, io1) \<Longrightarrow> io_events io1 = io_events io"
  by (auto simp: rtnl_dump_done_def andthen_Return Let_def split: if_splits)

lemma dump_walk_events:
  "dump_walk c rth a pid off st = Return (Walked st1) \<Longrightarrow> io_events (ds_io st1) = io_events (ds_io st)"
proof (induction c rth a pid off st rule: dump_walk.induct)
  case (1 c rth a pid off st)
  then show ?case
    by (subst (asm) (3) dump_walk.simps)
       (auto simp: andthen_Return Let_def split: if_splits prod.splits dest!: dump_done_events)
qed

lemma dump_filters_events:
  "dump_filters c rth arg pid status st = Return (Walked st1) \<Longrightarrow> io_events (ds_io st1) = io_events (ds_io st)"
proof (induction arg arbitrary: st)
  case (Cons a arg)
  from Cons.prems obtain r where r: "dump_walk c rth a pid 0 (st\<lparr>ds_msglen := status\<rparr>) = Return r"
    by (auto simp: andthen_Return)
  with Cons.prems obtain st2 where st2: "r = Walked st2" by (cases r) simp_all
  show ?case using Cons r dump_walk_events [OF r [unfolded st2]] by (simp add: st2)
qed simp

definition file_write :: "rtnl_handle \<Rightarrow> bytes \<Rightarrow> rtnl_handle option" where
  "file_write rth buf =
     (case rh_dump_fp rth of
        None \<Rightarrow> Some rth
      | Some out \<Rightarrow> map_option (\<lambda>b. rth\<lparr>rh_dump_fp := Some (out @ b)\<rparr>) (mem_read buf 0 (NLMSG_ALIGN (length buf))))"

definition remnant :: "int \<Rightarrow> io \<Rightarrow> io" where
  "remnant n io = say (''!!!Remnant of size '' @ sdec n) io"

text \<open>\<open>rtnl_dump_filter_l\<close>: result, handle, state of the filters and the rest.\<close>

function dump_loop :: "libc \<Rightarrow> ('s nl_filter \<times> u16) list \<Rightarrow> rtnl_handle \<Rightarrow> bool \<Rightarrow> 's \<Rightarrow> io \<Rightarrow>
    (int \<times> rtnl_handle \<times> 's \<times> io) outcome" where
  "dump_loop c arg rth intr fs io =
     andthen (rtnl_recvmsg c io) (\<lambda>(r, io1).
       case r of
         Inl e \<Rightarrow> Return (e, rth, fs, io1)
       | Inr (d, trunc) \<Rightarrow>
           andthen (checked (file_write rth (dg_data d))) (\<lambda>rth1.
             andthen (dump_filters c rth1 arg (dg_pid d) (int (length (dg_data d)))
                 \<lparr>ds_buf = dg_data d, ds_msglen = 0, ds_done = False, ds_intr = intr, ds_filter = fs, ds_io = io1\<rparr>) (\<lambda>w.
               case w of
                 Returned rc fs1 io2 \<Rightarrow> Return (rc, rth1, fs1, io2)
               | Walked st \<Rightarrow>
                   let io2 = ds_io st in
                   if ds_done st then
                     Return (0, rth1, ds_filter st,
                       if ds_intr st then say ''Dump was interrupted and may be inconsistent.'' io2 else io2)
                   else if trunc then dump_loop c arg rth1 (ds_intr st) (ds_filter st) (say ''Message truncated'' io2)
                   else if ds_msglen st \<noteq> 0 then Exits (remnant (ds_msglen st) io2)
                   else dump_loop c arg rth1 (ds_intr st) (ds_filter st) io2)))"
  by pat_completeness auto
termination
  by (relation "measure (\<lambda>(c, arg, rth, intr, fs, io). length (io_events io))")
     (auto dest!: rtnl_recvmsg_events dump_filters_events simp: checked_def split: option.splits)

declare dump_loop.simps [simp del]

definition rtnl_dump_filter_l :: "libc \<Rightarrow> rtnl_handle \<Rightarrow> ('s nl_filter \<times> u16) list \<Rightarrow> 's \<Rightarrow> io \<Rightarrow>
    (int \<times> rtnl_handle \<times> 's \<times> io) outcome" where
  "rtnl_dump_filter_l c rth arg fs io = dump_loop c arg rth False fs io"

definition rtnl_dump_filter_nc :: "libc \<Rightarrow> rtnl_handle \<Rightarrow> 's nl_filter \<Rightarrow> u16 \<Rightarrow> 's \<Rightarrow> io \<Rightarrow>
    (int \<times> rtnl_handle \<times> 's \<times> io) outcome" where
  "rtnl_dump_filter_nc c rth flt nc_flags fs io = rtnl_dump_filter_l c rth [(flt, nc_flags)] fs io"

end
