(* ===== verification/Rtnl_Talk.thy ===== *)
theory Rtnl_Talk
  imports Rtnl
begin

text \<open>
  The rest of the message exchange of \<open>iproute2-4.18.0/lib/libnetlink.c\<close>: requests that wait for their
  answers (\<open>rtnl_talk\<close> and its relatives), listening, and messages from a file; and
  \<open>ll_init_map\<close> of \<open>lib/ll_map.c\<close>. The loops compare the signed rest of the buffer with the unsigned
  size of a header, so a negative rest counts as large.
\<close>

section \<open>Requests with an answer\<close>

text \<open>The requests, each memory and the number of bytes of it to be sent, get consecutive numbers; without a
  place for the answer an acknowledgement is asked for. What is sent comes back with the last number.\<close>

fun number_msgs :: "bool \<Rightarrow> u32 \<Rightarrow> (bytes \<times> nat) list \<Rightarrow> (bytes \<times> u32) option" where
  "number_msgs answer seq [] = Some ([], seq)"
| "number_msgs answer seq ((m, iov_len) # ms) =
     (case hdr_at m 0 of
        None \<Rightarrow> None
      | Some h \<Rightarrow>
          let h' = h\<lparr>nlmsg_seq := seq + 1, nlmsg_flags := (if answer then nlmsg_flags h else nlmsg_flags h OR NLM_F_ACK)\<rparr>
          in map_option (\<lambda>(out, s). (take iov_len (hdr_bytes h' @ drop 16 m) @ out, s)) (number_msgs answer (seq + 1) ms))"

text \<open>\<open>status >= sizeof(*h)\<close>, an unsigned comparison of 64 bits.\<close>

definition room_for_hdr :: "int \<Rightarrow> bool" where
  "room_for_hdr status \<longleftrightarrow> nat (status mod 2 ^ 64) \<ge> 16"

text \<open>Whether a message is an answer: \<open>seq - iovlen\<close> is an unsigned subtraction of 64 bits.\<close>

definition seq_matches :: "u32 \<Rightarrow> nat \<Rightarrow> u32 \<Rightarrow> bool" where
  "seq_matches seq iovlen s \<longleftrightarrow> \<not> (s > seq \<or> uint s < (uint seq - int iovlen) mod 2 ^ 64)"

definition rtnl_talk_error :: "libc \<Rightarrow> bytes \<Rightarrow> int \<Rightarrow> io \<Rightarrow> io" where
  "rtnl_talk_error c msg error io =
     (let (out, rc) = nl_dump_ext_ack c msg; io1 = io\<lparr>io_err := io_err io @ out\<rparr> in
      if rc \<noteq> 0 then io1 else say (''RTNETLINK answers: '' @ strerror c (- error)) io1)"

record talk_env =
  te_libc :: libc
  te_proto :: int
  te_pid :: u32 \<comment> \<open>\<open>nl_pid\<close> of the handle\<close>
  te_seq :: u32
  te_iovlen :: nat
  te_answer :: bool
  te_show :: bool \<comment> \<open>\<open>show_rtnl_err\<close>\<close>

text \<open>The end of a walk over one datagram: the function returns, with the buffer as the answer if one is stored;
  the next datagram is waited for (\<open>goto next\<close>, perhaps with an answer stored); or the datagram is
  used up, with \<open>status\<close> bytes left over.\<close>

datatype talk_step =
    TalkReturn int "bytes option" (ts_io: io)
  | TalkNext "bytes option" (ts_io: io)
  | TalkOver int (ts_io: io)

lemma align_progress:
  assumes "\<not> to_int (to_int x - 16) < 0"
  shows "0 < align_int (to_int x)"
proof (rule ccontr)
  define y where "y = to_int x"
  have y: "- (2 ^ 31) \<le> y" "y < 2 ^ 31" unfolding y_def to_int_eq by simp_all
  define m where "m = nat (y mod 4294967296)"
  assume "\<not> 0 < align_int (to_int x)"
  then have *: "(m + 3) div 4 * 4 mod 4294967296 = 0" by (simp add: align_int_def NLMSG_ALIGN_def y_def m_def)
  have "m = 0 \<or> m \<ge> 4294967293"
  proof (cases "(m + 3) div 4 * 4 < 4294967296")
    case True
    with * have "(m + 3) div 4 = 0" by simp
    then show ?thesis by (cases m) (simp_all add: div_eq_0_iff)
  next
    case False
    then show ?thesis using div_times_less_eq_dividend [of "m + 3" 4] by linarith
  qed
  then have y3: "y = 0 \<or> - 3 \<le> y \<and> y < 0"
  proof (cases "0 \<le> y")
    case True
    then have "int m = y" using y by (simp add: m_def)
    with \<open>m = 0 \<or> _\<close> y show ?thesis by auto
  next
    case False
    then have "(y + 4294967296) mod 4294967296 = y + 4294967296" using y by (intro mod_pos_pos_trivial) auto
    then have "int m = y + 4294967296" using y by (simp add: m_def)
    with \<open>m = 0 \<or> _\<close> False y show ?thesis by auto
  qed
  then have "to_int (y - 16) = y - 16" by (intro to_int_id) auto
  with y3 assms show False by (auto simp: y_def)
qed

lemma walk_measure:
  assumes "checked (hdr_at buf off) = Return h" and "\<not> to_int (to_int x - 16) < 0"
  shows "length buf - (off + align_int (to_int x)) < length buf - off"
proof -
  have "off + 16 \<le> length buf"
    using assms(1) by (simp add: checked_def hdr_at_def mem_read_def split: if_splits)
  with align_progress [OF assms(2)] show ?thesis by linarith
qed

text \<open>One message of at least the size of a header: the end of the walk, or what it goes on with.\<close>

definition talk_msg :: "talk_env \<Rightarrow> nat \<Rightarrow> u32 \<Rightarrow> bytes \<Rightarrow> nat \<Rightarrow> nlmsghdr \<Rightarrow> io \<Rightarrow> (talk_step + io) outcome" where
  "talk_msg e i pid buf off h io =
     (if pid \<noteq> 0 \<or> nlmsg_pid h \<noteq> te_pid e \<or> \<not> seq_matches (te_seq e) (te_iovlen e) (nlmsg_seq h) then Return (Inr io)
      else if nlmsg_type h = NLMSG_ERROR then
        let c = te_libc e; l = to_int (to_int (int (nlmsg_len h)) - 16) in
        andthen (checked (int_at buf (off + 16))) (\<lambda>error.
          if l \<ge> 20 \<and> error = 0 then
            let io1 = io\<lparr>io_err := io_err io @ fst (nl_dump_ext_ack c (drop off buf))\<rparr>;
                ans = (if te_answer e then Some buf else None) in
            Return (Inl (if nlmsg_seq h = te_seq e then TalkReturn 0 ans io1
                         else if i < te_iovlen e then TalkNext ans io1
                         else TalkReturn 0 ans io1))
          else
            let io1 = (if l < 20 then say ''ERROR truncated'' io else io);
                io2 = (if te_proto e \<noteq> NETLINK_SOCK_DIAG \<and> te_show e
                       then rtnl_talk_error c (drop off buf) error io1 else io1) in
            Return (Inl (TalkReturn (- int i) None (io2\<lparr>io_errno := - error\<rparr>))))
      else if te_answer e then Return (Inl (TalkReturn 0 (Some buf) io))
      else Return (Inr (say ''Unexpected reply!!!'' io)))"

definition bad_len :: "bool \<Rightarrow> int \<Rightarrow> io \<Rightarrow> io outcome" where
  "bad_len trunc len io =
     (if trunc then Return (say ''Truncated message'' io)
      else Exits (say (''!!!malformed message: len='' @ sdec len) io))"

function talk_walk :: "talk_env \<Rightarrow> nat \<Rightarrow> u32 \<Rightarrow> bool \<Rightarrow> bytes \<Rightarrow> nat \<Rightarrow> int \<Rightarrow> io \<Rightarrow> talk_step outcome" where
  "talk_walk e i pid trunc buf off status io =
     (if \<not> room_for_hdr status then Return (TalkOver status io)
      else andthen (checked (hdr_at buf off)) (\<lambda>h.
        let len = to_int (int (nlmsg_len h)) in
        if to_int (len - 16) < 0 \<or> len > status then
          andthen (bad_len trunc len io) (\<lambda>io1. Return (TalkReturn (- 1) None io1))
        else andthen (talk_msg e i pid buf off h io) (\<lambda>r.
          case r of
            Inl s \<Rightarrow> Return s
          | Inr io1 \<Rightarrow>
              talk_walk e i pid trunc buf (off + align_int len) (to_int (status - int (align_int len))) io1)))"
  by pat_completeness auto
termination
  by (relation "measure (\<lambda>(e, i, pid, trunc, buf, off, status, io). length buf - off)") (auto intro: walk_measure)

declare talk_walk.simps [simp del]

lemma talk_error_events [simp]: "io_events (rtnl_talk_error c msg error io) = io_events io"
  by (simp add: rtnl_talk_error_def Let_def split: prod.split)

lemma talk_msg_events:
  assumes "talk_msg e i pid buf off h io = Return r"
  shows "io_events (case r of Inl s \<Rightarrow> ts_io s | Inr io1 \<Rightarrow> io1) = io_events io"
  using assms by (auto simp: talk_msg_def andthen_Return Let_def split: if_splits)

lemma talk_walk_events: "talk_walk e i pid trunc buf off status io = Return s \<Longrightarrow> io_events (ts_io s) = io_events io"
proof (induction e i pid trunc buf off status io rule: talk_walk.induct)
  case (1 e i pid trunc buf off status io)
  show ?case
  proof (cases "room_for_hdr status")
    case True
    with "1.prems" obtain h where h: "checked (hdr_at buf off) = Return h"
      by (auto simp: talk_walk.simps [of e i pid trunc buf off] andthen_Return)
    let ?len = "to_int (int (nlmsg_len h))"
    show ?thesis
    proof (cases "to_int (?len - 16) < 0 \<or> ?len > status")
      case True
      with \<open>room_for_hdr status\<close> "1.prems" h show ?thesis
        by (auto simp: talk_walk.simps [of e i pid trunc buf off] bad_len_def split: if_splits)
    next
      case False
      with \<open>room_for_hdr status\<close> "1.prems" h obtain r where r: "talk_msg e i pid buf off h io = Return r"
        by (auto simp: talk_walk.simps [of e i pid trunc buf off] andthen_Return Let_def)
      note step = talk_walk.simps [of e i pid trunc buf off status io]
      show ?thesis
        using "1.prems" "1.IH" [OF _ h refl False r] talk_msg_events [OF r] \<open>room_for_hdr status\<close> h False r
        by (cases r) (simp_all add: step Let_def)
    qed
  next
    case False
    with "1.prems" show ?thesis by (auto simp: talk_walk.simps [of e i pid trunc buf off])
  qed
qed

text \<open>\<open>__rtnl_talk_iov\<close>: the result, what is left in \<open>*answer\<close>, and the rest. \<open>i\<close> counts the datagrams.\<close>

function talk_loop :: "talk_env \<Rightarrow> nat \<Rightarrow> bytes option \<Rightarrow> io \<Rightarrow> (int \<times> bytes option \<times> io) outcome" where
  "talk_loop e i ans io =
     andthen (rtnl_recvmsg (te_libc e) io) (\<lambda>(r, io1).
       case r of
         Inl err \<Rightarrow> Return (err, ans, io1)
       | Inr (d, trunc) \<Rightarrow>
           if dg_namelen d \<noteq> sizeof_sockaddr_nl then Exits (say (''sender address length == '' @ dec (dg_namelen d)) io1)
           else andthen (talk_walk e (Suc i) (dg_pid d) trunc (dg_data d) 0 (int (length (dg_data d))) io1) (\<lambda>s.
             case s of
               TalkReturn rc a io2 \<Rightarrow> Return (rc, if a = None then ans else a, io2)
             | TalkNext a io2 \<Rightarrow> talk_loop e (Suc i) (if a = None then ans else a) io2
             | TalkOver status io2 \<Rightarrow>
                 if trunc then talk_loop e (Suc i) ans (say ''Message truncated'' io2)
                 else if status \<noteq> 0 then Exits (remnant status io2)
                 else talk_loop e (Suc i) ans io2))"
  by pat_completeness auto
termination
  by (relation "measure (\<lambda>(e, i, ans, io). length (io_events io))")
     (auto dest!: rtnl_recvmsg_events talk_walk_events)

declare talk_loop.simps [simp del]

definition rtnl_talk_iov_raw :: "libc \<Rightarrow> rtnl_handle \<Rightarrow> (bytes \<times> nat) list \<Rightarrow> bool \<Rightarrow> bool \<Rightarrow> io \<Rightarrow>
    (int \<times> bytes option \<times> rtnl_handle \<times> io) outcome" where
  "rtnl_talk_iov_raw c rth iov answer show_rtnl_err io =
     andthen (checked (number_msgs answer (rh_seq rth) iov)) (\<lambda>(out, seq).
       let rth1 = rth\<lparr>rh_seq := seq\<rparr>; (status, io1) = send_msg c out io in
       if status < 0 then Return (- 1, None, rth1, perror c ''Cannot talk to rtnetlink'' io1)
       else andthen (talk_loop \<lparr>te_libc = c, te_proto = rh_proto rth, te_pid = rh_local_pid rth,
               te_seq = (if iov = [] then 0 else seq), te_iovlen = length iov, te_answer = answer, te_show = show_rtnl_err\<rparr>
             0 None io1) (\<lambda>(rc, ans, io2). Return (rc, ans, rth1, io2)))"

definition rtnl_talk_raw :: "libc \<Rightarrow> rtnl_handle \<Rightarrow> bytes \<Rightarrow> bool \<Rightarrow> bool \<Rightarrow> io \<Rightarrow>
    (int \<times> bytes option \<times> rtnl_handle \<times> io) outcome" where
  "rtnl_talk_raw c rth n answer show_rtnl_err io =
     rtnl_talk_iov_raw c rth [(n, nlmsg_len (hdr_of n))] answer show_rtnl_err io"

definition rtnl_talk :: "libc \<Rightarrow> rtnl_handle \<Rightarrow> bytes \<Rightarrow> bool \<Rightarrow> io \<Rightarrow> (int \<times> bytes option \<times> rtnl_handle \<times> io) outcome" where
  "rtnl_talk c rth n answer io = rtnl_talk_raw c rth n answer True io"

definition rtnl_talk_iov :: "libc \<Rightarrow> rtnl_handle \<Rightarrow> (bytes \<times> nat) list \<Rightarrow> bool \<Rightarrow> io \<Rightarrow>
    (int \<times> bytes option \<times> rtnl_handle \<times> io) outcome" where
  "rtnl_talk_iov c rth iov answer io = rtnl_talk_iov_raw c rth iov answer True io"

text \<open>With a function of the caller for the extended error report.\<close>

definition rtnl_talk_extack :: "libc \<Rightarrow> rtnl_handle \<Rightarrow> bytes \<Rightarrow> bool \<Rightarrow> (bytes \<Rightarrow> string \<times> int) \<Rightarrow> io \<Rightarrow>
    (int \<times> bytes option \<times> rtnl_handle \<times> io) outcome" where
  "rtnl_talk_extack c rth n answer errfn io = rtnl_talk_raw (c\<lparr>nl_dump_ext_ack := errfn\<rparr>) rth n answer True io"

definition rtnl_talk_suppress_rtnl_errmsg :: "libc \<Rightarrow> rtnl_handle \<Rightarrow> bytes \<Rightarrow> bool \<Rightarrow> io \<Rightarrow>
    (int \<times> bytes option \<times> rtnl_handle \<times> io) outcome" where
  "rtnl_talk_suppress_rtnl_errmsg c rth n answer io = rtnl_talk_raw c rth n answer False io"

section \<open>Listening\<close>

text \<open>The result of the system call \<open>setsockopt\<close> is an argument.\<close>

definition rtnl_listen_all_nsid :: "libc \<Rightarrow> int \<Rightarrow> rtnl_handle \<Rightarrow> io \<Rightarrow> int \<times> rtnl_handle \<times> io" where
  "rtnl_listen_all_nsid c rc rth io =
     (if rc < 0 then (- 1, rth, perror c ''NETLINK_LISTEN_ALL_NSID'' (io\<lparr>io_errno := - rc\<rparr>))
      else (0, rth\<lparr>rh_flags := rh_flags rth OR RTNL_HANDLE_F_LISTEN_ALL_NSID\<rparr>, io))"

text \<open>A handler sees the sender, the name space if it was asked for, and the memory from the message on.\<close>

type_synonym 's nl_handler = "u32 \<Rightarrow> int option \<Rightarrow> bytes \<Rightarrow> 's \<Rightarrow> (int \<times> 's) option"

text \<open>The messages of a datagram: \<open>Inl\<close> is a result of the function, \<open>Inr\<close> what is left of the datagram.\<close>

function listen_walk :: "'s nl_handler \<Rightarrow> u32 \<Rightarrow> int option \<Rightarrow> bool \<Rightarrow> bytes \<Rightarrow> nat \<Rightarrow> int \<Rightarrow> 's \<Rightarrow> io \<Rightarrow>
    ((int + int) \<times> 's \<times> io) outcome" where
  "listen_walk hdl pid nsid trunc buf off status hs io =
     (if \<not> room_for_hdr status then Return (Inr status, hs, io)
      else andthen (checked (hdr_at buf off)) (\<lambda>h.
        let len = to_int (int (nlmsg_len h)) in
        if to_int (len - 16) < 0 \<or> len > status then
          andthen (bad_len trunc len io) (\<lambda>io1. Return (Inl (- 1), hs, io1))
        else andthen (checked (hdl pid nsid (drop off buf) hs)) (\<lambda>(err, hs1).
          if err < 0 then Return (Inl err, hs1, io)
          else listen_walk hdl pid nsid trunc buf (off + align_int len) (to_int (status - int (align_int len))) hs1 io)))"
  by pat_completeness auto
termination
  by (relation "measure (\<lambda>(hdl, pid, nsid, trunc, buf, off, status, hs, io). length buf - off)")
     (auto intro: walk_measure)

declare listen_walk.simps [simp del]

lemma listen_walk_events:
  "listen_walk hdl pid nsid trunc buf off status hs io = Return (r, hs1, io1) \<Longrightarrow> io_events io1 = io_events io"
proof (induction hdl pid nsid trunc buf off status hs io rule: listen_walk.induct)
  case (1 hdl pid nsid trunc buf off status hs io)
  then show ?case
    by (subst (asm) (2) listen_walk.simps) (auto simp: andthen_Return bad_len_def Let_def split: if_splits)
qed

text \<open>\<open>rtnl_listen\<close>: the buffer is that of the whole function, so bytes of earlier datagrams stay behind a
  shorter one.\<close>

function listen_loop :: "libc \<Rightarrow> u32 \<Rightarrow> 's nl_handler \<Rightarrow> bytes \<Rightarrow> 's \<Rightarrow> io \<Rightarrow> (int \<times> 's \<times> io) outcome" where
  "listen_loop c flags hdl buf hs io =
     (case io_events io of
        [] \<Rightarrow> Blocks io
      | RecvError e # ev \<Rightarrow>
          let io1 = io\<lparr>io_events := ev, io_errno := e\<rparr>;
              io2 = say (''netlink receive error '' @ strerror c e @ '' ('' @ sdec e @ '')'') io1 in
          if e = EINTR \<or> e = EAGAIN then listen_loop c flags hdl buf hs io1
          else if e = ENOBUFS then listen_loop c flags hdl buf hs io2
          else Return (- 1, hs, io2)
      | Arrives d # ev \<Rightarrow>
          let io1 = io\<lparr>io_events := ev\<rparr>; data = take (length buf) (dg_data d); trunc = length (dg_data d) > length buf;
              buf1 = data @ drop (length data) buf;
              nsid = (if flags AND RTNL_HANDLE_F_LISTEN_ALL_NSID = 0 then None else Some (last (- 1 # dg_nsid d))) in
          if data = [] then Return (- 1, hs, say ''EOF on netlink'' io1)
          else if dg_namelen d \<noteq> sizeof_sockaddr_nl then Exits (say (''Sender address length == '' @ dec (dg_namelen d)) io1)
          else andthen (listen_walk hdl (dg_pid d) nsid trunc buf1 0 (int (length data)) hs io1) (\<lambda>(r, hs1, io2).
            case r of
              Inl rc \<Rightarrow> Return (rc, hs1, io2)
            | Inr status \<Rightarrow>
                if trunc then listen_loop c flags hdl buf1 hs1 (say ''Message truncated'' io2)
                else if status \<noteq> 0 then Exits (remnant status io2)
                else listen_loop c flags hdl buf1 hs1 io2))"
  by pat_completeness auto
termination
  by (relation "measure (\<lambda>(c, flags, hdl, buf, hs, io). length (io_events io))") (auto dest!: listen_walk_events)

declare listen_loop.simps [simp del]

text \<open>\<open>stack\<close> is what the 16384 bytes of the buffer hold at the start.\<close>

definition rtnl_listen :: "libc \<Rightarrow> rtnl_handle \<Rightarrow> 's nl_handler \<Rightarrow> bytes \<Rightarrow> 's \<Rightarrow> io \<Rightarrow> (int \<times> 's \<times> io) outcome" where
  "rtnl_listen c rtnl hdl stack hs io = listen_loop c (rh_flags rtnl) hdl stack hs io"

section \<open>Messages from a file\<close>

text \<open>\<open>fread\<close> of at most \<open>n\<close> bytes to offset \<open>off\<close> of the buffer: the buffer and the number of bytes read.\<close>

definition fread :: "bytes \<Rightarrow> nat \<Rightarrow> nat \<Rightarrow> bytes \<Rightarrow> nat \<Rightarrow> (bytes \<times> nat) option" where
  "fread buf off n file pos =
     (let got = take n (drop pos file) in map_option (\<lambda>b. (b, length got)) (mem_write buf off got))"

lemma fread_more: "checked (fread buf off m file pos) = Return (b, n) \<Longrightarrow> n = 0 \<or> pos < length file"
  by (auto simp: checked_def fread_def Let_def split: option.splits)

text \<open>\<open>rtnl_from_file\<close>, from position \<open>pos\<close> of the file on. A header that is cut off is not noticed: the rest of the
  one before, or of the stack, is taken for it.\<close>

function file_loop :: "'s nl_handler \<Rightarrow> bytes \<Rightarrow> nat \<Rightarrow> bytes \<Rightarrow> 's \<Rightarrow> io \<Rightarrow> (int \<times> 's \<times> io) outcome" where
  "file_loop hdl file pos buf hs io =
     andthen (checked (fread buf 0 16 file pos)) (\<lambda>(buf1, n).
       if n = 0 then Return (0, hs, io)
       else andthen (checked (hdr_at buf1 0)) (\<lambda>h.
         let len = to_int (int (nlmsg_len h)); l = to_int (len - 16) in
         if l < 0 \<or> nat (len mod 2 ^ 64) > length buf then
           Return (- 1, hs, say (''!!!malformed message: len='' @ sdec len @ '' @'' @ dec (pos + n)) io)
         else andthen (checked (fread buf1 16 (align_int l) file (pos + n))) (\<lambda>(buf2, k).
           if int k < l then Return (- 1, hs, say ''rtnl-from_file: truncated message'' io)
           else andthen (checked (hdl 0 None buf2 hs)) (\<lambda>(err, hs1).
             if err < 0 then Return (err, hs1, io)
             else file_loop hdl file (pos + n + k) buf2 hs1 io))))"
  by pat_completeness auto
termination
  by (relation "measure (\<lambda>(hdl, file, pos, buf, hs, io). length file - pos)")
     (auto dest!: fread_more)

declare file_loop.simps [simp del]

definition rtnl_from_file :: "bytes \<Rightarrow> 's nl_handler \<Rightarrow> bytes \<Rightarrow> 's \<Rightarrow> io \<Rightarrow> (int \<times> 's \<times> io) outcome" where
  "rtnl_from_file file hdl stack hs io = file_loop hdl file 0 stack hs io"

section \<open>The cache of interface names\<close>

definition RTM_GETLINK :: nat where "RTM_GETLINK = 18"
definition AF_UNSPEC :: u8 where "AF_UNSPEC = 0"

text \<open>The link message in memory.\<close>

definition link_msg_of :: "bytes \<Rightarrow> link_msg option" where
  "link_msg_of m = do {
     h \<leftarrow> hdr_at m 0;
     ifi \<leftarrow> (if nlmsg_len h < 32 then Some (replicate 16 0) else mem_read m 16 16);
     attrs \<leftarrow> (if nlmsg_len h < 32 then Some [] else mem_read m 32 (nlmsg_len h - 32));
     Some \<lparr>lk_msg_type = nlmsg_type h, lk_msg_len = nlmsg_len h,
       lk_index = word_of_nat (le_val (take 4 (drop 4 ifi))), lk_type = word_of_nat (le_val (take 2 (drop 2 ifi))),
       lk_flags = word_of_nat (le_val (take 4 (drop 8 ifi))), lk_attrs = attrs\<rparr>
   }"

text \<open>\<open>ll_remember_index\<close> as a filter; \<open>alloc\<close> is the address \<open>malloc\<close> returns in a state of the cache.\<close>

definition remember_filter :: "(ll_map \<Rightarrow> nat option) \<Rightarrow> ll_map nl_filter" where
  "remember_filter alloc who n m = Option.bind (link_msg_of n) (\<lambda>msg. ll_remember_index (alloc m) msg m)"

definition ll_init_map :: "libc \<Rightarrow> (ll_map \<Rightarrow> nat option) \<Rightarrow> bool \<Rightarrow> rtnl_handle \<Rightarrow> ll_map \<Rightarrow> io \<Rightarrow>
    (bool \<times> rtnl_handle \<times> ll_map \<times> io) outcome" where
  "ll_init_map c alloc initialized rth m io =
     (if initialized then Return (True, rth, m, io)
      else let (rc, rth1, io1) = rtnl_wilddump_request c rth AF_UNSPEC RTM_GETLINK io in
        if rc < 0 then Exits (perror c ''Cannot send dump request'' io1)
        else andthen (rtnl_dump_filter_nc c rth1 (remember_filter alloc) 0 m io1) (\<lambda>(rc2, rth2, m2, io2).
          if rc2 < 0 then Exits (say ''Dump terminated'' io2) else Return (True, rth2, m2, io2)))"

end
