(* ===== verification/Ll_Init.thy ===== *)
theory Ll_Init
  imports Rtnl_Correct
begin

text \<open>
  Filling the cache of interface names from a dump: after \<open>ll_init_map\<close> of \<open>lib/ll_map.c\<close> the cache
  knows every link of the kernel's answer, by its index and by its name.
\<close>

section \<open>Link messages\<close>

definition link_report :: "bytes \<Rightarrow> u32 \<Rightarrow> string \<Rightarrow> bool" where
  "link_report b i s \<longleftrightarrow> wf_msg b \<and> (\<exists>lm payload. link_msg_of b = Some lm \<and> lk_msg_type lm = RTM_NEWLINK \<and>
     32 \<le> lk_msg_len lm \<and> lk_index lm = i \<and>
     fst (parse_rtattr IFLA_MAX (lk_attrs lm)) IFLA_IFNAME = Some payload \<and> c_string payload = Some s)"

lemma mem_read_front: "a + n \<le> length b \<Longrightarrow> mem_read (b @ rest) a n = mem_read b a n"
  by (simp add: mem_read_def)

lemma link_msg_of_append:
  assumes "wf_msg b"
  shows "link_msg_of (b @ rest) = link_msg_of b"
proof -
  note w = wf_msgD [OF assms]
  have h: "hdr_at (b @ rest) 0 = Some (hdr_of b)" "hdr_at b 0 = Some (hdr_of b)"
    using hdr_at_msg [OF w(1), of "[]" rest] hdr_at_msg [OF w(1), of "[]" "[]"] by simp_all
  show ?thesis
  proof (cases "nlmsg_len (hdr_of b) < 32")
    case False
    then have "mem_read (b @ rest) 16 16 = mem_read b 16 16"
      "mem_read (b @ rest) 32 (nlmsg_len (hdr_of b) - 32) = mem_read b 32 (nlmsg_len (hdr_of b) - 32)"
      using w by (auto intro!: mem_read_front)
    then show ?thesis using False h by (simp add: link_msg_of_def)
  qed (use h in \<open>simp add: link_msg_of_def\<close>)
qed

text \<open>The step the filter makes.\<close>

definition remember :: "(ll_map \<Rightarrow> nat option) \<Rightarrow> bytes \<Rightarrow> ll_map \<Rightarrow> ll_map" where
  "remember alloc b m = snd (the (remember_filter alloc 0 b m))"

lemma link_report_accepts:
  assumes "link_report b i s"
  shows "accepts (remember_filter alloc) (remember alloc) b"
proof -
  obtain lm payload where r: "wf_msg b" "link_msg_of b = Some lm" "lk_msg_type lm = RTM_NEWLINK"
      "32 \<le> lk_msg_len lm" "fst (parse_rtattr IFLA_MAX (lk_attrs lm)) IFLA_IFNAME = Some payload" "c_string payload = Some s"
    using assms by (auto simp: link_report_def)
  have "\<exists>m'. ll_remember_index (alloc m) lm m = Some (0, m')" for m
  proof (cases "ll_get_by_index m (lk_index lm)")
    case None
    then show ?thesis using r by (cases "alloc m") (simp_all add: ll_remember_index_def RTM_NEWLINK_def RTM_DELLINK_def)
  next
    case (Some p)
    then show ?thesis using r get_by_index_Some [OF Some]
      by (auto simp: ll_remember_index_def RTM_NEWLINK_def RTM_DELLINK_def Let_def)
  qed
  then show ?thesis
    unfolding accepts_def remember_def remember_filter_def
    using link_msg_of_append [OF r(1)] r(2) by (metis bind.bind_lunit option.sel order_refl snd_conv)
qed

section \<open>The cache\<close>

text \<open>The cache holds exactly the links of a list, each in the chain of its name.\<close>

definition cache_of :: "(u32 \<times> string) list \<Rightarrow> ll_map \<Rightarrow> bool" where
  "cache_of L m \<longleftrightarrow> ll_inv m \<and> finite (dom (lm_mem m)) \<and>
     (\<forall>p e. lm_mem m p = Some e \<longrightarrow> (lc_index e, lc_name e) \<in> set L \<and> p \<in> set (lm_name m (name_slot (lc_name e)))) \<and>
     (\<forall>i s. (i, s) \<in> set L \<longrightarrow> (\<exists>p e. lm_mem m p = Some e \<and> lc_index e = i \<and> lc_name e = s))"

lemma remember_adds:
  assumes "cache_of L m" "link_report b i s" "i \<notin> fst ` set L" "alloc m = Some p" "lm_mem m p = None"
  shows "cache_of (L @ [(i, s)]) (remember alloc b m)"
proof -
  obtain lm payload where r: "link_msg_of b = Some lm" "lk_msg_type lm = RTM_NEWLINK" "32 \<le> lk_msg_len lm" "lk_index lm = i"
      "fst (parse_rtattr IFLA_MAX (lk_attrs lm)) IFLA_IFNAME = Some payload" "c_string payload = Some s"
    using assms(2) by (auto simp: link_report_def)
  have n: "ll_get_by_index m i = None"
  proof (rule ccontr)
    assume "ll_get_by_index m i \<noteq> None"
    then obtain q e where "lm_mem m q = Some e" "lc_index e = i" using get_by_index_Some by blast
    with assms(1,3) show False by (force simp: cache_of_def)
  qed
  let ?e = "\<lparr>lc_flags = lk_flags lm, lc_index = i, lc_type = lk_type lm, lc_name = s\<rparr>"
  let ?m = "m\<lparr>lm_mem := (lm_mem m)(p \<mapsto> ?e), lm_idx := hlist_add_head (idx_slot i) p (lm_idx m),
      lm_name := hlist_add_head (name_slot s) p (lm_name m)\<rparr>"
  have "ll_inv ?m" using ll_inv_add [of m p ?e] assms(1,5) n by (simp add: cache_of_def)
  moreover have "remember alloc b m = ?m"
    using r n assms(4) by (simp add: remember_def remember_filter_def ll_remember_index_def RTM_NEWLINK_def RTM_DELLINK_def)
  ultimately show ?thesis
    using assms(1,5) unfolding cache_of_def by (auto simp: hlist_add_head_def) (metis option.distinct(1))+
qed

text \<open>\<open>malloc\<close> never fails and returns unused memory.\<close>

definition fresh_alloc :: "(ll_map \<Rightarrow> nat option) \<Rightarrow> bool" where
  "fresh_alloc alloc \<longleftrightarrow> (\<forall>m. finite (dom (lm_mem m)) \<longrightarrow> (\<exists>p. alloc m = Some p \<and> lm_mem m p = None))"

definition link_reports :: "bytes list \<Rightarrow> (u32 \<times> string) list \<Rightarrow> bool" where
  "link_reports bs L \<longleftrightarrow> list_all2 (\<lambda>b (i, s). link_report b i s) bs L"

lemma link_reports_each: "link_reports bs L \<Longrightarrow> b \<in> set bs \<Longrightarrow> \<exists>i s. link_report b i s"
  unfolding link_reports_def by (induction bs L rule: list_all2_induct) auto

lemma fold_remember:
  assumes "link_reports bs L" "cache_of K m" "distinct (map fst (K @ L))" "fresh_alloc alloc"
  shows "cache_of (K @ L) (fold (remember alloc) bs m)"
  using assms(1-3) unfolding link_reports_def
proof (induction bs L arbitrary: K m rule: list_all2_induct)
  case (Cons b bs x L)
  obtain i s where x: "x = (i, s)" by (cases x)
  obtain p where p: "alloc m = Some p" "lm_mem m p = None"
    using assms(4) Cons.prems(1) by (auto simp: fresh_alloc_def cache_of_def)
  have "cache_of (K @ [x]) (remember alloc b m)"
    using remember_adds [of K m b i s alloc p] p Cons.hyps(1) Cons.prems by (simp add: x)
  from Cons.IH [OF this] Cons.prems(2) show ?case by simp
qed simp

lemma cache_lookup:
  assumes "cache_of L m" "(i, s) \<in> set L" "distinct (map snd L)"
    and "\<forall>(i, s) \<in> set L. i \<noteq> 0 \<and> length s < IFNAMSIZ"
  shows "ll_index_to_name f m i = s" and "ll_name_to_index h m (Some s) = i"
proof -
  obtain p e where e: "lm_mem m p = Some e" "lc_index e = i" "lc_name e = s"
    using assms(1,2) unfolding cache_of_def by blast
  have "ll_get_by_index m i = Some p" using get_by_index_found [of m p e] assms(1) e by (auto simp: cache_of_def)
  then show "ll_index_to_name f m i = s" using assms(2,4) e by (auto simp: ll_index_to_name_def)
  let ?P = "\<lambda>p. case lm_mem m p of None \<Rightarrow> False | Some im \<Rightarrow> take IFNAMSIZ (lc_name im) = take IFNAMSIZ s"
  have only: "lc_index im = i" if "lm_mem m q = Some im" "take IFNAMSIZ (lc_name im) = take IFNAMSIZ s" for q im
  proof -
    have im: "(lc_index im, lc_name im) \<in> set L" using assms(1) that(1) by (auto simp: cache_of_def)
    with that(2) assms(2,4) have "lc_name im = s" by fastforce
    with im assms(2,3) show ?thesis by (metis distinct_map inj_onD prod.sel)
  qed
  have "p \<in> set (lm_name m (name_slot s))" "?P p" using assms(1) e by (auto simp: cache_of_def)
  then obtain q where q: "ll_get_by_name m s = Some q"
    unfolding ll_get_by_name_def chain_find_def
    by (cases "List.find ?P (lm_name m (name_slot s))") (auto simp: find_None_iff)
  then have "?P q" unfolding ll_get_by_name_def chain_find_def by (auto simp: find_Some_iff)
  then obtain im where "lm_mem m q = Some im" "take IFNAMSIZ (lc_name im) = take IFNAMSIZ s" by (auto split: option.splits)
  with q only show "ll_name_to_index h m (Some s) = i" by (simp add: ll_name_to_index_def)
qed

lemma cache_of_empty: "cache_of [] ll_empty"
  using ll_inv_empty by (simp add: cache_of_def ll_empty_def)

section \<open>Initialisation\<close>

lemma link_report_plain: "link_report b i s \<Longrightarrow> plain b"
  using hdr_at_msg [of b "[]" "[]"]
  by (auto simp: link_report_def link_msg_of_def plain_def RTM_NEWLINK_def NLMSG_DONE_def NLMSG_ERROR_def
      dest!: wf_msgD(1) split: Option.bind_splits)

text \<open>The kernel's answer to a request on a handle: datagrams and interrupted calls, the last datagram with the
  end of the dump; the messages for the request are \<open>bs\<close>, and \<open>ev\<close> is left in the queue.\<close>

definition dump_answer :: "rtnl_handle \<Rightarrow> sock_event list \<Rightarrow> bytes list \<Rightarrow> sock_event list \<Rightarrow> bool" where
  "dump_answer rth evs bs ev \<longleftrightarrow> (\<exists>xs ns ms b rest.
     evs = map event_of xs @ event_of (Packet 0 ns (ms @ b # rest)) # ev \<and> list_all whole xs \<and>
     list_all wf_msg (ms @ b # rest) \<and> dump_end rth b \<and> bs = concat (map (received rth) xs) @ filter (mine rth 0) ms)"

lemma dump_answer_delivered:
  assumes "dump_answer rth (io_events io) bs ev" "\<forall>b \<in> set bs. plain b \<and> accepts flt g b"
    and "\<And>n. malloc_ok c n" "rh_dump_fp rth = None"
  shows "\<exists>io'. rtnl_dump_filter_nc c rth flt 0 fs io = Return (0, rth, fold g bs fs, io') \<and> io_events io' = ev \<and>
    io_sent io' = io_sent io"
proof -
  obtain xs ns ms b rest where a: "io_events io = map event_of xs @ event_of (Packet 0 ns (ms @ b # rest)) # ev"
      "list_all whole xs" "list_all wf_msg (ms @ b # rest)" "dump_end rth b"
      "bs = concat (map (received rth) xs) @ filter (mine rth 0) ms"
    using assms(1) by (auto simp: dump_answer_def)
  have "dump_part rth flt g x" if "x \<in> set xs" for x
  proof -
    have "\<forall>b \<in> set (received rth x). plain b \<and> accepts flt g b" using that assms(2) a(5) by auto
    then show ?thesis by (cases x rule: nl_input.exhaust) auto
  qed
  then have p: "list_all (dump_part rth flt g) xs" "dump_part rth flt g (Packet 0 ns ms)"
    using assms(2) a(5) by (auto simp: list_all_iff)
  have "saved ys rth = rth" for ys using assms(4) by (cases rth) (simp add: saved_def)
  then show ?thesis
    using dump_delivers [OF a(2) p(1) a(3) p(2) a(4) assms(3) a(1), of fs] assms(4) a(5) by (simp add: deliver_def)
qed

text \<open>
  C40. The cache of interface names. \<open>ll_init_map\<close> sends one request, and when the kernel answers it with
  datagrams of whole messages, among which there may be messages for others and interrupted calls, it
  returns at the end of the dump with the rest of the queue untouched. If the messages for the request
  report links with different indices and names, then afterwards every one of them is found: its
  index is translated to its name and its name to its index, without asking the kernel again.
\<close>

theorem ll_init_map_names:
  assumes "\<forall>n. malloc_ok c n" and "fresh_alloc alloc" and "\<forall>msg. 0 \<le> sendmsg c msg" and "rh_dump_fp rth = None"
    and "dump_answer (next_dump rth) (io_events io) bs ev" and "link_reports bs L"
    and "distinct (map fst L)" and "distinct (map snd L)" and "\<forall>(i, s) \<in> set L. i \<noteq> 0 \<and> length s < IFNAMSIZ"
  shows "\<exists>req m io'. ll_init_map c alloc False rth ll_empty io = Return (True, next_dump rth, m, io') \<and>
    io_events io' = ev \<and> io_sent io' = io_sent io @ [req] \<and> nlmsg_seq (hdr_of req) = rh_seq rth + 1 \<and>
    (\<forall>(i, s) \<in> set L. ll_index_to_name f m i = s \<and> ll_name_to_index h m (Some s) = i)"
proof -
  let ?m = "fold (remember alloc) bs ll_empty" and ?rth = "next_dump rth"
  have nn: "\<not> sendmsg c msg < 0" for msg using assms(3) by (simp add: not_less)
  have mal: "malloc_ok c n" for n using assms(1) by simp
  define req where "req = dump_hdr ?rth 40 RTM_GETLINK @ ifinfomsg AF_UNSPEC @ rtattr_hdr (RTA_LENGTH 4) IFLA_EXT_MASK
      @ le_bytes 4 (unat RTEXT_FILTER_VF)"
  have w: "rtnl_wilddump_request c rth AF_UNSPEC RTM_GETLINK io = (sendmsg c req, ?rth, io\<lparr>io_sent := io_sent io @ [req]\<rparr>)"
    by (simp add: nn rtnl_wilddump_request_def rtnl_wilddump_req_filter_def send_msg_def req_def Let_def)
  have seq: "nlmsg_seq (hdr_of req) = rh_seq rth + 1"
    unfolding req_def by (subst dump_hdr_seq) (simp_all add: RTM_GETLINK_def next_dump_def)
  have ok: "\<forall>b \<in> set bs. plain b \<and> accepts (remember_filter alloc) (remember alloc) b"
    using link_reports_each [OF assms(6)] link_report_plain link_report_accepts by blast
  have "dump_answer ?rth (io_events (io\<lparr>io_sent := io_sent io @ [req]\<rparr>)) bs ev" "rh_dump_fp ?rth = None"
    using assms(4,5) by (simp_all add: next_dump_def)
  from dump_answer_delivered [OF this(1) ok mal this(2)] obtain io' where
    "rtnl_dump_filter_nc c ?rth (remember_filter alloc) 0 ll_empty (io\<lparr>io_sent := io_sent io @ [req]\<rparr>) =
      Return (0, ?rth, ?m, io')" "io_events io' = ev" "io_sent io' = io_sent io @ [req]" by auto
  moreover have "cache_of L ?m"
    using fold_remember [OF assms(6) cache_of_empty _ assms(2)] assms(7) by simp
  ultimately show ?thesis
    using w seq cache_lookup [of L ?m, OF _ _ assms(8,9)]
    by (intro exI [of _ req] exI [of _ ?m] exI [of _ io']) (auto simp: ll_init_map_def nn)
qed

text \<open>The answer of a kernel with the loopback interface alone, behind an interrupted call and a message for
  another process.\<close>

definition example_libc :: libc where
  "example_libc = \<lparr>strerror = (\<lambda>_. []), malloc_ok = (\<lambda>_. True), sendmsg = (\<lambda>m. int (length m)), nl_dump_ext_ack = (\<lambda>_. ([], 0))\<rparr>"

definition example_rth :: rtnl_handle where
  "example_rth = \<lparr>rh_fd = 3, rh_local_pid = 5, rh_local_groups = 0, rh_seq = 0, rh_dump = 0, rh_proto = 0,
     rh_dump_fp = None, rh_flags = 0\<rparr>"

definition example_link :: bytes where
  "example_link = [40, 0, 0, 0, 16, 0, 2, 0, 1, 0, 0, 0, 5, 0, 0, 0, 0, 0, 4, 3, 1, 0, 0, 0, 73, 0, 1, 0, 0, 0, 0, 0,
     7, 0, 3, 0, 0x6C, 0x6F, 0, 0]"

definition example_done :: bytes where
  "example_done = [20, 0, 0, 0, 3, 0, 2, 0, 1, 0, 0, 0, 5, 0, 0, 0, 0, 0, 0, 0]"

definition example_other :: bytes where
  "example_other = [16, 0, 0, 0, 1, 0, 0, 0, 9, 0, 0, 0, 8, 0, 0, 0]"

definition example_io :: io where
  "example_io = \<lparr>io_events = map event_of [Interrupt EINTR, Packet 0 [] [example_other, example_link]]
       @ [event_of (Packet 0 [] [example_done])], io_sent = [], io_err = [], io_errno = 0\<rparr>"

definition next_address :: "ll_map \<Rightarrow> nat option" where
  "next_address m = Some (Suc (Max (insert 0 (dom (lm_mem m)))))"

lemma next_address_fresh: "fresh_alloc next_address"
  unfolding fresh_alloc_def next_address_def
proof (intro allI impI)
  fix m :: ll_map assume "finite (dom (lm_mem m))"
  then have "x \<le> Max (insert 0 (dom (lm_mem m)))" if "x \<in> dom (lm_mem m)" for x using that by simp
  then have "Suc (Max (insert 0 (dom (lm_mem m)))) \<notin> dom (lm_mem m)" using not_less_eq_eq by blast
  then show "\<exists>p. Some (Suc (Max (insert 0 (dom (lm_mem m))))) = Some p \<and> lm_mem m p = None" by auto
qed

lemma example_msgs:
  "wf_msg example_link" "wf_msg example_done" "wf_msg example_other"
  "mine (next_dump example_rth) 0 example_link" "\<not> mine (next_dump example_rth) 0 example_other"
  "dump_end (next_dump example_rth) example_done" "link_report example_link 1 ''lo''"
proof -
  show "wf_msg example_link" by code_simp
  show "wf_msg example_done" "wf_msg example_other" by code_simp+
  show "mine (next_dump example_rth) 0 example_link" "\<not> mine (next_dump example_rth) 0 example_other" by code_simp+
  have "mine (next_dump example_rth) 0 example_done" "nlmsg_type (hdr_of example_done) = NLMSG_DONE"
    "20 \<le> nlmsg_len (hdr_of example_done)" "int_at example_done 16 = Some 0" by code_simp+
  then show "dump_end (next_dump example_rth) example_done" by (auto simp: dump_end_def)
  have "link_msg_of example_link = Some \<lparr>lk_msg_type = RTM_NEWLINK, lk_msg_len = 40, lk_index = 1, lk_type = 772, lk_flags = 65609,
      lk_attrs = [7, 0, 3, 0, 0x6C, 0x6F, 0, 0]\<rparr>"
    by (simp add: link_msg_of_def example_link_def hdr_at_def hdr_of_def mem_read_def RTM_NEWLINK_def)
  moreover have "fst (parse_rtattr IFLA_MAX [7, 0, 3, 0, 0x6C, 0x6F, 0, 0]) IFLA_IFNAME = Some [0x6C, 0x6F, 0]"
    "c_string [0x6C, 0x6F, 0] = Some ''lo''" by code_simp+
  ultimately show "link_report example_link 1 ''lo''" using \<open>wf_msg example_link\<close> by (auto simp: link_report_def)
qed

theorem ll_init_map_names_witness:
  "\<exists>req m io'. ll_init_map example_libc next_address False example_rth ll_empty example_io = Return (True, next_dump example_rth, m, io') \<and>
    io_events io' = [] \<and> io_sent io' = [req] \<and> nlmsg_seq (hdr_of req) = 1 \<and>
    ll_index_to_name (\<lambda>_. None) m 1 = ''lo'' \<and> ll_name_to_index (\<lambda>_. 0) m (Some ''lo'') = 1"
proof -
  have "dump_answer (next_dump example_rth) (io_events example_io) [example_link] []"
    unfolding dump_answer_def example_io_def
    by (rule exI [of _ "[Interrupt EINTR, Packet 0 [] [example_other, example_link]]"], rule exI [of _ "[]"],
        rule exI [of _ "[]"], rule exI [of _ example_done], rule exI [of _ "[]"]) (simp add: example_msgs)
  moreover have "link_reports [example_link] [(1, ''lo'')]" by (simp add: link_reports_def example_msgs)
  ultimately show ?thesis
    using ll_init_map_names [of example_libc next_address example_rth example_io "[example_link]" "[]" "[(1, ''lo'')]" "\<lambda>_. None" "\<lambda>_. 0"]
    by (simp add: next_address_fresh example_libc_def example_rth_def example_io_def IFNAMSIZ_def)
qed

end
