(* ===== verification/Talk_Correct.thy ===== *)
theory Talk_Correct
  imports Rtnl_Correct
begin

text \<open>
  Requests with an answer: which messages are taken for the answer, and how \<open>rtnl_talk\<close> ends. The
  arithmetic on the rest of a datagram is that of \<open>int\<close>; for datagrams below two gigabytes of whole
  messages it is exact.
\<close>

section \<open>Arithmetic\<close>

lemma room_for_hdr_nat: "n < 2 ^ 31 \<Longrightarrow> room_for_hdr (int n) \<longleftrightarrow> 16 \<le> n"
  by (simp add: room_for_hdr_def)

lemma room_for_hdr_neg: "- (2 ^ 31) \<le> x \<Longrightarrow> x < 0 \<Longrightarrow> room_for_hdr x"
proof -
  assume x: "- (2 ^ 31) \<le> x" "x < 0"
  then have "(x + 2 ^ 64) mod 2 ^ 64 = x + 2 ^ 64" by (intro mod_pos_pos_trivial) simp_all
  then have "x mod 2 ^ 64 = x + 2 ^ 64" by simp
  with x show ?thesis by (simp add: room_for_hdr_def le_nat_iff)
qed

text \<open>The numbers accepted as those of an answer: also the number before the first request.\<close>

lemma seq_matches_iff:
  assumes "n \<le> unat seq"
  shows "seq_matches seq n s \<longleftrightarrow> unat seq - n \<le> unat s \<and> unat s \<le> unat seq"
proof -
  obtain k j where k: "uint seq = int k" "unat seq = k" "uint s = int j" "unat s = j" "k < 4294967296"
    using unat_u32_less [of seq] by (metis uint_nat)
  then have "(uint seq - int n) mod 2 ^ 64 = int (k - n)" using assms by (simp add: of_nat_diff)
  with k assms show ?thesis by (simp only: seq_matches_def word_less_nat_alt of_nat_less_iff) linarith
qed

lemma seq_matches_one: "seq_matches seq 1 s \<longleftrightarrow> seq \<noteq> 0 \<and> (s = seq \<or> s = seq - 1)"
proof (cases "seq = 0")
  case True
  have "uint s < 18446744073709551615" using uint_bounded [of s] by simp
  then show ?thesis by (simp add: True seq_matches_def)
next
  case False
  then have u: "1 \<le> unat seq" by (simp add: Suc_le_eq unat_gt_0)
  have p: "unat (seq - 1) = unat seq - 1" using u by (simp add: unat_sub word_le_nat_alt)
  have "s = seq \<longleftrightarrow> unat s = unat seq" "s = seq - 1 \<longleftrightarrow> unat s = unat seq - 1"
    unfolding p [symmetric] by (rule word_unat_eq_iff)+
  with seq_matches_iff [OF u, of s] False u show ?thesis by linarith
qed

section \<open>The walk over a datagram\<close>

definition foreign :: "talk_env \<Rightarrow> u32 \<Rightarrow> bytes \<Rightarrow> bool" where
  "foreign e pid b \<longleftrightarrow> pid \<noteq> 0 \<or> nlmsg_pid (hdr_of b) \<noteq> te_pid e \<or> \<not> seq_matches (te_seq e) (te_iovlen e) (nlmsg_seq (hdr_of b))"

lemma talk_walk_step:
  assumes "wf_msg b" "length (b @ rest) < 2 ^ 31"
  shows "talk_walk e i pid trunc (pre @ b @ rest) (length pre) (int (length (b @ rest))) io =
    andthen (talk_msg e i pid (pre @ b @ rest) (length pre) (hdr_of b) io) (\<lambda>r.
      case r of
        Inl s \<Rightarrow> Return s
      | Inr io1 \<Rightarrow> talk_walk e i pid trunc (pre @ b @ rest) (length (pre @ b)) (int (length rest)) io1)"
proof -
  note w = wf_msgD [OF assms(1)]
  have "length b < 2 ^ 31" using assms(2) by simp
  note n = wf_msg_ints [OF assms(1) this]
  have "to_int (int (length (b @ rest)) - int (length b)) = int (length rest)" using assms(2) by (simp add: to_int_id)
  moreover have "room_for_hdr (int (length (b @ rest)))" using room_for_hdr_nat [OF assms(2)] w(1) by simp
  ultimately show ?thesis
    using w n hdr_at_msg [OF w(1), of pre rest] by (subst talk_walk.simps) (simp add: checked_def Let_def)
qed

lemma talk_walk_foreign:
  assumes "list_all wf_msg ms" "list_all (foreign e pid) ms" "length (concat ms @ suf) < 2 ^ 31"
  shows "talk_walk e i pid trunc (pre @ concat ms @ suf) (length pre) (int (length (concat ms @ suf))) io =
    talk_walk e i pid trunc (pre @ concat ms @ suf) (length (pre @ concat ms)) (int (length suf)) io"
  using assms
proof (induction ms arbitrary: pre)
  case (Cons b ms)
  have "talk_msg e i pid (pre @ b @ concat ms @ suf) (length pre) (hdr_of b) io = Return (Inr io)"
    using Cons.prems(2) by (auto simp: talk_msg_def foreign_def)
  then show ?case
    using talk_walk_step [of b "concat ms @ suf" e i pid trunc pre io] Cons.IH [of "pre @ b"] Cons.prems by simp
qed simp

text \<open>A message without its padding at the end of a datagram makes the rest negative, which counts as large:
  the next header is read behind the buffer.\<close>

lemma talk_reads_behind:
  assumes "nlmsg_len (hdr_of b) = length b" "16 \<le> length b" "length b mod 4 \<noteq> 0" "length b < 2 ^ 31" "foreign e pid b"
  shows "talk_walk e i pid trunc b 0 (int (length b)) io = Crash"
proof -
  let ?a = "NLMSG_ALIGN (length b)"
  have a: "length b < ?a" "?a < length b + 4"
    using nlmsg_align_ge [of "length b"] rta_align_mod(2) [of "length b"] assms(3) by (metis le_neq_implies_less)+
  have n: "to_int (int (length b)) = int (length b)" "to_int (int (length b) - 16) = int (length b) - 16"
    "align_int (int (length b)) = ?a" "to_int (int (length b) - int ?a) = int (length b) - int ?a"
    using assms(2,4) a align_int_nat [OF assms(4)] by (simp_all add: to_int_id)
  have "talk_msg e i pid b 0 (hdr_of b) io = Return (Inr io)" using assms(5) by (auto simp: talk_msg_def foreign_def)
  moreover have "room_for_hdr (int (length b) - int ?a)" using a by (intro room_for_hdr_neg) auto
  then have "talk_walk e i pid trunc b ?a (int (length b) - int ?a) io = Crash"
    using a by (subst talk_walk.simps) (simp add: checked_def hdr_at_def mem_read_def)
  ultimately show ?thesis
    using assms n room_for_hdr_nat [OF assms(4)] hdr_at_msg [OF assms(2), of "[]" "[]"]
    by (subst talk_walk.simps) (simp add: checked_def Let_def)
qed

section \<open>The loop\<close>

text \<open>What arrives before the answer.\<close>

fun before_answer :: "talk_env \<Rightarrow> nl_input \<Rightarrow> bool" where
  "before_answer e (Interrupt x) \<longleftrightarrow> True"
| "before_answer e (Packet pid ns ms) \<longleftrightarrow> list_all (foreign e pid) ms \<and> length (concat ms) < 2 ^ 31"

definition packets :: "nl_input list \<Rightarrow> nat" where
  "packets xs = length (filter (\<lambda>x. payload_of x \<noteq> []) xs)"

lemma talk_loop_before:
  assumes "list_all whole xs" "list_all (before_answer e) xs" "\<And>n. malloc_ok (te_libc e) n"
  shows "\<exists>x. talk_loop e i ans (io\<lparr>io_events := map event_of xs @ ev\<rparr>) =
    talk_loop e (i + packets xs) ans (io\<lparr>io_errno := x, io_events := ev\<rparr>)"
  using assms(1,2)
proof (induction xs arbitrary: i io)
  case Nil
  show ?case by (rule exI [of _ "io_errno io"]) (simp add: packets_def)
next
  case (Cons x xs)
  show ?case
  proof (cases x)
    case (Interrupt err)
    then have "rtnl_recvmsg (te_libc e) (io\<lparr>io_events := event_of x # map event_of xs @ ev\<rparr>) =
        rtnl_recvmsg (te_libc e) (io\<lparr>io_errno := err, io_events := map event_of xs @ ev\<rparr>)"
      using Cons.prems(1) by (simp add: recvmsg_interrupt)
    then have "talk_loop e i ans (io\<lparr>io_events := event_of x # map event_of xs @ ev\<rparr>) =
        talk_loop e i ans (io\<lparr>io_errno := err, io_events := map event_of xs @ ev\<rparr>)"
      by (subst (1 2) talk_loop.simps) simp
    then show ?thesis using Cons.IH [of i "io\<lparr>io_errno := err\<rparr>"] Cons.prems Interrupt by (simp add: packets_def)
  next
    case (Packet pid ns ms)
    have wf: "list_all wf_msg ms" "concat ms \<noteq> []" "ms \<noteq> []" using Cons.prems(1) concat_wf by (auto simp: Packet)
    let ?d = "\<lparr>dg_pid = pid, dg_namelen = sizeof_sockaddr_nl, dg_nsid = ns, dg_data = concat ms\<rparr>"
      and ?io = "io\<lparr>io_events := map event_of xs @ ev\<rparr>"
    have "talk_walk e (Suc i) pid False (concat ms) 0 (int (length (concat ms))) ?io =
        talk_walk e (Suc i) pid False (concat ms) (length (concat ms)) 0 ?io"
      using talk_walk_foreign [OF wf(1), of e pid "[]" "Suc i" False "[]" ?io] Cons.prems(2) by (simp add: Packet)
    also have "\<dots> = Return (TalkOver 0 ?io)"
      by (subst talk_walk.simps) (simp add: room_for_hdr_def)
    finally have "talk_loop e i ans (io\<lparr>io_events := event_of x # map event_of xs @ ev\<rparr>) = talk_loop e (Suc i) ans ?io"
      using wf(2) assms(3) by (subst talk_loop.simps) (simp add: Packet recvmsg_packet del: concat_eq_Nil_conv length_concat)
    then show ?thesis using Cons.IH [of "Suc i" io] Cons.prems wf(3) by (simp add: Packet packets_def)
  qed
qed

text \<open>An acknowledgement or error message.\<close>

definition verdict :: "bytes \<Rightarrow> int \<Rightarrow> bool" where
  "verdict b error \<longleftrightarrow> wf_msg b \<and> nlmsg_type (hdr_of b) = NLMSG_ERROR \<and> 36 \<le> nlmsg_len (hdr_of b) \<and> int_at b 16 = Some error"

lemma talk_error_sent: "io_sent (rtnl_talk_error c msg error io) = io_sent io"
  by (simp add: rtnl_talk_error_def say_def Let_def split: prod.split)

lemma talk_msg_verdict:
  assumes "nlmsg_pid h = te_pid e" "seq_matches (te_seq e) (te_iovlen e) (nlmsg_seq h)" "pid = 0" "nlmsg_type h = NLMSG_ERROR"
    and "int_at buf (off + 16) = Some error" "20 \<le> to_int (to_int (int (nlmsg_len h)) - 16)"
    and "te_iovlen e = 1" "\<not> te_answer e"
  shows "\<exists>io'. talk_msg e (Suc i) pid buf off h io = Return (Inl (TalkReturn (if error = 0 then 0 else - int (Suc i)) None io')) \<and>
    io_events io' = io_events io \<and> io_sent io' = io_sent io \<and> (error \<noteq> 0 \<longrightarrow> io_errno io' = - error)"
proof (cases "error = 0")
  case True
  then show ?thesis using assms by (simp add: talk_msg_def checked_def Let_def)
next
  case False
  then show ?thesis using assms by (simp add: talk_msg_def checked_def Let_def talk_error_sent)
qed

lemma talk_loop_answer:
  assumes "list_all wf_msg (ms @ b # rest)" "list_all (foreign e 0) ms" "length (concat (ms @ b # rest)) < 2 ^ 31"
    and "\<not> foreign e 0 b" "verdict b error" "te_iovlen e = 1" "\<not> te_answer e" "\<And>n. malloc_ok (te_libc e) n"
  shows "\<exists>io'. talk_loop e i None (io\<lparr>io_events := event_of (Packet 0 ns (ms @ b # rest)) # ev\<rparr>) =
    Return (if error = 0 then 0 else - int (Suc i), None, io') \<and>
    io_events io' = ev \<and> io_sent io' = io_sent io \<and> (error \<noteq> 0 \<longrightarrow> io_errno io' = - error)"
proof -
  let ?all = "concat (ms @ b # rest)" and ?io = "io\<lparr>io_events := ev\<rparr>"
  have v: "wf_msg b" "20 \<le> length b" using assms(5) wf_msgD by (fastforce simp: verdict_def)+
  have ne: "?all \<noteq> []" by (rule concat_wf [OF _ assms(1)]) simp
  have "length b < 2 ^ 31" using assms(3) by simp
  note n = wf_msg_ints [OF v(1) this]
  have at: "int_at ?all (length (concat ms) + 16) = Some error"
    using int_at_msg [OF v(2), of "concat ms" "concat rest"] assms(5) by (simp add: verdict_def)
  have mine: "nlmsg_pid (hdr_of b) = te_pid e" "seq_matches (te_seq e) (te_iovlen e) (nlmsg_seq (hdr_of b))"
    using assms(4) by (auto simp: foreign_def)
  have l: "20 \<le> to_int (to_int (int (nlmsg_len (hdr_of b))) - 16)"
    using n assms(5) by (simp add: verdict_def)
  obtain io' where m: "talk_msg e (Suc i) 0 ?all (length (concat ms)) (hdr_of b) ?io =
      Return (Inl (TalkReturn (if error = 0 then 0 else - int (Suc i)) None io'))"
      "io_events io' = ev" "io_sent io' = io_sent io" "error \<noteq> 0 \<longrightarrow> io_errno io' = - error"
    using talk_msg_verdict [OF mine _ _ at l assms(6,7)] assms(5) unfolding verdict_def by force
  have "talk_walk e (Suc i) 0 False ?all 0 (int (length ?all)) ?io =
      talk_walk e (Suc i) 0 False ?all (length (concat ms)) (int (length (b @ concat rest))) ?io"
    using talk_walk_foreign [of ms e 0 "b @ concat rest" "Suc i" False "[]" ?io] assms(1-3) by simp
  also have "\<dots> = Return (TalkReturn (if error = 0 then 0 else - int (Suc i)) None io')"
    using talk_walk_step [of b "concat rest" e "Suc i" 0 False "concat ms" ?io] m(1) v(1) assms(3) by simp
  finally show ?thesis
    using m(2-4) ne assms(8)
    by (subst talk_loop.simps) (simp add: recvmsg_packet del: concat_eq_Nil_conv length_concat concat_append concat.simps)
qed

section \<open>Requests\<close>

text \<open>Whether a message is taken for the answer to the next request of a handle: it may carry the number of the
  request before.\<close>

definition answers :: "rtnl_handle \<Rightarrow> bytes \<Rightarrow> bool" where
  "answers rth b \<longleftrightarrow> nlmsg_pid (hdr_of b) = rh_local_pid rth \<and>
     (nlmsg_seq (hdr_of b) = rh_seq rth + 1 \<or> nlmsg_seq (hdr_of b) = rh_seq rth)"

fun no_answer :: "rtnl_handle \<Rightarrow> nl_input \<Rightarrow> bool" where
  "no_answer rth (Interrupt x) \<longleftrightarrow> True"
| "no_answer rth (Packet pid ns ms) \<longleftrightarrow> length (concat ms) < 2 ^ 31 \<and> (pid = 0 \<longrightarrow> list_all (\<lambda>m. \<not> answers rth m) ms)"

text \<open>
  C20. A request is answered. \<open>rtnl_talk\<close> without a place for the answer sends the request with a new sequence
  number and the flag that asks for an acknowledgement, and otherwise unchanged. Interrupted calls,
  datagrams from other processes and messages with other numbers or for other ports are skipped; with
  the first error message that is taken for the answer it returns: 0 if the kernel reports no error, and
  otherwise the number of the datagram it came in, negated, with the error in \<open>errno\<close>. What is taken for
  the answer is a message with the number of the request or with the one before it: a late
  acknowledgement of the previous request ends this one.
\<close>

theorem talk_answered:
  assumes "\<forall>n. malloc_ok c n" and "\<forall>msg. 0 \<le> sendmsg c msg" and "rh_seq rth + 1 \<noteq> 0"
    and "16 \<le> length n" and "nlmsg_len (hdr_of n) = length n"
    and "io_events io = map event_of xs @ event_of (Packet 0 ns (ms @ b # rest)) # ev"
    and "list_all whole xs" and "list_all (no_answer rth) xs"
    and "list_all wf_msg (ms @ b # rest)" and "no_answer rth (Packet 0 ns ms)" and "length (concat (ms @ b # rest)) < 2 ^ 31"
    and "answers rth b" and "verdict b error"
  shows "\<exists>req io'. rtnl_talk c rth n False io =
      Return (if error = 0 then 0 else - int (Suc (packets xs)), None, rth\<lparr>rh_seq := rh_seq rth + 1\<rparr>, io') \<and>
    io_events io' = ev \<and> (error \<noteq> 0 \<longrightarrow> io_errno io' = - error) \<and> io_sent io' = io_sent io @ [req] \<and>
    hdr_of req = (hdr_of n)\<lparr>nlmsg_seq := rh_seq rth + 1, nlmsg_flags := nlmsg_flags (hdr_of n) OR NLM_F_ACK\<rparr> \<and>
    drop 16 req = drop 16 n"
proof -
  define e where "e = \<lparr>te_libc = c, te_proto = rh_proto rth, te_pid = rh_local_pid rth, te_seq = rh_seq rth + 1, te_iovlen = 1,
      te_answer = False, te_show = True\<rparr>"
  define h where "h = (hdr_of n)\<lparr>nlmsg_seq := rh_seq rth + 1, nlmsg_flags := nlmsg_flags (hdr_of n) OR NLM_F_ACK\<rparr>"
  define req where "req = hdr_bytes h @ drop 16 n"
  have f: "foreign e pid m \<longleftrightarrow> pid \<noteq> 0 \<or> \<not> answers rth m" for pid m
    using assms(3) seq_matches_one [of "rh_seq rth + 1"] by (auto simp: foreign_def e_def answers_def)
  have before: "list_all (before_answer e) xs"
    using assms(8)
  proof (rule list.pred_mono_strong)
    fix x assume "no_answer rth x" then show "before_answer e x" by (cases x) (auto simp: f list_all_iff)
  qed
  have mal: "malloc_ok (te_libc e) n" for n using assms(1) by (simp add: e_def)
  let ?io = "io\<lparr>io_sent := io_sent io @ [req]\<rparr>" and ?last = "event_of (Packet 0 ns (ms @ b # rest)) # ev"
  obtain x where x: "talk_loop e 0 None (?io\<lparr>io_events := map event_of xs @ ?last\<rparr>) =
      talk_loop e (packets xs) None (?io\<lparr>io_errno := x, io_events := ?last\<rparr>)"
    using talk_loop_before [OF assms(7) before mal, where i = 0 and ans = None and io = ?io and ev = ?last] by auto
  have fm: "list_all (foreign e 0) ms" "\<not> foreign e 0 b" "te_iovlen e = 1" "\<not> te_answer e"
    using assms(10,12) by (simp_all add: f list_all_iff) (simp_all add: e_def)
  obtain io' where a: "talk_loop e (packets xs) None (?io\<lparr>io_errno := x, io_events := ?last\<rparr>) =
      Return (if error = 0 then 0 else - int (Suc (packets xs)), None, io')" "io_events io' = ev"
      "io_sent io' = io_sent io @ [req]" "error \<noteq> 0 \<longrightarrow> io_errno io' = - error"
    using talk_loop_answer [OF assms(9) fm(1) assms(11) fm(2) assms(13) fm(3,4) mal, where i = "packets xs"
        and io = "?io\<lparr>io_errno := x\<rparr>" and ns = ns and ev = ev] by auto
  have "?io\<lparr>io_events := map event_of xs @ ?last\<rparr> = ?io" using assms(6) by (cases io) simp
  with x a(1) have loop: "talk_loop e 0 None ?io =
      Return (if error = 0 then 0 else - int (Suc (packets xs)), None, io')" by simp
  have num: "number_msgs False (rh_seq rth) [(n, nlmsg_len (hdr_of n))] = Some (req, rh_seq rth + 1)"
    using hdr_at_msg [OF assms(4), of "[]" "[]"] assms(4,5) by (simp add: req_def h_def)
  have nn: "\<not> sendmsg c req < 0" using assms(2) by (simp add: not_less)
  then have "send_msg c req io = (sendmsg c req, ?io)" by (simp add: send_msg_def)
  with nn num loop have "rtnl_talk c rth n False io =
      Return (if error = 0 then 0 else - int (Suc (packets xs)), None, rth\<lparr>rh_seq := rh_seq rth + 1\<rparr>, io')"
    by (simp add: rtnl_talk_def rtnl_talk_raw_def rtnl_talk_iov_raw_def checked_def e_def)
  moreover have "hdr_of req = h"
    unfolding req_def by (rule hdr_of_hdr_bytes) (use le_val_bound [of "take 4 n"] le_val_bound [of "take 2 (drop 4 n)"] assms(4) in \<open>simp_all add: h_def hdr_of_def\<close>)
  ultimately show ?thesis using a(2-4) by (intro exI [of _ req] exI [of _ io']) (simp add: h_def req_def)
qed

text \<open>A request on port 5 that is refused with \<open>EEXIST\<close>, behind an interrupted call and a datagram from another
  process.\<close>

definition talk_libc :: libc where
  "talk_libc = \<lparr>strerror = (\<lambda>_. []), malloc_ok = (\<lambda>_. True), sendmsg = (\<lambda>m. int (length m)), nl_dump_ext_ack = (\<lambda>_. ([], 0))\<rparr>"

definition talk_rth :: rtnl_handle where
  "talk_rth = \<lparr>rh_fd = 3, rh_local_pid = 5, rh_local_groups = 0, rh_seq = 7, rh_dump = 0, rh_proto = 0,
     rh_dump_fp = None, rh_flags = 0\<rparr>"

definition talk_request :: bytes where
  "talk_request = [20, 0, 0, 0, 16, 0, 1, 0, 0, 0, 0, 0, 0, 0, 0, 0, 1, 2, 3, 4]"

definition talk_refusal :: bytes where
  "talk_refusal = [36, 0, 0, 0, 2, 0, 0, 0, 8, 0, 0, 0, 5, 0, 0, 0, 0xEF, 0xFF, 0xFF, 0xFF] @ replicate 16 0"

definition talk_other :: bytes where
  "talk_other = [16, 0, 0, 0, 1, 0, 0, 0, 9, 0, 0, 0, 8, 0, 0, 0]"

definition talk_io :: io where
  "talk_io = \<lparr>io_events = map event_of [Interrupt EINTR, Packet 9 [] [talk_other]] @ [event_of (Packet 0 [] [talk_refusal])],
     io_sent = [], io_err = [], io_errno = 0\<rparr>"

lemma talk_example:
  "wf_msg talk_refusal" "wf_msg talk_other" "verdict talk_refusal (- 17)" "answers talk_rth talk_refusal"
  "nlmsg_len (hdr_of talk_request) = length talk_request" "length talk_request = 20" "length talk_refusal = 36" "length talk_other = 16"
proof -
  show w: "wf_msg talk_refusal" "wf_msg talk_other" by code_simp+
  have "int_at talk_refusal 16 = Some (- 17)"
    by (simp add: int_at_def talk_refusal_def mem_read_def to_int_eq)
  moreover have "nlmsg_type (hdr_of talk_refusal) = NLMSG_ERROR" "nlmsg_len (hdr_of talk_refusal) = 36" by code_simp+
  ultimately show "verdict talk_refusal (- 17)" using w(1) by (simp add: verdict_def)
  show "answers talk_rth talk_refusal" by code_simp
  show "nlmsg_len (hdr_of talk_request) = length talk_request" by code_simp
qed (simp_all add: talk_request_def talk_refusal_def talk_other_def)

theorem talk_answered_witness:
  "\<exists>req io'. rtnl_talk talk_libc talk_rth talk_request False talk_io = Return (- 2, None, talk_rth\<lparr>rh_seq := 8\<rparr>, io') \<and>
    io_events io' = [] \<and> io_errno io' = 17 \<and> io_sent io' = [req] \<and> nlmsg_seq (hdr_of req) = 8 \<and> drop 16 req = [1, 2, 3, 4]"
proof -
  have p: "packets [Interrupt EINTR, Packet 9 [] [talk_other]] = 1" by (simp add: packets_def)
  have s: "rh_seq talk_rth + 1 = 8" "drop 16 talk_request = [1, 2, 3, 4]" "io_sent talk_io = []"
    by (simp_all add: talk_rth_def talk_request_def talk_io_def)
  show ?thesis
    using talk_answered [of talk_libc talk_rth talk_request talk_io "[Interrupt EINTR, Packet 9 [] [talk_other]]" "[]" "[]"
        talk_refusal "[]" "[]" "- 17"] talk_example
    unfolding p s by (fastforce simp: talk_libc_def talk_io_def)
qed

end
