(* ===== verification/Rtnl_File.thy ===== *)
theory Rtnl_File
  imports Talk_Correct
begin

text \<open>
  Saved dumps and listening. A dump that was saved to a file is read back message by message, and a
  listener hands every message it receives to its handler.
\<close>

section \<open>Messages from a file\<close>

text \<open>A handler that looks only at its message and accepts it.\<close>

definition takes :: "'s nl_handler \<Rightarrow> (bytes \<Rightarrow> 's \<Rightarrow> 's) \<Rightarrow> bytes \<Rightarrow> bool" where
  "takes hdl g b \<longleftrightarrow> (\<forall>rest hs. \<exists>rc \<ge> 0. hdl 0 None (b @ rest) hs = Some (rc, g b hs))"

lemma align_rest: "16 \<le> n \<Longrightarrow> NLMSG_ALIGN (n - 16) = NLMSG_ALIGN n - 16"
proof -
  assume "16 \<le> n"
  then obtain k where n: "n = 16 + k" using le_Suc_ex by blast
  have "(k + 3 + 4 * 4) div 4 = 4 + (k + 3) div 4" by (rule div_mult_self1) simp
  then show ?thesis by (simp add: NLMSG_ALIGN_def n)
qed

lemma fread_at:
  assumes "length pre = pos" "off + length w \<le> length buf"
  shows "fread buf off (length w) (pre @ w @ post) pos = Some (take off buf @ w @ drop (off + length w) buf, length w)"
  using assms by (simp add: fread_def mem_write_def)

lemma file_loop_msgs:
  assumes "\<forall>b \<in> set ms. wf_msg b \<and> length b \<le> length buf \<and> takes hdl g b" "length buf < 2 ^ 31" "16 \<le> length buf"
  shows "file_loop hdl (pre @ concat ms) (length pre) buf hs io = Return (0, fold g ms hs, io)"
  using assms
proof (induction ms arbitrary: pre buf hs)
  case Nil
  then show ?case by (subst file_loop.simps) (simp add: checked_def fread_def mem_write_def)
next
  case (Cons b ms)
  let ?file = "pre @ concat (b # ms)" and ?h = "take 16 b" and ?p = "drop 16 b"
  have b: "wf_msg b" "length b \<le> length buf" "takes hdl g b" using Cons.prems by auto
  note w = wf_msgD [OF b(1)] b(1) [unfolded wf_msg_def]
  let ?n = "nlmsg_len (hdr_of b)" and ?buf = "b @ drop (length b) buf"
  have l: "?n < 2 ^ 31" using w b(2) Cons.prems(2) by linarith
  have f1: "fread buf 0 16 ?file (length pre) = Some (?h @ drop 16 buf, 16)"
    using fread_at [of pre "length pre" 0 ?h buf "?p @ concat ms"] w(1) b(2) by simp
  have h: "hdr_at (?h @ drop 16 buf) 0 = Some (hdr_of b)"
    using hdr_at_msg [of ?h "[]" "drop 16 buf"] w(1) by (simp add: hdr_of_take)
  have "length b < 2 ^ 31" using b(2) Cons.prems(2) by simp
  note i = wf_msg_ints(1,2) [OF b(1) this]
  have "align_int (int (?n - 16)) = NLMSG_ALIGN (?n - 16)" using l by (intro align_int_nat) simp
  then have al: "align_int (int (?n - 16)) = length ?p" "nat (int ?n mod 2 ^ 64) = ?n" using l w align_rest [of ?n] by simp_all
  have f2: "fread (?h @ drop 16 buf) 16 (length ?p) ?file (length pre + 16) = Some (?buf, length ?p)"
    using fread_at [of "pre @ ?h" "length pre + 16" 16 ?p "?h @ drop 16 buf" "concat ms"] w(1) b(2) by simp
  have k: "\<not> int (length ?p) < int (?n - 16)" "\<not> ?n > length (?h @ drop 16 buf)" using w b(2) by simp_all
  obtain rc where rc: "0 \<le> rc" "hdl 0 None ?buf hs = Some (rc, g b hs)" using b(3) unfolding takes_def by blast
  have e: "length pre + 16 + length ?p = length (pre @ b)" using w(1) by simp
  have "file_loop hdl ?file (length pre) buf hs io = file_loop hdl ((pre @ b) @ concat ms) (length (pre @ b)) ?buf (g b hs) io"
    using f1 h i al f2 k rc e Cons.prems(3) by (subst file_loop.simps) (simp add: checked_def Let_def)
  also have "\<dots> = Return (0, fold g ms (g b hs), io)"
    using Cons.IH [of ?buf "pre @ b" "g b hs"] Cons.prems b(2) by simp
  finally show ?case by simp
qed

text \<open>
  C26. A saved dump is read back. With a file attached to the handle \<open>rtnl_dump_filter\<close> calls no filter but
  writes the datagrams to the file; when the dump ends without an error, \<open>rtnl_from_file\<close> on that file
  gives the handler every message that was received, in order and from the first one of the first datagram
  to the last one of the last, also those behind the end of the dump and those for others, and returns 0
  at the end of the file, provided the handler takes them and none is larger than its buffer.
\<close>

theorem saved_dump_read_back:
  assumes "\<forall>n. malloc_ok c n" and "rh_dump_fp rth = Some []"
    and "io_events io = map event_of xs @ event_of (Packet 0 ns (ms @ b # rest)) # ev"
    and "list_all whole xs" and "list_all wf_msg (ms @ b # rest)" and "dump_end rth b"
    and "list_all plain (concat (map (received rth) xs) @ filter (mine rth 0) ms)"
    and "all = concat (map payload_of xs) @ ms @ b # rest" and "length stack = 16384"
    and "\<forall>m \<in> set all. length m \<le> 16384 \<and> takes hdl g m"
  shows "\<exists>file rth' io'. rtnl_dump_filter_nc c rth flt 0 fs io = Return (0, rth', fs, io') \<and> rh_dump_fp rth' = Some file \<and>
    io_events io' = ev \<and> rtnl_from_file file hdl stack hs io' = Return (0, fold g all hs, io')"
proof -
  have d: "list_all (dump_part rth flt (\<lambda>_. id)) xs" "dump_part rth flt (\<lambda>_. id) (Packet 0 ns ms)"
  proof -
    have "dump_part rth flt (\<lambda>_. id) x" if "x \<in> set xs" for x
    proof -
      have "\<forall>m \<in> set (received rth x). plain m" using that assms(7) by (auto simp: list_all_iff)
      then show ?thesis using assms(2) by (cases x rule: nl_input.exhaust) auto
    qed
    then show "list_all (dump_part rth flt (\<lambda>_. id)) xs" "dump_part rth flt (\<lambda>_. id) (Packet 0 ns ms)"
      using assms(2,7) by (auto simp: list_all_iff)
  qed
  have mal: "malloc_ok c n" for n using assms(1) by simp
  obtain io' where io': "rtnl_dump_filter_nc c rth flt 0 fs io = Return (0, saved all rth, fs, io')" "io_events io' = ev"
    using dump_delivers [OF assms(4) d(1) assms(5) d(2) assms(6) mal assms(3), of fs] assms(2,8) by (auto simp: deliver_def)
  have "list_all wf_msg (payload_of x)" if "x \<in> set xs" for x
    using that assms(4) by (cases x rule: nl_input.exhaust) (auto simp: list_all_iff)
  then have wf: "\<forall>m \<in> set all. wf_msg m" using assms(5) by (auto simp: assms(8) list_all_iff)
  have "file_loop hdl (concat all) 0 stack hs io' = Return (0, fold g all hs, io')"
    using file_loop_msgs [of all stack hdl g "[]" hs io'] wf assms(9,10) by auto
  moreover have "rh_dump_fp (saved all rth) = Some (concat all)" using assms(2) by (simp add: saved_def)
  ultimately show ?thesis using io' by (auto simp: rtnl_from_file_def)
qed

definition file_libc :: libc where
  "file_libc = \<lparr>strerror = (\<lambda>_. []), malloc_ok = (\<lambda>_. True), sendmsg = (\<lambda>m. int (length m)), nl_dump_ext_ack = (\<lambda>_. ([], 0))\<rparr>"

definition file_rth :: rtnl_handle where
  "file_rth = \<lparr>rh_fd = 3, rh_local_pid = 5, rh_local_groups = 0, rh_seq = 1, rh_dump = 1, rh_proto = 0,
     rh_dump_fp = Some [], rh_flags = 0\<rparr>"

definition file_done :: bytes where
  "file_done = [20, 0, 0, 0, 3, 0, 2, 0, 1, 0, 0, 0, 5, 0, 0, 0, 0, 0, 0, 0]"

definition file_msg :: bytes where
  "file_msg = [17, 0, 0, 0, 16, 0, 2, 0, 1, 0, 0, 0, 5, 0, 0, 0, 42, 0, 0, 0]"

definition file_io :: io where
  "file_io = \<lparr>io_events = map event_of [Packet 0 [] [file_msg]] @ [event_of (Packet 0 [] [file_msg, file_done])],
     io_sent = [], io_err = [], io_errno = 0\<rparr>"

lemma file_example:
  "wf_msg file_msg" "wf_msg file_done" "plain file_msg" "mine file_rth 0 file_msg" "dump_end file_rth file_done"
proof -
  show "wf_msg file_msg" "wf_msg file_done" "plain file_msg" "mine file_rth 0 file_msg" by code_simp+
  have "mine file_rth 0 file_done" "nlmsg_type (hdr_of file_done) = NLMSG_DONE"
    "20 \<le> nlmsg_len (hdr_of file_done)" "int_at file_done 16 = Some 0" by code_simp+
  then show "dump_end file_rth file_done" by (auto simp: dump_end_def)
qed

text \<open>Three messages in two datagrams; the handler counts them.\<close>

theorem saved_dump_read_back_witness:
  "\<exists>file rth' io'. rtnl_dump_filter_nc file_libc file_rth (\<lambda>_ _ fs. Some (0, fs)) 0 () file_io = Return (0, rth', (), io') \<and>
    rh_dump_fp rth' = Some file \<and> io_events io' = [] \<and>
    rtnl_from_file file (\<lambda>_ _ _ n. Some (0, Suc n)) (replicate 16384 0) 0 io' = Return (0, 3, io')"
proof -
  have "\<forall>n. malloc_ok file_libc n" "rh_dump_fp file_rth = Some []" "length file_msg = 20" "length file_done = 20"
    by (simp_all add: file_libc_def file_rth_def file_msg_def file_done_def)
  moreover have "io_events file_io = map event_of [Packet 0 [] [file_msg]] @ event_of (Packet 0 [] ([file_msg] @ file_done # [])) # []"
    by (simp add: file_io_def)
  ultimately show ?thesis
    using saved_dump_read_back [of file_libc file_rth file_io "[Packet 0 [] [file_msg]]" "[]" "[file_msg]" file_done "[]" "[]"
        "[file_msg, file_msg, file_done]" "replicate 16384 0" "\<lambda>_ _ _ n. Some (0, Suc n)" "\<lambda>_. Suc" "\<lambda>_ _ fs. Some (0, fs)" "()" 0]
      file_example
    by (simp add: takes_def numeral_3_eq_3)
qed

section \<open>Listening\<close>

text \<open>A handler that looks only at the message, its sender and its name space and accepts it.\<close>

definition hears :: "'s nl_handler \<Rightarrow> (u32 \<Rightarrow> int option \<Rightarrow> bytes \<Rightarrow> 's \<Rightarrow> 's) \<Rightarrow> u32 \<Rightarrow> int option \<Rightarrow> bytes \<Rightarrow> bool" where
  "hears hdl g pid nsid b \<longleftrightarrow> (\<forall>rest hs. \<exists>rc \<ge> 0. hdl pid nsid (b @ rest) hs = Some (rc, g pid nsid b hs))"

definition nsid_of :: "u32 \<Rightarrow> int list \<Rightarrow> int option" where
  "nsid_of flags ns = (if flags AND RTNL_HANDLE_F_LISTEN_ALL_NSID = 0 then None else Some (last (- 1 # ns)))"

fun heard :: "u32 \<Rightarrow> (u32 \<Rightarrow> int option \<Rightarrow> bytes \<Rightarrow> 's \<Rightarrow> 's) \<Rightarrow> nl_input \<Rightarrow> 's \<Rightarrow> 's" where
  "heard flags g (Interrupt e) = id"
| "heard flags g (Packet pid ns ms) = fold (g pid (nsid_of flags ns)) ms"

fun listen_part :: "u32 \<Rightarrow> 's nl_handler \<Rightarrow> (u32 \<Rightarrow> int option \<Rightarrow> bytes \<Rightarrow> 's \<Rightarrow> 's) \<Rightarrow> nat \<Rightarrow> nl_input \<Rightarrow> bool" where
  "listen_part flags hdl g n (Interrupt e) \<longleftrightarrow> True"
| "listen_part flags hdl g n (Packet pid ns ms) \<longleftrightarrow>
     length (concat ms) \<le> n \<and> list_all (hears hdl g pid (nsid_of flags ns)) ms"

lemma listen_walk_msgs:
  assumes "list_all wf_msg ms" "list_all (hears hdl g pid nsid) ms" "length (concat ms @ suf) < 2 ^ 31"
  shows "listen_walk hdl pid nsid trunc (pre @ concat ms @ suf @ old) (length pre) (int (length (concat ms @ suf))) hs io =
    listen_walk hdl pid nsid trunc (pre @ concat ms @ suf @ old) (length (pre @ concat ms)) (int (length suf))
      (fold (g pid nsid) ms hs) io"
  using assms
proof (induction ms arbitrary: pre hs)
  case (Cons b ms)
  let ?r = "concat ms @ suf"
  have b: "wf_msg b" "length b < 2 ^ 31" "length (b @ ?r) < 2 ^ 31" using Cons.prems by simp_all
  note w = wf_msgD [OF b(1)] and n = wf_msg_ints [OF b(1,2)]
  obtain rc where rc: "0 \<le> rc" "hdl pid nsid (b @ ?r @ old) hs = Some (rc, g pid nsid b hs)"
    using Cons.prems(2) by (auto simp: hears_def)
  have "to_int (int (length (b @ ?r)) - int (length b)) = int (length ?r)" using b(3) by (simp add: to_int_id)
  moreover have "room_for_hdr (int (length (b @ ?r)))" using room_for_hdr_nat [OF b(3)] w(1) by simp
  ultimately have "listen_walk hdl pid nsid trunc (pre @ b @ ?r @ old) (length pre) (int (length (b @ ?r))) hs io =
      listen_walk hdl pid nsid trunc (pre @ b @ ?r @ old) (length (pre @ b)) (int (length ?r)) (g pid nsid b hs) io"
    using w n rc hdr_at_msg [OF w(1), of pre "?r @ old"] by (subst listen_walk.simps) (simp add: checked_def Let_def)
  then show ?case using Cons.IH [of "pre @ b" "g pid nsid b hs"] Cons.prems by simp
qed simp

lemma listen_loop_packet:
  assumes "ms \<noteq> []" "list_all wf_msg ms" "length (concat ms) \<le> length buf"
  shows "listen_loop c flags hdl buf hs (io\<lparr>io_events := event_of (Packet pid ns ms) # ev\<rparr>) =
    andthen (listen_walk hdl pid (nsid_of flags ns) False (concat ms @ drop (length (concat ms)) buf) 0
        (int (length (concat ms))) hs (io\<lparr>io_events := ev\<rparr>)) (\<lambda>(r, hs1, io2).
      case r of
        Inl rc \<Rightarrow> Return (rc, hs1, io2)
      | Inr status \<Rightarrow>
          if status \<noteq> 0 then Exits (remnant status io2)
          else listen_loop c flags hdl (concat ms @ drop (length (concat ms)) buf) hs1 io2)"
  using assms(3) concat_wf [OF assms(1,2)]
  by (subst listen_loop.simps)
     (simp add: Let_def nsid_of_def cong: sum.case_cong if_cong del: last.simps concat_eq_Nil_conv length_concat)

lemma listen_loop_parts:
  assumes "list_all whole xs" "list_all (listen_part flags hdl g (length buf)) xs" "length buf < 2 ^ 31"
  shows "\<exists>e buf'. listen_loop c flags hdl buf hs (io\<lparr>io_events := map event_of xs @ ev\<rparr>) =
      listen_loop c flags hdl buf' (fold (heard flags g) xs hs) (io\<lparr>io_errno := e, io_events := ev\<rparr>) \<and>
    length buf' = length buf"
  using assms
proof (induction xs arbitrary: buf hs io)
  case Nil
  show ?case by (rule exI [of _ "io_errno io"]) auto
next
  case (Cons x xs)
  show ?case
  proof (cases x)
    case (Interrupt e)
    then have "listen_loop c flags hdl buf hs (io\<lparr>io_events := map event_of (x # xs) @ ev\<rparr>) =
        listen_loop c flags hdl buf hs (io\<lparr>io_errno := e, io_events := map event_of xs @ ev\<rparr>)"
    proof -
      have "io\<lparr>io_events := map event_of xs @ ev, io_errno := e\<rparr> = io\<lparr>io_errno := e, io_events := map event_of xs @ ev\<rparr>"
        by (cases io) simp
      note this [simp]
      show ?thesis using Cons.prems(1) Interrupt by (subst listen_loop.simps) (auto simp: Let_def)
    qed
    then show ?thesis using Cons.IH [of buf hs "io\<lparr>io_errno := e\<rparr>"] Cons.prems Interrupt by simp
  next
    case (Packet pid ns ms)
    let ?data = "concat ms" and ?ns = "nsid_of flags ns"
    let ?buf = "?data @ drop (length ?data) buf" and ?hs = "fold (g pid ?ns) ms hs"
    have m: "list_all wf_msg ms" "ms \<noteq> []" "list_all (hears hdl g pid ?ns) ms" "length ?data \<le> length buf"
      using Cons.prems Packet by simp_all
    have "listen_walk hdl pid ?ns False ?buf off 0 ?hs io' = Return (Inr 0, ?hs, io')" for off io'
      by (subst listen_walk.simps) (simp add: room_for_hdr_nat [of 0, simplified])
    then have "listen_walk hdl pid ?ns False ?buf 0 (int (length ?data)) hs io' = Return (Inr 0, ?hs, io')" for io'
      using listen_walk_msgs [OF m(1,3), of "[]" False "[]" "drop (length ?data) buf" hs io'] m(4) Cons.prems(3)
      by simp
    then have "listen_loop c flags hdl buf hs (io\<lparr>io_events := map event_of (x # xs) @ ev\<rparr>) =
        listen_loop c flags hdl ?buf ?hs (io\<lparr>io_events := map event_of xs @ ev\<rparr>)"
      using Packet
        listen_loop_packet [OF m(2,1,4), where io = io and ev = "map event_of xs @ ev" and c = c and hs = hs and hdl = hdl
          and pid = pid and ns = ns and flags = flags] by simp
    then show ?thesis using Cons.IH [of ?buf ?hs io] Cons.prems m(4) Packet by simp
  qed
qed

text \<open>
  A listener hands every message of every datagram to its handler, in order and with the sender
  and the name space of the datagram, until receiving fails for good or the handler refuses a
  message; the messages behind a refused one in its datagram are lost.
\<close>

lemma listen_delivers:
  assumes "list_all whole xs" "list_all (listen_part (rh_flags rth) hdl g (length stack)) xs" "length stack < 2 ^ 31"
  shows "io_events io = map event_of xs @ RecvError e # ev \<Longrightarrow> e \<notin> {EINTR, EAGAIN, ENOBUFS} \<Longrightarrow>
      \<exists>io'. rtnl_listen c rth hdl stack hs io = Return (- 1, fold (heard (rh_flags rth) g) xs hs, io') \<and> io_events io' = ev"
    and "io_events io = map event_of xs @ event_of (Packet pid ns (ms @ b # rest)) # ev \<Longrightarrow>
      list_all wf_msg (ms @ b # rest) \<Longrightarrow> listen_part (rh_flags rth) hdl g (length stack) (Packet pid ns ms) \<Longrightarrow>
      length (concat (ms @ b # rest)) \<le> length stack \<Longrightarrow>
      (\<And>m s. hdl pid (nsid_of (rh_flags rth) ns) (b @ m) s = Some (err, f s)) \<Longrightarrow> err < 0 \<Longrightarrow>
      \<exists>io'. rtnl_listen c rth hdl stack hs io =
        Return (err, f (heard (rh_flags rth) g (Packet pid ns ms) (fold (heard (rh_flags rth) g) xs hs)), io') \<and> io_events io' = ev"
proof -
  let ?hs = "fold (heard (rh_flags rth) g) xs hs" and ?L = "listen_loop c (rh_flags rth) hdl"
  have p: "\<exists>x buf. rtnl_listen c rth hdl stack hs io = ?L buf ?hs (io\<lparr>io_errno := x, io_events := evs\<rparr>) \<and> length buf = length stack"
    if "io_events io = map event_of xs @ evs" for evs
  proof -
    have io: "io\<lparr>io_events := map event_of xs @ evs\<rparr> = io" using that by (cases io) simp
    show ?thesis using listen_loop_parts [OF assms, where c = c and hs = hs and io = io and ev = evs] unfolding io rtnl_listen_def .
  qed
  show "\<exists>io'. rtnl_listen c rth hdl stack hs io = Return (- 1, ?hs, io') \<and> io_events io' = ev"
    if "io_events io = map event_of xs @ RecvError e # ev" "e \<notin> {EINTR, EAGAIN, ENOBUFS}"
    using p [OF that(1)] that(2) by (subst (asm) listen_loop.simps) (auto simp: Let_def say_def)
  assume ev: "io_events io = map event_of xs @ event_of (Packet pid ns (ms @ b # rest)) # ev"
    and m: "list_all wf_msg (ms @ b # rest)" "listen_part (rh_flags rth) hdl g (length stack) (Packet pid ns ms)"
      "length (concat (ms @ b # rest)) \<le> length stack"
    and r: "\<And>m s. hdl pid (nsid_of (rh_flags rth) ns) (b @ m) s = Some (err, f s)" "err < 0"
  obtain x buf where l: "rtnl_listen c rth hdl stack hs io =
      ?L buf ?hs (io\<lparr>io_errno := x, io_events := event_of (Packet pid ns (ms @ b # rest)) # ev\<rparr>)" "length buf = length stack"
    using p [OF ev] by blast
  let ?ns = "nsid_of (rh_flags rth) ns" and ?data = "concat (ms @ b # rest)" and ?s = "concat (b # rest)"
  let ?old = "drop (length ?data) buf"
  have ms: "list_all wf_msg ms" "list_all (hears hdl g pid ?ns) ms" and b: "wf_msg b" using m by simp_all
  have n: "length (concat ms @ ?s) < 2 ^ 31" "length ?s < 2 ^ 31" "length b < 2 ^ 31" using m(3) assms(3) by simp_all
  note w = wf_msgD [OF b] and i = wf_msg_ints [OF b n(3)]
  have "listen_walk hdl pid ?ns False (concat ms @ ?s @ ?old) (length (concat ms)) (int (length ?s)) s io' =
      Return (Inl err, f s, io')" for s io'
    using w i r hdr_at_msg [OF w(1), of "concat ms" "concat rest @ ?old"] room_for_hdr_nat [OF n(2)]
    by (subst listen_walk.simps) (simp add: checked_def Let_def)
  then have "listen_walk hdl pid ?ns False (?data @ ?old) 0 (int (length ?data)) ?hs io' =
      Return (Inl err, f (fold (g pid ?ns) ms ?hs), io')" for io'
    using listen_walk_msgs [OF ms n(1), of False "[]" ?old ?hs io'] by simp
  then show "\<exists>io'. rtnl_listen c rth hdl stack hs io =
      Return (err, f (heard (rh_flags rth) g (Packet pid ns ms) ?hs), io') \<and> io_events io' = ev"
    unfolding l(1) using listen_loop_packet [where ms = "ms @ b # rest" and io = "io\<lparr>io_errno := x\<rparr>" and ev = ev
        and c = c and hs = ?hs and hdl = hdl and pid = pid and ns = ns and flags = "rh_flags rth" and buf = buf] m(1,3) l(2) by simp
qed

end
