(* ===== verification/Spec2Isabelle.thy ===== *)
theory Spec2Isabelle
  imports Ring_Steps Addr_Families Iplink_Report Ip_Print_Correct Reader_Session Module_Run Ll_Init Talk_Correct Rtnl_File
begin

text \<open>
  Pval is a Linux kernel module with its user-space tools. The module
  (\<open>src/kmod/pval_main.c\<close>) is a virtual network device on top of a lower link. It can add an
  IP option with a CPU and a sequence number to packets it sends, and copies sent and
  received packets with their hardware time stamps into per-CPU rings, which user space
  reads through character devices. \<open>src/include/pval.h\<close> is the interface both sides share. A
  modified \<open>iproute2\<close> configures the device over netlink, a modified \<open>tcpdump\<close> shows the
  option, and the programs under \<open>src/tools\<close> read the devices.

  \<^bold>\<open>The kernel module.\<close>
  \<^item> \<open>Prelude\<close>: bytes, memory accesses that may fail, decimal and hexadecimal digits.
  \<^item> \<open>Pval_Uapi\<close>: the constants, the option and the slot of \<open>pval.h\<close> with their layout.
  \<^item> \<open>Ring\<close>, \<open>Ring_Steps\<close>: the ring operations refine a bounded queue (locale
    \<open>bounded_fifo\<close>); the single accesses of writers (\<open>writer_step\<close>) and of a reader
    (\<open>reader_step\<close>) to the indices and slots are step relations. With one writer the ring is a
    queue as long as the head does not wrap around between the two reads of it in
    \<open>ring_read_avail\<close>; a run in which it does delivers stale slots, and in another run two
    writers lose a slot.
  \<^item> \<open>Skb\<close>, \<open>Inet_Sum\<close>, \<open>Kmod_Checksum\<close>: packet buffers, the Internet checksum as a contract
    (locale \<open>inet_checksum\<close>), and \<open>checksum\<close> and \<open>wrapsum\<close> as an implementation of it.
  \<^item> \<open>Pval_Dev\<close>, \<open>Xmit\<close>, \<open>Xmit_Correct\<close>, \<open>Workers\<close>: \<open>pval_xmit\<close>, the time stamp workers and
    the receive handler: the frame sent, what is copied, what is freed and what is leaked.
  \<^item> \<open>Chardev\<close>, \<open>Chardev_Correct\<close>: opening, reading, polling and closing; packets offered to a
    ring arrive in user space in order.
  \<^item> \<open>Link\<close>, \<open>Link_Correct\<close>: creation, change, removal, up, down and the netlink report. What
    creation takes removal gives back, for any driver of the lower link; its time stamp
    configuration comes back for drivers that report it (\<open>driver_ok\<close>) or have none
    (\<open>tstamp_fixed\<close>).
  \<^item> \<open>Module_Run\<close>: all handlers of the module in any order as a step relation, each handler a
    single step; the state stays well-formed and no handler faults on an interface that is
    there. Files and workers of a removed interface are kept apart and not used.

  \<^bold>\<open>iproute2\<close> (\<open>src/iproute2-4.18.0\<close>).
  \<^item> \<open>Libnetlink\<close>, \<open>Libnetlink_Correct\<close>: the attribute writers and readers of
    \<open>lib/libnetlink.c\<close> (locale \<open>attr_reader\<close>).
  \<^item> \<open>Rtnl\<close>, \<open>Rtnl_Talk\<close>: the rest of \<open>lib/libnetlink.c\<close> (handles, requests, dumps, exchanges,
    listening, reading a saved dump) and \<open>ll_init_map\<close>. \<open>Rtnl_Correct\<close>: what a dump delivers to
    its filter; \<open>Ll_Init\<close>: the names known afterwards; \<open>Talk_Correct\<close>: an exchange ends with the
    answer; \<open>Rtnl_File\<close>: a saved dump is read back, and what a listener hands to its handler.
  \<^item> \<open>C_Numbers\<close>, \<open>C_Numbers_Correct\<close>: \<open>strtol\<close> and \<open>strtoul\<close> read back what \<open>printf\<close> writes
    (locale \<open>positional\<close>, for decimal and hexadecimal).
  \<^item> \<open>Iproute_Utils\<close>, \<open>Iproute_Addr\<close>, \<open>Iproute_Prefix\<close>: the parsers of \<open>lib/utils.c\<close>,
    \<open>lib/ll_addr.c\<close> and of DECnet, MPLS and IPX addresses; \<open>Iproute_Correct\<close> and
    \<open>Addr_Families\<close> show which printed texts they read back and which they refuse.
  \<^item> \<open>Ll_Map\<close>: the cache of interface names of \<open>lib/ll_map.c\<close> with its invariant.
  \<^item> \<open>Iplink_Pval\<close>, \<open>Iplink_Correct\<close>, \<open>Iplink_Report\<close>: \<open>ip/iplink_pval.c\<close>; a command line sets
    exactly the switches it names, and a report can be given back as a command line.

  \<^bold>\<open>tcpdump and tools.\<close>
  \<^item> \<open>In_Cksum\<close>: \<open>in_cksum.c\<close>, for any pieces at any addresses.
  \<^item> \<open>Print_Ip\<close>, \<open>Ip_Print\<close>, \<open>Ip_Print_Correct\<close>: \<open>print-ip.c\<close> with the printers of AH, ESP and
    IPComp; these read nothing outside of the capture, and the option of the module is shown.
  \<^item> \<open>Util_Print\<close>, \<open>Txtproto\<close>, \<open>Util_Print_Correct\<close>: the shared printers of \<open>util-print.c\<close>; text
    of a packet reaches the terminal only as printable characters.
  \<^item> \<open>Tools\<close>, \<open>Reader_Session\<close>: the lines of \<open>dump-one\<close>, \<open>dump-multi\<close>, \<open>look-tcp\<close> and \<open>tap1\<close>,
    and the threads of \<open>dump-multi\<close> reading the devices of the module, with packets that
    arrive before and behind each call of \<open>readv\<close>.

  \<^bold>\<open>Conventions.\<close> Memory is a list of bytes on a little-endian machine with 64-bit \<open>long\<close>;
  an access outside of an object is \<open>None\<close>. Machine integers keep their width where they can
  wrap around. Kernel and C library services (buffers, queues, registration, copies to user
  space, name lookups, \<open>inet_pton\<close> for IPv6) are arguments, with what the code relies on as
  named hypotheses. Every loop terminates by a measure; no definition needs fuel. A socket
  is the queue of the events it will report, and a call that would wait beyond the last of
  them ends in \<open>Blocks\<close>; a loop on a socket takes at least one event per round. The bound of
  60000 bytes on \<open>in_cksum\<close> keeps its 32-bit sum from overflowing. \<open>print-ip.c\<close> is the version
  without \<open>GUESS_TSO\<close>, and ESP is printed without a secret, so that nothing behind it is
  decoded. The accesses of \<open>Ring_Steps\<close> are sequentially consistent. A clone of a packet
  buffer is a copy of the value.

  \<^bold>\<open>Not modelled.\<close> \<open>nl_dump_ext_ack\<close> of \<open>libnetlink.c\<close> is a row of calls of libmnl and an
  argument. Of the tools, signals, the results of \<open>poll\<close> and the scheduler are inputs, and of \<open>src/tap\<close> only the packet
  printer is modelled, the rest is system calls. Of \<open>utils.c\<close> the time values, name resolution
  and process helpers are missing. In \<open>tcpdump\<close> the printers of the protocols above IP and
  \<open>ipaddr_string\<close>, which asks the name service, are arguments. \<open>pval_print_opt\<close> is modelled for
  text output, not for JSON. The rest of \<open>iproute2\<close> and \<open>tcpdump\<close> is not covered.
\<close>

end
